(* ===== verification/Kit_Prelude.thy ===== *)
theory Kit_Prelude
  imports Main "HOL-Library.Sublist"
begin

text \<open>
  The prelude of the development: results of fallible Go functions, Go strings as byte lists with
  the parts of \<open>strings\<close>, \<open>unicode\<close> and \<open>unicode/utf8\<close> the kit uses, and the collections the
  component theories share. A Go \<open>string\<close> is a sequence of bytes, so it is a \<^typ>\<open>string\<close>
  (a list of 8-bit characters); where the source ranges over runes, the bytes are decoded here
  the way Go decodes them.
\<close>

named_theorems result_simps \<open>evaluation of results\<close>
named_theorems str_simps \<open>the string functions of the standard library\<close>

section \<open>Results\<close>

text \<open>
  A Go function that returns \<open>(T, error)\<close> is a function into \<open>'e + 'a\<close>: \<open>Inl\<close> the error,
  \<open>Inr\<close> the value. \<open>and_then\<close> is the \<open>if err != nil { return ..., err }\<close> after a call.
\<close>

fun and_then :: "'e + 'a \<Rightarrow> ('a \<Rightarrow> 'e + 'b) \<Rightarrow> 'e + 'b" where
  "and_then (Inl e) k = Inl e"
| "and_then (Inr x) k = k x"

lemma and_then_eq_Inr [result_simps]:
  "and_then r k = Inr y \<longleftrightarrow> (\<exists>x. r = Inr x \<and> k x = Inr y)"
  by (cases r) auto

lemma and_then_eq_Inl [result_simps]:
  "and_then r k = Inl e \<longleftrightarrow> r = Inl e \<or> (\<exists>x. r = Inr x \<and> k x = Inl e)"
  by (cases r) auto

lemma and_then_assoc:
  "and_then (and_then r k) h = and_then r (\<lambda>x. and_then (k x) h)"
  by (cases r) auto

lemma and_then_cong [fundef_cong]:
  "r = r' \<Longrightarrow> (\<And>x. r' = Inr x \<Longrightarrow> k x = k' x) \<Longrightarrow> and_then r k = and_then r' k'"
  by (cases r') auto

definition ok :: "'e + 'a \<Rightarrow> bool" where
  "ok r \<longleftrightarrow> (case r of Inl _ \<Rightarrow> False | Inr _ \<Rightarrow> True)"

lemma ok_simps [simp]: "ok (Inr x)" "\<not> ok (Inl e)"
  by (simp_all add: ok_def)

lemma ok_iff: "ok r \<longleftrightarrow> (\<exists>x. r = Inr x)"
  by (cases r) auto

lemma not_ok_iff: "\<not> ok r \<longleftrightarrow> (\<exists>e. r = Inl e)"
  by (cases r) auto

definition guardE :: "bool \<Rightarrow> 'e \<Rightarrow> 'e + unit" where
  "guardE b e = (if b then Inr () else Inl e)"

lemma guardE_simps [simp]:
  "guardE True e = Inr ()" "guardE False e = Inl e"
  by (simp_all add: guardE_def)

lemma guardE_Inr [result_simps]: "guardE b e = Inr u \<longleftrightarrow> b"
  by (simp add: guardE_def)

lemma guardE_Inl [result_simps]: "guardE b e = Inl e' \<longleftrightarrow> \<not> b \<and> e' = e"
  by (auto simp: guardE_def)

section \<open>Runes\<close>

text \<open>
  One step of \<open>utf8.DecodeRuneInString\<close>: the first byte and the bytes after it give the rune and
  the bytes left. An invalid encoding is the replacement rune \<open>U+FFFD\<close> of width one.
\<close>

abbreviation byte :: "char \<Rightarrow> nat" where
  "byte c \<equiv> of_char c"

definition rune_error :: nat where
  "rune_error = 65533"

definition in_range :: "nat \<Rightarrow> nat \<Rightarrow> char \<Rightarrow> bool" where
  "in_range lo hi c \<longleftrightarrow> lo \<le> byte c \<and> byte c \<le> hi"

definition decode2 :: "char \<Rightarrow> string \<Rightarrow> nat \<times> string" where
  "decode2 b0 cs = (case cs of
       b1 # r \<Rightarrow> (if in_range 128 191 b1
                   then ((byte b0 - 192) * 64 + (byte b1 - 128), r) else (rune_error, cs))
     | [] \<Rightarrow> (rune_error, cs))"

definition decode3 :: "nat \<Rightarrow> nat \<Rightarrow> char \<Rightarrow> string \<Rightarrow> nat \<times> string" where
  "decode3 lo hi b0 cs = (case cs of
       b1 # b2 # r \<Rightarrow> (if in_range lo hi b1 \<and> in_range 128 191 b2
                   then ((byte b0 - 224) * 4096 + (byte b1 - 128) * 64 + (byte b2 - 128), r)
                   else (rune_error, cs))
     | _ \<Rightarrow> (rune_error, cs))"

definition decode4 :: "nat \<Rightarrow> nat \<Rightarrow> char \<Rightarrow> string \<Rightarrow> nat \<times> string" where
  "decode4 lo hi b0 cs = (case cs of
       b1 # b2 # b3 # r \<Rightarrow> (if in_range lo hi b1 \<and> in_range 128 191 b2 \<and> in_range 128 191 b3
                   then ((byte b0 - 240) * 262144 + (byte b1 - 128) * 4096
                          + (byte b2 - 128) * 64 + (byte b3 - 128), r)
                   else (rune_error, cs))
     | _ \<Rightarrow> (rune_error, cs))"

definition next_rune :: "char \<Rightarrow> string \<Rightarrow> nat \<times> string" where
  "next_rune b0 cs = (let b = byte b0 in
     if b < 128 then (b, cs)
     else if b < 194 then (rune_error, cs)
     else if b < 224 then decode2 b0 cs
     else if b = 224 then decode3 160 191 b0 cs
     else if b = 237 then decode3 128 159 b0 cs
     else if b < 240 then decode3 128 191 b0 cs
     else if b = 240 then decode4 144 191 b0 cs
     else if b < 244 then decode4 128 191 b0 cs
     else if b = 244 then decode4 128 143 b0 cs
     else (rune_error, cs))"

lemmas decode_defs = decode2_def decode3_def decode4_def

lemma next_rune_suffix: "suffix (snd (next_rune b cs)) cs"
  by (auto simp: next_rune_def decode_defs Let_def suffix_def split: list.split)

lemma take_suffix: "suffix xs ys \<Longrightarrow> take (length ys - length xs) ys @ xs = ys"
  by (auto simp: suffix_def)

lemma next_rune_length: "length (snd (next_rune b cs)) \<le> length cs"
  by (rule suffix_length_le [OF next_rune_suffix])

lemma next_rune_ascii: "byte b < 128 \<Longrightarrow> next_rune b cs = (byte b, cs)"
  by (simp add: next_rune_def)

text \<open>A byte below 128 is always its own rune, and no other byte decodes to a rune below 128.\<close>

lemma decode2_high: "194 \<le> byte b \<Longrightarrow> 128 \<le> fst (decode2 b cs)"
  by (auto simp: decode2_def rune_error_def split: list.split)

lemma decode3_high:
  assumes "224 \<le> byte b" and "225 \<le> byte b \<or> 160 \<le> lo"
  shows "128 \<le> fst (decode3 lo hi b cs)"
  using assms by (auto simp: decode3_def rune_error_def in_range_def split: list.split)

lemma decode4_high:
  assumes "240 \<le> byte b" and "241 \<le> byte b \<or> 144 \<le> lo"
  shows "128 \<le> fst (decode4 lo hi b cs)"
  using assms by (auto simp: decode4_def rune_error_def in_range_def split: list.split)

lemma next_rune_high: "128 \<le> byte b \<Longrightarrow> 128 \<le> fst (next_rune b cs)"
  unfolding next_rune_def Let_def
  by (simp add: decode2_high decode3_high decode4_high rune_error_def)

text \<open>\<open>for _, r := range s\<close>: each rune with the bytes it was decoded from.\<close>

function rune_segs :: "string \<Rightarrow> (nat \<times> string) list" where
  "rune_segs [] = []"
| "rune_segs (b # cs) = (let nr = next_rune b cs in
     (fst nr, b # take (length cs - length (snd nr)) cs) # rune_segs (snd nr))"
  by pat_completeness auto
termination
  by (relation "measure length") (auto simp: le_imp_less_Suc next_rune_length)

definition runes :: "string \<Rightarrow> nat list" where
  "runes s = map fst (rune_segs s)"

lemma runes_simps [simp]:
  "runes [] = []"
  "runes (b # cs) = fst (next_rune b cs) # runes (snd (next_rune b cs))"
  by (simp_all add: runes_def Let_def)

lemma concat_rune_segs: "concat (map snd (rune_segs s)) = s"
proof (induction s rule: rune_segs.induct)
  case (2 b cs)
  have "take (length cs - length (snd (next_rune b cs))) cs @ snd (next_rune b cs) = cs"
    by (rule take_suffix [OF next_rune_suffix])
  with 2 show ?case by (simp add: Let_def)
qed simp

lemma rune_low_byte: "r \<in> set (runes s) \<Longrightarrow> r < 128 \<Longrightarrow> \<exists>c \<in> set s. byte c = r"
proof (induction s rule: rune_segs.induct)
  case (2 b cs)
  have sub: "set (snd (next_rune b cs)) \<subseteq> set cs"
    by (rule set_mono_suffix [OF next_rune_suffix])
  show ?case
  proof (cases "r = fst (next_rune b cs)")
    case True
    with 2 show ?thesis
      using next_rune_high [of b cs] next_rune_ascii [of b cs] by (cases "byte b < 128") auto
  next
    case False
    with 2 have "\<exists>c \<in> set (snd (next_rune b cs)). byte c = r" by simp
    with sub show ?thesis by auto
  qed
qed simp

text \<open>\<open>unicode.IsSpace\<close>, the code points with the White\_Space property.\<close>

definition isSpace :: "nat \<Rightarrow> bool" where
  "isSpace r \<longleftrightarrow> r \<in> {9, 10, 11, 12, 13, 32, 133, 160, 5760, 8232, 8233, 8239, 8287, 12288}
     \<or> (8192 \<le> r \<and> r \<le> 8202)"

text \<open>\<open>strings.IndexFunc(s, unicode.IsSpace) >= 0\<close>\<close>

definition hasSpace :: "string \<Rightarrow> bool" where
  "hasSpace s \<longleftrightarrow> list_ex isSpace (runes s)"

section \<open>Strings\<close>

text \<open>\<open>strings.Split(s, c)\<close> for a one-byte separator: never empty.\<close>

fun splitOn :: "char \<Rightarrow> string \<Rightarrow> string list" where
  "splitOn d [] = [[]]"
| "splitOn d (c # cs) = (if c = d then [] # splitOn d cs
     else (case splitOn d cs of [] \<Rightarrow> [[c]] | w # ws \<Rightarrow> (c # w) # ws))"

text \<open>\<open>strings.Join(ws, c)\<close> for a one-byte separator.\<close>

fun joinWith :: "char \<Rightarrow> string list \<Rightarrow> string" where
  "joinWith d [] = []"
| "joinWith d [w] = w"
| "joinWith d (w # v # ws) = w @ d # joinWith d (v # ws)"

text \<open>\<open>before, _, _ := strings.Cut(s, c)\<close> and \<open>s[strings.LastIndex(s, c)+1:]\<close>.\<close>

definition cutBefore :: "char \<Rightarrow> string \<Rightarrow> string" where
  "cutBefore d s = takeWhile (\<lambda>c. c \<noteq> d) s"

definition afterLast :: "char \<Rightarrow> string \<Rightarrow> string" where
  "afterLast d s = rev (takeWhile (\<lambda>c. c \<noteq> d) (rev s))"

text \<open>\<open>strings.Fields\<close>: the maximal runs of non-space runes.\<close>

fun fieldsOf :: "string \<Rightarrow> (nat \<times> string) list \<Rightarrow> string list" where
  "fieldsOf acc [] = (if acc = [] then [] else [acc])"
| "fieldsOf acc ((r, bs) # segs) =
     (if isSpace r then (if acc = [] then fieldsOf [] segs else acc # fieldsOf [] segs)
      else fieldsOf (acc @ bs) segs)"

definition Fields :: "string \<Rightarrow> string list" where
  "Fields s = fieldsOf [] (rune_segs s)"

text \<open>\<open>strings.TrimSpace\<close>\<close>

definition TrimSpace :: "string \<Rightarrow> string" where
  "TrimSpace s = concat (map snd (rev (dropWhile (isSpace \<circ> fst)
     (rev (dropWhile (isSpace \<circ> fst) (rune_segs s))))))"

text \<open>\<open>strings.TrimPrefix\<close> and \<open>strings.TrimSuffix\<close>.\<close>

definition TrimPrefix :: "string \<Rightarrow> string \<Rightarrow> string" where
  "TrimPrefix s p = (if prefix p s then drop (length p) s else s)"

definition TrimSuffix :: "string \<Rightarrow> string \<Rightarrow> string" where
  "TrimSuffix s p = (if suffix p s then take (length s - length p) s else s)"

lemma splitOn_nonempty [simp]: "splitOn d s \<noteq> []"
  by (cases s) (auto split: list.split)

lemma joinWith_splitOn [str_simps]: "joinWith d (splitOn d s) = s"
proof (induction s)
  case (Cons c cs)
  show ?case
  proof (cases "splitOn d cs")
    case (Cons w ws)
    with \<open>joinWith d (splitOn d cs) = cs\<close> show ?thesis by (cases ws) auto
  qed simp
qed simp

lemma splitOn_no_sep: "w \<in> set (splitOn d s) \<Longrightarrow> d \<notin> set w"
  by (induction s arbitrary: w) (auto split: if_splits list.splits)

lemma hd_splitOn [str_simps]: "hd (splitOn d s) = cutBefore d s"
  by (induction s) (auto simp: cutBefore_def split: list.split)

lemma last_splitOn [str_simps]: "last (splitOn d s) = afterLast d s"
proof (induction s)
  case (Cons c cs)
  have split_nil: "splitOn d cs = [w] \<Longrightarrow> d \<notin> set cs \<and> w = cs" for w
    using joinWith_splitOn [of d cs] splitOn_no_sep [of w d cs] by simp
  have mem: "d \<in> set cs \<Longrightarrow> takeWhile (\<lambda>c. c \<noteq> d) (rev cs @ [c]) = takeWhile (\<lambda>c. c \<noteq> d) (rev cs)"
    by (rule takeWhile_append1) auto
  have nomem: "d \<notin> set cs \<Longrightarrow> splitOn d cs = [cs]"
    by (induction cs) auto
  show ?case
  proof (cases "d \<in> set cs")
    case True
    then have "length (splitOn d cs) > 1"
      using split_nil by (cases "splitOn d cs") auto
    then obtain w v ws where "splitOn d cs = w # v # ws"
      by (cases "splitOn d cs" rule: remdups_adj.cases) auto
    with Cons mem [OF True] show ?thesis by (auto simp: afterLast_def)
  next
    case False
    then have "takeWhile (\<lambda>c. c \<noteq> d) (rev cs) = rev cs" by (auto intro: takeWhile_eq_all_conv [THEN iffD2])
    with nomem [OF False] False show ?thesis
      by (auto simp: afterLast_def takeWhile_append)
  qed
qed (simp add: afterLast_def)

lemma splitOn_length_ge2: "2 \<le> length (splitOn d s) \<longleftrightarrow> d \<in> set s"
  by (induction s) (auto split: list.split)

lemma cutBefore_prefix: "prefix (cutBefore d s) s"
  by (simp add: cutBefore_def takeWhile_is_prefix)

lemma cutBefore_append_sep: "d \<notin> set m \<Longrightarrow> cutBefore d (m @ d # r) = m"
  by (induction m) (auto simp: cutBefore_def)

lemma cutBefore_dest: "d \<in> set s \<Longrightarrow> \<exists>r. s = cutBefore d s @ d # r"
  by (induction s) (auto simp: cutBefore_def)

section \<open>Numbers as text\<close>

text \<open>\<open>%d\<close> of a non-negative integer, and reading the digits back.\<close>

fun itoa :: "nat \<Rightarrow> string" where
  "itoa n = (if n < 10 then [char_of (48 + n)] else itoa (n div 10) @ [char_of (48 + n mod 10)])"

declare itoa.simps [simp del]

definition atoi :: "string \<Rightarrow> nat" where
  "atoi s = foldl (\<lambda>a c. a * 10 + (byte c - 48)) 0 s"

lemma atoi_itoa: "atoi (itoa n) = n"
proof (induction n rule: itoa.induct)
  case (1 n)
  show ?case
  proof (cases "n < 10")
    case True
    then show ?thesis by (simp add: itoa.simps [of n] atoi_def)
  next
    case False
    have "byte (char_of (48 + n mod 10)) = 48 + n mod 10" by simp
    with False 1 show ?thesis by (simp add: itoa.simps [of n] atoi_def)
  qed
qed

lemma itoa_inject [simp]: "itoa m = itoa n \<longleftrightarrow> m = n"
  by (metis atoi_itoa)

section \<open>Loops that stop at the first error\<close>

fun mapE :: "('a \<Rightarrow> 'e + 'b) \<Rightarrow> 'a list \<Rightarrow> 'e + 'b list" where
  "mapE f [] = Inr []"
| "mapE f (x # xs) = and_then (f x) (\<lambda>y. and_then (mapE f xs) (\<lambda>ys. Inr (y # ys)))"

lemma mapE_Inr: "mapE f xs = Inr ys \<longleftrightarrow> list_all2 (\<lambda>x y. f x = Inr y) xs ys"
  by (induction xs arbitrary: ys) (auto simp: and_then_eq_Inr list_all2_Cons1)

lemma mapE_cong [fundef_cong]:
  "xs = ys \<Longrightarrow> (\<And>x. x \<in> set ys \<Longrightarrow> f x = g x) \<Longrightarrow> mapE f xs = mapE g ys"
  by (induction ys arbitrary: xs) auto

section \<open>Stable sorting by a comparison\<close>

text \<open>\<open>sort.SliceStable\<close> with a strict comparison, as insertion.\<close>

fun insertBy :: "('a \<Rightarrow> 'a \<Rightarrow> bool) \<Rightarrow> 'a \<Rightarrow> 'a list \<Rightarrow> 'a list" where
  "insertBy lt x [] = [x]"
| "insertBy lt x (y # ys) = (if lt y x then y # insertBy lt x ys else x # y # ys)"

definition sortStable :: "('a \<Rightarrow> 'a \<Rightarrow> bool) \<Rightarrow> 'a list \<Rightarrow> 'a list" where
  "sortStable lt xs = foldr (insertBy lt) xs []"

lemma sortStable_key:
  fixes f :: "'a \<Rightarrow> 'k :: linorder"
  assumes "\<And>a b. lt a b \<longleftrightarrow> f a < f b"
  shows "sortStable lt xs = sort_key f xs"
proof -
  have "insertBy lt x ys = insort_key f x ys" for x ys
    by (induction ys) (auto simp: assms)
  then show ?thesis by (induction xs) (simp_all add: sortStable_def)
qed

lemma sortStable_key_on:
  fixes f :: "'a \<Rightarrow> 'k :: linorder"
  assumes "\<And>x y. x \<in> set xs \<Longrightarrow> y \<in> set xs \<Longrightarrow> lt x y \<longleftrightarrow> f x < f y"
  shows "sortStable lt xs = sort_key f xs"
proof -
  have ins: "insertBy lt x ys = insort_key f x ys" if "\<forall>y \<in> set ys. lt y x \<longleftrightarrow> f y < f x" for x ys
    using that by (induction ys) (auto simp: not_less)
  from assms show ?thesis
    by (induction xs) (auto simp: sortStable_def intro!: ins)
qed

lemma insertBy_set [simp]: "set (insertBy lt x ys) = insert x (set ys)"
  by (induction ys) auto

lemma sortStable_set [simp]: "set (sortStable lt xs) = set xs"
  by (induction xs) (simp_all add: sortStable_def)

section \<open>The order of Go strings\<close>

text \<open>\<open>s < t\<close> on strings compares byte by byte.\<close>

fun strLess :: "string \<Rightarrow> string \<Rightarrow> bool" where
  "strLess s [] = False"
| "strLess [] (d # t) = True"
| "strLess (c # s) (d # t) = (byte c < byte d \<or> (c = d \<and> strLess s t))"

definition isDigit :: "char \<Rightarrow> bool" where
  "isDigit c \<longleftrightarrow> 48 \<le> byte c \<and> byte c \<le> 57"

lemma strLess_append:
  "length s = length t \<Longrightarrow> strLess (s @ u) (t @ v) \<longleftrightarrow> strLess s t \<or> (s = t \<and> strLess u v)"
  by (induction s t rule: list_induct2) auto

lemma foldl_digits:
  fixes f :: "char \<Rightarrow> nat"
  shows "foldl (\<lambda>a c. a * 10 + f c) n s = n * 10 ^ length s + foldl (\<lambda>a c. a * 10 + f c) 0 s"
proof (induction s arbitrary: n)
  case (Cons c s)
  have "foldl (\<lambda>a c. a * 10 + f c) (n * 10 + f c) s = (n * 10 + f c) * 10 ^ length s + foldl (\<lambda>a c. a * 10 + f c) 0 s"
    "foldl (\<lambda>a c. a * 10 + f c) (f c) s = f c * 10 ^ length s + foldl (\<lambda>a c. a * 10 + f c) 0 s"
    by (rule Cons.IH)+
  then show ?case by (simp add: distrib_right)
qed simp

lemma atoi_Cons: "atoi (c # s) = (byte c - 48) * 10 ^ length s + atoi s"
  using foldl_digits [of "\<lambda>c. byte c - 48" "byte c - 48" s] by (simp add: atoi_def)

lemma atoi_bound: "list_all isDigit s \<Longrightarrow> atoi s < 10 ^ length s"
proof (induction s)
  case (Cons c s)
  then have "byte c - 48 \<le> 9" and s: "atoi s < 10 ^ length s" by (auto simp: isDigit_def)
  then have "(byte c - 48) * 10 ^ length s \<le> 9 * 10 ^ length s" by (intro mult_right_mono) auto
  with s show ?case unfolding atoi_Cons length_Cons power_Suc by linarith
qed (simp add: atoi_def)

lemma strLess_atoi:
  "length s = length t \<Longrightarrow> list_all isDigit s \<Longrightarrow> list_all isDigit t \<Longrightarrow>
    (strLess s t \<longleftrightarrow> atoi s < atoi t) \<and> (s = t \<longleftrightarrow> atoi s = atoi t)"
proof (induction s t rule: list_induct2)
  case (Cons c s d t)
  let ?n = "10 ^ length t :: nat"
  have IH: "strLess s t \<longleftrightarrow> atoi s < atoi t" "s = t \<longleftrightarrow> atoi s = atoi t" and b: "atoi s < ?n" "atoi t < ?n"
    using Cons atoi_bound [of s] atoi_bound [of t] by auto
  have step: "x * ?n + atoi u < y * ?n + atoi v" if "x < y" "atoi u < ?n" for x y u v
  proof -
    from that(1) have "Suc x * ?n \<le> y * ?n" by (intro mult_right_mono) auto
    with that(2) show ?thesis by simp
  qed
  have digits: "byte c \<ge> 48" "byte d \<ge> 48" using Cons.prems by (auto simp: isDigit_def)
  consider "byte c < byte d" | "byte c = byte d" | "byte d < byte c" by linarith
  then show ?case
  proof cases
    case 1
    then have "byte c - 48 < byte d - 48" using digits by linarith
    with 1 step [of "byte c - 48" "byte d - 48" s t] b Cons.hyps show ?thesis by (auto simp: atoi_Cons)
  next
    case 2
    then have "c = d" by simp
    with IH Cons.hyps show ?thesis by (simp add: atoi_Cons)
  next
    case 3
    then have "byte d - 48 < byte c - 48" using digits by linarith
    with 3 step [of "byte d - 48" "byte c - 48" t s] b Cons.hyps show ?thesis by (auto simp: atoi_Cons)
  qed
qed (simp add: atoi_def)

text \<open>\<open>strconv.Atoi\<close>: an optional sign and decimal digits, within 64 bits.\<close>

definition goAtoi :: "string \<Rightarrow> int option" where
  "goAtoi s =
     (let neg = (s \<noteq> [] \<and> hd s = CHR ''-'');
          t = (if s \<noteq> [] \<and> (hd s = CHR ''-'' \<or> hd s = CHR ''+'') then tl s else s);
          n = (if neg then - int (atoi t) else int (atoi t))
      in if t \<noteq> [] \<and> list_all isDigit t \<and> - 9223372036854775808 \<le> n \<and> n < 9223372036854775808 then Some n else None)"

end
