(* ===== verification/Tenant_Ctx.thy ===== *)
theory Tenant_Ctx
  imports Kit_Prelude
begin

text \<open>
  The request context (\<open>src/tenantctx/tenantctx.go\<close>) and the gRPC vocabulary every component
  shares. The values of a \<open>context.Context\<close> are the fields of a record, \<^const>\<open>None\<close> for a key no
  \<open>context.WithValue\<close> set; the incoming and outgoing gRPC metadata are fields too. Packages
  that keep keys of their own in the context extend the record. Times are nanoseconds since a
  fixed instant and durations are nanoseconds, with the wrap of \<open>int64\<close> written out where the code
  multiplies an input into a duration.
\<close>

section \<open>gRPC status codes\<close>

datatype code = Unauthenticated | PermissionDenied | Internal | InvalidArgument
  | AlreadyExists | Aborted | Unavailable | ResourceExhausted

section \<open>Times and durations\<close>

type_synonym time = int
type_synonym duration = int

definition Second :: duration where
  "Second = 1000000000"

definition Millisecond :: duration where
  "Millisecond = 1000000"

definition Minute :: duration where
  "Minute = 60 * Second"

definition Hour :: duration where
  "Hour = 60 * Minute"

lemmas duration_defs = Second_def Millisecond_def Minute_def Hour_def

text \<open>Two's complement at 64 bits, the width of \<open>int\<close>, \<open>int64\<close> and \<open>time.Duration\<close>.\<close>

definition wrap64 :: "int \<Rightarrow> int" where
  "wrap64 x = (x + 9223372036854775808) mod 18446744073709551616 - 9223372036854775808"

lemma wrap64_id: "- 9223372036854775808 \<le> x \<Longrightarrow> x < 9223372036854775808 \<Longrightarrow> wrap64 x = x"
  by (simp add: wrap64_def)

lemma wrap64_range: "- 9223372036854775808 \<le> wrap64 x \<and> wrap64 x < 9223372036854775808"
  using pos_mod_bound [of 18446744073709551616 "x + 9223372036854775808"]
    pos_mod_sign [of 18446744073709551616 "x + 9223372036854775808"]
  by (simp add: wrap64_def)

section \<open>The context\<close>

type_synonym metadata = "string \<rightharpoonup> string list"

definition mdGet :: "metadata \<Rightarrow> string \<Rightarrow> string list" where
  "mdGet md k = (case md k of None \<Rightarrow> [] | Some vs \<Rightarrow> vs)"

record ctx =
  ctx_tenant :: "string option"
  ctx_subject :: "string option"
  ctx_entitlements :: "string list option"
  ctx_incoming :: "metadata option"
  ctx_outgoing :: "(string \<times> string) list"

definition background :: ctx where
  "background = \<lparr>ctx_tenant = None, ctx_subject = None, ctx_entitlements = None,
     ctx_incoming = None, ctx_outgoing = []\<rparr>"

definition WithTenant :: "'a ctx_scheme \<Rightarrow> string \<Rightarrow> 'a ctx_scheme" where
  "WithTenant c t = c\<lparr>ctx_tenant := Some t\<rparr>"

definition Tenant :: "'a ctx_scheme \<Rightarrow> string" where
  "Tenant c = (case ctx_tenant c of None \<Rightarrow> [] | Some v \<Rightarrow> v)"

definition WithSubject :: "'a ctx_scheme \<Rightarrow> string \<Rightarrow> 'a ctx_scheme" where
  "WithSubject c s = c\<lparr>ctx_subject := Some s\<rparr>"

definition Subject :: "'a ctx_scheme \<Rightarrow> string" where
  "Subject c = (case ctx_subject c of None \<Rightarrow> [] | Some v \<Rightarrow> v)"

definition WithEntitlements :: "'a ctx_scheme \<Rightarrow> string list \<Rightarrow> 'a ctx_scheme" where
  "WithEntitlements c es = c\<lparr>ctx_entitlements := Some es\<rparr>"

definition Entitlements :: "'a ctx_scheme \<Rightarrow> string list" where
  "Entitlements c = (case ctx_entitlements c of None \<Rightarrow> [] | Some v \<Rightarrow> v)"

lemmas tenantctx_defs = WithTenant_def Tenant_def WithSubject_def Subject_def
  WithEntitlements_def Entitlements_def

lemma Tenant_With [simp]:
  "Tenant (WithTenant c t) = t"
  "Tenant (WithSubject c s) = Tenant c"
  "Tenant (WithEntitlements c es) = Tenant c"
  by (simp_all add: tenantctx_defs)

lemma Subject_With [simp]:
  "Subject (WithTenant c t) = Subject c"
  "Subject (WithSubject c s) = s"
  "Subject (WithEntitlements c es) = Subject c"
  by (simp_all add: tenantctx_defs)

lemma Entitlements_With [simp]:
  "Entitlements (WithTenant c t) = Entitlements c"
  "Entitlements (WithSubject c s) = Entitlements c"
  "Entitlements (WithEntitlements c es) = es"
  by (simp_all add: tenantctx_defs)

end
