(* ===== verification/Pdp_Client.thy ===== *)
theory Pdp_Client
  imports Tenant_Ctx
begin

text \<open>
  The client of the decision point (\<open>src/pdp/client.go\<close>): one check, the fail-closed contract and
  the all-or-nothing batch. The two RPCs of the generated stub are parameters: functions from the
  message sent to an error (transport, deadline, unimplemented) or the answer. A message pointer
  of the answer may be nil, which the generated getters read as zero values.
\<close>

record pdp_request =
  rq_TenantID :: string
  rq_SubjectID :: string
  rq_Action :: string
  rq_ResourceType :: string
  rq_ResourceID :: string
  rq_Entitlements :: "string list"
  rq_SubjectType :: string
  rq_PrincipalAttributes :: "(string \<times> string) list"
  rq_Via :: string
  rq_ConsistencyToken :: string

record decision =
  de_Allowed :: bool
  de_Reason :: string
  de_DecidedAt :: string

definition noDecision :: decision where
  "noDecision = \<lparr>de_Allowed = False, de_Reason = [], de_DecidedAt = []\<rparr>"

definition MaxBatch :: nat where
  "MaxBatch = 100"

text \<open>The messages of \<open>authorization.v1\<close>, as far as the kit fills and reads them.\<close>

record check_request =
  pb_TenantId :: string
  pb_SubjectId :: string
  pb_Action :: string
  pb_ResourceType :: string
  pb_ResourceId :: string
  pb_Entitlements :: "string list"
  pb_ConsistencyToken :: string
  pb_SubjectType :: string
  pb_PrincipalAttributes :: "(string \<times> string) list"
  pb_Via :: string

record check_response =
  pb_Allowed :: bool
  pb_Reason :: string
  pb_DecidedAt :: string

definition toProto :: "pdp_request \<Rightarrow> check_request" where
  "toProto r = \<lparr>pb_TenantId = rq_TenantID r, pb_SubjectId = rq_SubjectID r,
     pb_Action = rq_Action r, pb_ResourceType = rq_ResourceType r, pb_ResourceId = rq_ResourceID r,
     pb_Entitlements = rq_Entitlements r, pb_ConsistencyToken = rq_ConsistencyToken r,
     pb_SubjectType = rq_SubjectType r, pb_PrincipalAttributes = rq_PrincipalAttributes r,
     pb_Via = rq_Via r\<rparr>"

definition fromProto :: "check_response option \<Rightarrow> decision" where
  "fromProto resp = (case resp of None \<Rightarrow> noDecision
     | Some p \<Rightarrow> \<lparr>de_Allowed = pb_Allowed p, de_Reason = pb_Reason p, de_DecidedAt = pb_DecidedAt p\<rparr>)"

type_synonym check_rpc = "check_request \<Rightarrow> string + check_response option"
type_synonym batch_rpc = "check_request list \<Rightarrow> string + check_response option list"

definition Check :: "check_rpc \<Rightarrow> pdp_request \<Rightarrow> decision \<times> string option" where
  "Check rpc req = (case rpc (toProto req) of
      Inl err \<Rightarrow> (noDecision, Some err)
    | Inr resp \<Rightarrow> (fromProto resp, None))"

definition Allowed :: "check_rpc \<Rightarrow> pdp_request \<Rightarrow> bool \<times> string \<times> string option" where
  "Allowed rpc req = (case Check rpc req of (d, err) \<Rightarrow> (de_Allowed d, de_Reason d, err))"

datatype batch_error = BatchTooLarge nat | BatchMixed nat | BatchRPC string | BatchLength nat nat

text \<open>The loop that converts the items and stops at the first one of another tenant or subject.\<close>

fun batchItems :: "pdp_request \<Rightarrow> nat \<Rightarrow> pdp_request list \<Rightarrow> batch_error + check_request list" where
  "batchItems r0 i [] = Inr []"
| "batchItems r0 i (r # rs) =
     (if rq_TenantID r \<noteq> rq_TenantID r0 \<or> rq_SubjectID r \<noteq> rq_SubjectID r0
         \<or> rq_SubjectType r \<noteq> rq_SubjectType r0 then Inl (BatchMixed i)
      else and_then (batchItems r0 (Suc i) rs) (\<lambda>items. Inr (toProto r # items)))"

definition BatchAllowed :: "batch_rpc \<Rightarrow> pdp_request list \<Rightarrow> batch_error + decision list" where
  "BatchAllowed rpc reqs = (case reqs of
      [] \<Rightarrow> Inr []
    | r0 # _ \<Rightarrow>
        if length reqs > MaxBatch then Inl (BatchTooLarge (length reqs))
        else and_then (batchItems r0 0 reqs) (\<lambda>items.
          case rpc items of
            Inl err \<Rightarrow> Inl (BatchRPC err)
          | Inr results \<Rightarrow>
              if length results \<noteq> length reqs then Inl (BatchLength (length results) (length reqs))
              else Inr (map fromProto results)))"

section \<open>Fail-closed\<close>

lemma Allowed_true:
  "fst (Allowed rpc req) \<longleftrightarrow> (\<exists>p. rpc (toProto req) = Inr (Some p) \<and> pb_Allowed p)"
  by (auto simp: Allowed_def Check_def fromProto_def noDecision_def split: sum.splits option.splits)

lemma batchItems_Inr:
  "batchItems r0 i rs = Inr items \<longleftrightarrow>
     items = map toProto rs \<and>
     (\<forall>r \<in> set rs. rq_TenantID r = rq_TenantID r0 \<and> rq_SubjectID r = rq_SubjectID r0
        \<and> rq_SubjectType r = rq_SubjectType r0)"
  by (induction rs arbitrary: i items) (auto simp: and_then_eq_Inr)

text \<open>
  A batch is all or nothing. Decisions come back only when the PDP was sent every item, in
  order, all of one tenant and subject and at most \<open>MaxBatch\<close> of them, and answered without error
  as many results as items; then decision \<open>i\<close> is its answer to item \<open>i\<close>. No other outcome
  carries a decision.
\<close>

theorem BatchAllowed_all_or_nothing:
  assumes "BatchAllowed rpc reqs = Inr ds" and "reqs \<noteq> []"
  shows "\<exists>results. rpc (map toProto reqs) = Inr results
      \<and> length results = length reqs \<and> ds = map fromProto results \<and> length reqs \<le> MaxBatch
      \<and> rq_TenantID ` set reqs = {rq_TenantID (hd reqs)}
      \<and> rq_SubjectID ` set reqs = {rq_SubjectID (hd reqs)}
      \<and> rq_SubjectType ` set reqs = {rq_SubjectType (hd reqs)}"
proof (cases reqs)
  case (Cons r0 rs)
  with assms(1) have size: "length reqs \<le> MaxBatch"
    by (auto simp: BatchAllowed_def split: if_splits)
  with assms(1) Cons obtain items where items: "batchItems r0 0 reqs = Inr items"
    and rpc: "(case rpc items of Inl err \<Rightarrow> Inl (BatchRPC err)
        | Inr results \<Rightarrow> if length results \<noteq> length reqs
            then Inl (BatchLength (length results) (length reqs)) else Inr (map fromProto results))
        = Inr ds"
    by (auto simp: BatchAllowed_def and_then_eq_Inr simp del: batchItems.simps)
  from items [unfolded batchItems_Inr] rpc size Cons show ?thesis
    by (auto split: sum.splits if_splits)
qed (use assms in simp)

definition sample_req :: pdp_request where
  "sample_req = \<lparr>rq_TenantID = ''acme'', rq_SubjectID = ''u-1'', rq_Action = ''billing.list'',
     rq_ResourceType = [], rq_ResourceID = [], rq_Entitlements = [''billing''], rq_SubjectType = [],
     rq_PrincipalAttributes = [], rq_Via = [], rq_ConsistencyToken = []\<rparr>"

theorem BatchAllowed_all_or_nothing_witness:
  "\<exists>results. (\<lambda>_. Inr [None, None]) (map toProto [sample_req, sample_req]) = (Inr results :: string + _)
     \<and> length results = 2"
proof -
  have "BatchAllowed (\<lambda>_. Inr [None, None]) [sample_req, sample_req] = Inr [noDecision, noDecision]"
    by (simp add: BatchAllowed_def MaxBatch_def fromProto_def)
  from BatchAllowed_all_or_nothing [OF this] show ?thesis by auto
qed

end
