(* ===== verification/Capabilities.thy ===== *)
theory Capabilities
  imports Kit_Prelude
begin

text \<open>
  The operation catalog (\<open>src/capabilities/effect.go\<close>, \<open>src/capabilities/catalog.go\<close>):
  classification of actions, validation of a decoded catalog, and the maps derived from it. The
  YAML decoder is a parameter of \<open>Parse\<close>. \<open>Effect\<close> and \<open>Risk\<close> are Go strings, so they are
  strings here and \<open>Valid\<close> is a check, as in the source. A problem message is a constructor that
  carries the values the code formats.
\<close>

section \<open>Effects and risks\<close>

definition EffectRead :: string where "EffectRead = ''read''"
definition EffectWrite :: string where "EffectWrite = ''write''"
definition EffectExternalSideEffect :: string where
  "EffectExternalSideEffect = ''external_side_effect''"
definition EffectDelete :: string where "EffectDelete = ''delete''"

lemmas effect_defs = EffectRead_def EffectWrite_def EffectExternalSideEffect_def EffectDelete_def

definition effectValid :: "string \<Rightarrow> bool" where
  "effectValid e \<longleftrightarrow> e \<in> {EffectRead, EffectWrite, EffectExternalSideEffect, EffectDelete}"

definition IsRead :: "(string \<rightharpoonup> string) option \<Rightarrow> string \<Rightarrow> bool" where
  "IsRead effects action = (case effects of
      Some m \<Rightarrow> (case m action of None \<Rightarrow> False | Some e \<Rightarrow> e = EffectRead)
    | None \<Rightarrow> afterLast CHR ''.'' action \<in> {''read'', ''list'', ''get''})"

definition RiskLow :: string where "RiskLow = ''low''"
definition RiskMedium :: string where "RiskMedium = ''medium''"
definition RiskHigh :: string where "RiskHigh = ''high''"
definition RiskCritical :: string where "RiskCritical = ''critical''"

lemmas risk_defs = RiskLow_def RiskMedium_def RiskHigh_def RiskCritical_def

definition riskValid :: "string \<Rightarrow> bool" where
  "riskValid r \<longleftrightarrow> r \<in> {RiskLow, RiskMedium, RiskHigh, RiskCritical}"

definition effectRank :: "string \<Rightarrow> nat" where
  "effectRank e = (if e = EffectRead then 0 else if e = EffectWrite then 1
     else if e = EffectExternalSideEffect then 2 else if e = EffectDelete then 3 else 4)"

definition riskRank :: "string \<Rightarrow> nat" where
  "riskRank r = (if r = RiskLow then 0 else if r = RiskMedium then 1
     else if r = RiskHigh then 2 else 3)"

section \<open>Entries\<close>

record entry =
  en_ID :: string
  en_RPC :: string
  en_Action :: string
  en_Effect :: string
  en_Risk :: string
  en_Paginated :: bool
  en_Request :: string
  en_Response :: string

definition FullMethod :: "entry \<Rightarrow> string" where
  "FullMethod e = CHR ''/'' # en_RPC e"

text \<open>
  The two regular expressions of the source, as the recognisers of the languages they denote:
  an identifier is a letter or underscore and then letters, digits and underscores; a message
  name is two or more identifiers joined by dots; an rpc name is a message name, a slash and an
  identifier.
\<close>

definition isLetter :: "char \<Rightarrow> bool" where
  "isLetter c \<longleftrightarrow> (65 \<le> byte c \<and> byte c \<le> 90) \<or> (97 \<le> byte c \<and> byte c \<le> 122) \<or> c = CHR ''_''"

definition isDigit :: "char \<Rightarrow> bool" where
  "isDigit c \<longleftrightarrow> 48 \<le> byte c \<and> byte c \<le> 57"

definition isIdent :: "string \<Rightarrow> bool" where
  "isIdent s = (case s of [] \<Rightarrow> False
     | c # cs \<Rightarrow> isLetter c \<and> list_all (\<lambda>d. isLetter d \<or> isDigit d) cs)"

definition messageRe :: "string \<Rightarrow> bool" where
  "messageRe s \<longleftrightarrow> 2 \<le> length (splitOn CHR ''.'' s) \<and> list_all isIdent (splitOn CHR ''.'' s)"

definition rpcRe :: "string \<Rightarrow> bool" where
  "rpcRe s = (case splitOn CHR ''/'' s of [svc, meth] \<Rightarrow> messageRe svc \<and> isIdent meth | _ \<Rightarrow> False)"

section \<open>Validation\<close>

datatype action_error = NoVerb string | BadSegment string

definition checkActionName :: "string \<Rightarrow> action_error + unit" where
  "checkActionName action = (let segments = splitOn CHR ''.'' action in
     if length segments < 2 then Inl (NoVerb action)
     else if list_ex (\<lambda>s. s = [] \<or> hasSpace s) segments then Inl (BadSegment action)
     else Inr ())"

datatype problem =
    IDMissing
  | BadAction action_error
  | IDNotAction string string
  | BadRPC string
  | BadEffect string
  | BadRisk string
  | BadRequest string
  | BadResponse string
  | Duplicate string string nat
  | WrongModule string "string list"
  | NotDeclared string
  | RequestDiffers string string string
  | ResponseDiffers string string string
  | NotCatalogued string

text \<open>\<open>add(i, e, ...)\<close>: the entry number, its name and the problem.\<close>

type_synonym located = "nat \<times> string \<times> problem"

definition addProblem :: "nat \<Rightarrow> entry \<Rightarrow> problem \<Rightarrow> located" where
  "addProblem i e p = (i + 1, if en_ID e = [] then en_RPC e else en_ID e, p)"

definition onlyIf :: "bool \<Rightarrow> 'a \<Rightarrow> 'a list" where
  "onlyIf b x = (if b then [x] else [])"

lemma onlyIf_simps [simp]: "onlyIf True x = [x]" "onlyIf False x = []" "onlyIf b x = [] \<longleftrightarrow> \<not> b"
  by (simp_all add: onlyIf_def)

text \<open>The checks of one entry that look at nothing else, in the order of the source.\<close>

definition entryProblems :: "nat \<Rightarrow> entry \<Rightarrow> located list" where
  "entryProblems i e = map (addProblem i e)
    (onlyIf (en_ID e = []) IDMissing
     @ (if en_Action e \<noteq> [] then
          (case checkActionName (en_Action e) of Inl err \<Rightarrow> [BadAction err] | Inr _ \<Rightarrow> [])
          @ onlyIf (en_ID e \<noteq> [] \<and> en_ID e \<noteq> en_Action e \<and> \<not> prefix (en_Action e @ ''.'') (en_ID e))
              (IDNotAction (en_ID e) (en_Action e))
        else [])
     @ onlyIf (\<not> rpcRe (en_RPC e)) (BadRPC (en_RPC e))
     @ onlyIf (\<not> effectValid (en_Effect e)) (BadEffect (en_Effect e))
     @ onlyIf (\<not> riskValid (en_Risk e)) (BadRisk (en_Risk e))
     @ onlyIf (\<not> messageRe (en_Request e)) (BadRequest (en_Request e))
     @ onlyIf (\<not> messageRe (en_Response e)) (BadResponse (en_Response e)))"

text \<open>One duplicate check: the key is recorded by the first entry that carries it.\<close>

definition seenStep ::
  "nat \<Rightarrow> entry \<Rightarrow> (string \<rightharpoonup> nat) \<Rightarrow> string \<Rightarrow> string \<Rightarrow> located list \<times> (string \<rightharpoonup> nat)" where
  "seenStep i e seen key field =
     (if key = [] then ([], seen)
      else case seen key of
        Some first \<Rightarrow> ([addProblem i e (Duplicate field key (first + 1))], seen)
      | None \<Rightarrow> ([], seen(key \<mapsto> i)))"

fun validateFrom ::
  "nat \<Rightarrow> (string \<rightharpoonup> nat) \<Rightarrow> (string \<rightharpoonup> nat) \<Rightarrow> entry list \<Rightarrow> located list" where
  "validateFrom i seenID seenRPC [] = []"
| "validateFrom i seenID seenRPC (e # es) =
     (let (p1, seenID') = seenStep i e seenID (en_ID e) ''id'';
          (p2, seenRPC') = seenStep i e seenRPC (en_RPC e) ''rpc''
      in entryProblems i e @ p1 @ p2 @ validateFrom (Suc i) seenID' seenRPC' es)"

definition validate :: "entry list \<Rightarrow> located list" where
  "validate entries = validateFrom 0 Map.empty Map.empty entries"

datatype parse_error = DecodeError string | Problems "located list"

text \<open>\<open>decode\<close> is the YAML decoder with known fields only; \<open>None\<close> is the empty file (\<open>io.EOF\<close>).\<close>

definition Parse ::
  "('d \<Rightarrow> string + entry list option) \<Rightarrow> 'd \<Rightarrow> parse_error + entry list" where
  "Parse decode data = (case decode data of
      Inl err \<Rightarrow> Inl (DecodeError err)
    | Inr oes \<Rightarrow> (let entries = (case oes of None \<Rightarrow> [] | Some es \<Rightarrow> es);
                      problems = validate entries in
        if problems \<noteq> [] then Inl (Problems problems) else Inr entries))"

definition CheckModules :: "string list \<Rightarrow> entry list \<Rightarrow> located list" where
  "CheckModules modules entries = concat (map (\<lambda>(i, e).
     if en_Action e = [] then []
     else let m = cutBefore CHR ''.'' (en_Action e) in
       onlyIf (m \<notin> set modules) (i + 1, en_ID e, WrongModule m modules)) (enumerate 0 entries))"

section \<open>The maps a catalog gives\<close>

text \<open>One turn of a loop that keeps, per action, the value of the highest rank.\<close>

definition keepHigher ::
  "(string \<Rightarrow> nat) \<Rightarrow> (string \<rightharpoonup> string) \<Rightarrow> string \<Rightarrow> string \<Rightarrow> (string \<rightharpoonup> string)" where
  "keepHigher rank out action v = (case out action of
      None \<Rightarrow> out(action \<mapsto> v)
    | Some cur \<Rightarrow> if rank v > rank cur then out(action \<mapsto> v) else out)"

fun effectsFrom :: "(string \<rightharpoonup> string) \<Rightarrow> entry list \<Rightarrow> (string \<rightharpoonup> string)" where
  "effectsFrom out [] = out"
| "effectsFrom out (e # es) =
     (if en_Action e = [] then effectsFrom out es
      else effectsFrom (keepHigher effectRank out (en_Action e) (en_Effect e)) es)"

definition Effects :: "entry list \<Rightarrow> (string \<rightharpoonup> string)" where
  "Effects entries = effectsFrom Map.empty entries"

definition Ungated :: "entry list \<Rightarrow> entry list" where
  "Ungated entries = filter (\<lambda>e. en_Action e = []) entries"

definition MethodEffects :: "entry list \<Rightarrow> (string \<rightharpoonup> string)" where
  "MethodEffects entries = foldl (\<lambda>out e. out(FullMethod e \<mapsto> en_Effect e)) Map.empty entries"

fun risksFrom :: "(string \<rightharpoonup> string) \<Rightarrow> entry list \<Rightarrow> (string \<rightharpoonup> string)" where
  "risksFrom out [] = out"
| "risksFrom out (e # es) =
     (if en_Action e = [] then risksFrom out es
      else risksFrom (keepHigher riskRank out (en_Action e) (en_Risk e)) es)"

definition Risks :: "entry list \<Rightarrow> (string \<rightharpoonup> string)" where
  "Risks entries = risksFrom Map.empty entries"

fun lookupFrom :: "string \<Rightarrow> entry option \<Rightarrow> entry list \<Rightarrow> entry option" where
  "lookupFrom action best [] = best"
| "lookupFrom action best (e # es) =
     (if en_Action e = action \<and> action \<noteq> [] \<and>
         (case best of None \<Rightarrow> True | Some b \<Rightarrow> effectRank (en_Effect e) > effectRank (en_Effect b))
      then lookupFrom action (Some e) es else lookupFrom action best es)"

definition Lookup :: "entry list \<Rightarrow> string \<Rightarrow> entry option" where
  "Lookup entries action = lookupFrom action None entries"

section \<open>The catalog against the protos\<close>

record rpc =
  rp_Name :: string
  rp_Request :: string
  rp_Response :: string

text \<open>\<open>declared[r.Name] = r\<close> for every rpc: a later one overwrites.\<close>

definition declaredRPCs :: "rpc list \<Rightarrow> (string \<rightharpoonup> rpc)" where
  "declaredRPCs rpcs = map_of (rev (map (\<lambda>r. (rp_Name r, r)) rpcs))"

definition CheckRPCs :: "rpc list \<Rightarrow> entry list \<Rightarrow> (nat \<times> string \<times> problem) list" where
  "CheckRPCs rpcs entries =
     concat (map (\<lambda>(i, e). case declaredRPCs rpcs (en_RPC e) of
         None \<Rightarrow> [(i + 1, en_ID e, NotDeclared (en_RPC e))]
       | Some r \<Rightarrow>
           onlyIf (en_Request e \<noteq> rp_Request r)
             (i + 1, en_ID e, RequestDiffers (en_Request e) (en_RPC e) (rp_Request r))
           @ onlyIf (en_Response e \<noteq> rp_Response r)
             (i + 1, en_ID e, ResponseDiffers (en_Response e) (en_RPC e) (rp_Response r)))
       (enumerate 0 entries))
     @ concat (map (\<lambda>r. onlyIf (\<not> list_ex (\<lambda>e. en_RPC e = rp_Name r) entries)
         (0, rp_Name r, NotCatalogued (rp_Name r))) rpcs)"

section \<open>What validation accepts\<close>

text \<open>The contract of a catalog, entry by entry and across entries.\<close>

definition entryOK :: "entry \<Rightarrow> bool" where
  "entryOK e \<longleftrightarrow> en_ID e \<noteq> [] \<and> rpcRe (en_RPC e) \<and> effectValid (en_Effect e) \<and> riskValid (en_Risk e)
     \<and> messageRe (en_Request e) \<and> messageRe (en_Response e)
     \<and> (en_Action e \<noteq> [] \<longrightarrow> ok (checkActionName (en_Action e))
          \<and> (en_ID e = en_Action e \<or> prefix (en_Action e @ ''.'') (en_ID e)))"

definition catalogOK :: "entry list \<Rightarrow> bool" where
  "catalogOK es \<longleftrightarrow> list_all entryOK es \<and> distinct (map en_ID es) \<and> distinct (map en_RPC es)"

lemma entryProblems_Nil: "entryProblems i e = [] \<longleftrightarrow> entryOK e"
  by (auto simp: entryProblems_def entryOK_def onlyIf_def split: sum.split)

lemma rpcRe_nonempty: "rpcRe s \<Longrightarrow> s \<noteq> []"
  by (auto simp: rpcRe_def)

lemma validateFrom_Nil:
  "validateFrom i seenID seenRPC es = [] \<longleftrightarrow>
     list_all entryOK es \<and> distinct (map en_ID es) \<and> distinct (map en_RPC es)
     \<and> dom seenID \<inter> en_ID ` set es = {} \<and> dom seenRPC \<inter> en_RPC ` set es = {}"
proof (induction es arbitrary: i seenID seenRPC)
  case (Cons e es)
  show ?case
  proof (cases "entryOK e")
    case True
    then have ne: "en_ID e \<noteq> []" "en_RPC e \<noteq> []" by (auto simp: entryOK_def dest: rpcRe_nonempty)
    show ?thesis
    proof (cases "seenID (en_ID e) = None \<and> seenRPC (en_RPC e) = None")
      case free: True
      with True ne have "validateFrom i seenID seenRPC (e # es) = []
          \<longleftrightarrow> validateFrom (Suc i) (seenID(en_ID e \<mapsto> i)) (seenRPC(en_RPC e \<mapsto> i)) es = []"
        by (simp add: seenStep_def entryProblems_Nil)
      also have "\<dots> \<longleftrightarrow> list_all entryOK es \<and> distinct (map en_ID es) \<and> distinct (map en_RPC es)
          \<and> insert (en_ID e) (dom seenID) \<inter> en_ID ` set es = {}
          \<and> insert (en_RPC e) (dom seenRPC) \<inter> en_RPC ` set es = {}"
        by (simp add: Cons.IH del: fun_upd_apply)
      finally show ?thesis using True free by auto
    next
      case False
      with True ne show ?thesis by (auto simp: seenStep_def split: option.splits)
    qed
  next
    case False
    then show ?thesis by (auto simp: entryProblems_Nil split: prod.split)
  qed
qed simp

lemma validate_Nil: "validate es = [] \<longleftrightarrow> catalogOK es"
  by (simp add: validate_def validateFrom_Nil catalogOK_def)

section \<open>The maps are the most restrictive reading\<close>

text \<open>
  \<open>effectsFrom\<close>, \<open>risksFrom\<close> and \<open>lookupFrom\<close> keep a maximum. The value an action ends with has
  the highest rank of its entries, and it is the value of one of them.
\<close>

lemma effectsFrom_rank:
  assumes "a \<noteq> []"
  shows "(\<forall>cur. out a = Some cur \<longrightarrow> (\<exists>e'. effectsFrom out es a = Some e' \<and> effectRank cur \<le> effectRank e'))
    \<and> (\<forall>e \<in> set es. en_Action e = a \<longrightarrow>
         (\<exists>e'. effectsFrom out es a = Some e' \<and> effectRank (en_Effect e) \<le> effectRank e'))"
proof (induction es arbitrary: out)
  case (Cons x es)
  let ?out = "keepHigher effectRank out (en_Action x) (en_Effect x)"
  show ?case
  proof (cases "en_Action x = []")
    case True
    with Cons assms show ?thesis by auto
  next
    case False
    have step: "out a = Some cur \<Longrightarrow> \<exists>e'. ?out a = Some e' \<and> effectRank cur \<le> effectRank e'" for cur
      by (auto simp: keepHigher_def split: option.split)
    have new: "en_Action x = a \<Longrightarrow> \<exists>e'. ?out a = Some e' \<and> effectRank (en_Effect x) \<le> effectRank e'"
      by (auto simp: keepHigher_def split: option.split)
    have "effectsFrom out (x # es) = effectsFrom ?out es" using False by simp
    then show ?thesis
      using Cons.IH [of ?out] step new by (smt (verit) order_trans set_ConsD)
  qed
qed simp

lemma effectsFrom_from:
  "effectsFrom out es a = Some e' \<Longrightarrow>
     out a = Some e' \<or> (\<exists>e \<in> set es. en_Action e = a \<and> a \<noteq> [] \<and> en_Effect e = e')"
  by (induction out es rule: effectsFrom.induct) (auto simp: keepHigher_def split: if_splits option.splits)

lemma Effects_Some:
  "Effects es a = Some e' \<Longrightarrow> \<exists>e \<in> set es. en_Action e = a \<and> a \<noteq> [] \<and> en_Effect e = e'"
  using effectsFrom_from [of Map.empty es a e'] by (simp add: Effects_def)

lemma Effects_max:
  assumes "e \<in> set es" and "en_Action e \<noteq> []"
  shows "\<exists>e'. Effects es (en_Action e) = Some e' \<and> effectRank (en_Effect e) \<le> effectRank e'"
  using effectsFrom_rank [OF assms(2), of Map.empty es] assms(1) by (simp add: Effects_def)

lemma effectRank_read: "effectRank e = 0 \<longleftrightarrow> e = EffectRead"
  by (simp add: effectRank_def)

lemma MethodEffects_other:
  "k \<notin> FullMethod ` set es \<Longrightarrow> foldl (\<lambda>out e. out(FullMethod e \<mapsto> en_Effect e)) m es k = m k"
  by (induction es arbitrary: m) auto

lemma MethodEffects_fold:
  assumes "distinct (map en_RPC es)" and "e \<in> set es"
  shows "foldl (\<lambda>out e. out(FullMethod e \<mapsto> en_Effect e)) m es (FullMethod e) = Some (en_Effect e)"
  using assms
proof (induction es arbitrary: m)
  case (Cons x es)
  show ?case
  proof (cases "e = x")
    case True
    with Cons.prems(1) have "FullMethod x \<notin> FullMethod ` set es" by (auto simp: FullMethod_def)
    from MethodEffects_other [OF this, of "m(FullMethod x \<mapsto> en_Effect x)"]
    show ?thesis unfolding True by (simp only: foldl_Cons fun_upd_same)
  next
    case False
    with Cons show ?thesis by simp
  qed
qed simp

lemma MethodEffects_entry:
  "catalogOK es \<Longrightarrow> e \<in> set es \<Longrightarrow> MethodEffects es (FullMethod e) = Some (en_Effect e)"
  by (simp add: MethodEffects_def MethodEffects_fold catalogOK_def)

text \<open>
  \<open>Parse\<close> accepts a decoded catalog exactly when it meets the contract: every entry is well
  formed (id, rpc, message names, effect and risk of the enumerations, an id that is its action or
  the action plus a suffix, an action with a verb and no empty or space-carrying segment), and no
  id and no rpc appears twice. Otherwise it reports at least one problem and no catalog.
\<close>

theorem Parse_accepts_contract:
  "Parse decode data = Inr es \<longleftrightarrow>
     (decode data = Inr (Some es) \<or> decode data = Inr None \<and> es = []) \<and> catalogOK es"
  by (auto simp: Parse_def validate_Nil Let_def catalogOK_def split: sum.splits option.splits)

lemma IsRead_catalog:
  assumes "IsRead (Some (Effects es)) a"
  shows "a \<noteq> []" and "a \<in> en_Action ` set es"
    and "e \<in> set es \<Longrightarrow> en_Action e = a \<Longrightarrow> en_Effect e = EffectRead"
proof -
  from assms have eff: "Effects es a = Some EffectRead" by (auto simp: IsRead_def split: option.splits)
  from Effects_Some [OF eff] show ne: "a \<noteq> []" and "a \<in> en_Action ` set es" by auto
  show "en_Effect e = EffectRead" if "e \<in> set es" "en_Action e = a"
    using Effects_max [of e es] that ne eff
    by (metis effectRank_read le_zero_eq option.inject)
qed

text \<open>
  An action of a catalog is a read for the gate exactly when some entry carries it and every
  entry that carries it is a read: an action that is a read for one rpc and anything else for
  another is not a read, and an uncatalogued or ungated one never is.
\<close>

theorem IsRead_most_restrictive:
  "IsRead (Some (Effects es)) a \<longleftrightarrow>
     a \<noteq> [] \<and> (\<exists>e. e \<in> set es \<and> en_Action e = a)
     \<and> {en_Effect e | e. e \<in> set es \<and> en_Action e = a} \<subseteq> {EffectRead}"
proof
  assume "IsRead (Some (Effects es)) a"
  from IsRead_catalog [OF this] show "a \<noteq> [] \<and> (\<exists>e. e \<in> set es \<and> en_Action e = a)
     \<and> {en_Effect e | e. e \<in> set es \<and> en_Action e = a} \<subseteq> {EffectRead}" by auto
next
  assume rhs: "a \<noteq> [] \<and> (\<exists>e. e \<in> set es \<and> en_Action e = a)
     \<and> {en_Effect e | e. e \<in> set es \<and> en_Action e = a} \<subseteq> {EffectRead}"
  then obtain e where "e \<in> set es" "en_Action e = a" "en_Action e \<noteq> []" by auto
  from Effects_max [OF this(1,3)] this(2) obtain e' where e': "Effects es a = Some e'" by auto
  with Effects_Some [OF e'] rhs show "IsRead (Some (Effects es)) a" by (auto simp: IsRead_def)
qed

lemma keepHigher_same:
  "keepHigher rank out a v a = (case out a of None \<Rightarrow> Some v
     | Some cur \<Rightarrow> if rank v > rank cur then Some v else Some cur)"
  by (auto simp: keepHigher_def split: option.split)

lemma keepHigher_other: "b \<noteq> a \<Longrightarrow> keepHigher rank out a v b = out b"
  by (auto simp: keepHigher_def split: option.split)

lemma lookupFrom_effectsFrom:
  assumes "a \<noteq> []" and "map_option en_Effect best = out a"
  shows "map_option en_Effect (lookupFrom a best es) = effectsFrom out es a"
  using assms(2)
proof (induction es arbitrary: best out)
  case (Cons e es)
  let ?out = "keepHigher effectRank out (en_Action e) (en_Effect e)"
  consider (same) "en_Action e = a" | (ungated) "en_Action e = []" "en_Action e \<noteq> a"
    | (other) "en_Action e \<noteq> []" "en_Action e \<noteq> a"
    by blast
  then show ?case
  proof cases
    case same
    let ?best = "if (case best of None \<Rightarrow> True | Some b \<Rightarrow> effectRank (en_Effect e) > effectRank (en_Effect b))
      then Some e else best"
    have "map_option en_Effect ?best = ?out a"
      using same by (cases best) (auto simp: keepHigher_same Cons.prems [symmetric])
    moreover have "lookupFrom a best (e # es) = lookupFrom a ?best es"
      using same assms(1) by simp
    ultimately show ?thesis using Cons.IH [of ?best ?out] same assms(1) by simp
  next
    case ungated
    with Cons assms(1) show ?thesis by simp
  next
    case other
    then have "map_option en_Effect best = ?out a" using Cons.prems by (simp add: keepHigher_other)
    with Cons.IH [of best ?out] other show ?thesis by simp
  qed
qed simp

lemma lookupFrom_empty: "lookupFrom [] best es = best"
  by (induction es) auto

lemma Effects_empty: "Effects es [] = None"
  using Effects_Some [of es "[]"] by (cases "Effects es []") auto

text \<open>
  \<open>Lookup\<close> and \<open>Effects\<close> never disagree: the entry \<open>Lookup\<close> returns for an action has the
  effect \<open>Effects\<close> gives it, and one answers nothing exactly when the other does.
\<close>

theorem Lookup_agrees_with_Effects: "map_option en_Effect (Lookup es a) = Effects es a"
proof (cases "a = []")
  case True
  then show ?thesis by (simp add: Lookup_def lookupFrom_empty Effects_empty)
next
  case False
  from lookupFrom_effectsFrom [OF this, of None Map.empty es] show ?thesis
    by (simp add: Lookup_def Effects_def)
qed

lemma declaredRPCs_distinct:
  assumes "distinct (map rp_Name rs)"
  shows "declaredRPCs rs n = Some r \<longleftrightarrow> r \<in> set rs \<and> rp_Name r = n"
proof -
  have "distinct (map fst (rev (map (\<lambda>r. (rp_Name r, r)) rs)))"
    using assms by (simp add: comp_def rev_map [symmetric])
  then show ?thesis by (auto simp: declaredRPCs_def)
qed

lemma enumerate_all: "(\<forall>p \<in> set (enumerate n xs). P (snd p)) \<longleftrightarrow> (\<forall>x \<in> set xs. P x)"
  by (induction xs arbitrary: n) auto

lemma entryRPC_Nil:
  "(case declaredRPCs rpcs (en_RPC e) of
         None \<Rightarrow> [(i + 1, en_ID e, NotDeclared (en_RPC e))]
       | Some r \<Rightarrow>
           onlyIf (en_Request e \<noteq> rp_Request r)
             (i + 1, en_ID e, RequestDiffers (en_Request e) (en_RPC e) (rp_Request r))
           @ onlyIf (en_Response e \<noteq> rp_Response r)
             (i + 1, en_ID e, ResponseDiffers (en_Response e) (en_RPC e) (rp_Response r))) = []
   \<longleftrightarrow> (\<exists>r. declaredRPCs rpcs (en_RPC e) = Some r \<and> en_Request e = rp_Request r
         \<and> en_Response e = rp_Response r)"
  by (auto split: option.split)

lemma CheckRPCs_Nil:
  "CheckRPCs rpcs es = [] \<longleftrightarrow>
     (\<forall>e \<in> set es. \<exists>r. declaredRPCs rpcs (en_RPC e) = Some r \<and> en_Request e = rp_Request r
         \<and> en_Response e = rp_Response r)
     \<and> (\<forall>r \<in> set rpcs. \<exists>e \<in> set es. en_RPC e = rp_Name r)"
  unfolding CheckRPCs_def append_is_Nil_conv concat_eq_Nil_conv set_map ball_simps
    case_prod_beta entryRPC_Nil
    enumerate_all [where P = "\<lambda>e. \<exists>r. declaredRPCs rpcs (en_RPC e) = Some r
      \<and> en_Request e = rp_Request r \<and> en_Response e = rp_Response r"]
  by (auto simp: list_ex_iff)

text \<open>What an operation is called and exchanges, as the catalog and as the protos say it.\<close>

definition catalogued :: "entry \<Rightarrow> string \<times> string \<times> string" where
  "catalogued e = (en_RPC e, en_Request e, en_Response e)"

definition declared :: "rpc \<Rightarrow> string \<times> string \<times> string" where
  "declared r = (rp_Name r, rp_Request r, rp_Response r)"

text \<open>
  The rpc check passes exactly when the catalog and the protos declare the same operations:
  the same rpc names with the same request and response, none missing and none extra.
\<close>

theorem CheckRPCs_exact:
  assumes "distinct (map rp_Name rpcs)"
  shows "CheckRPCs rpcs es = [] \<longleftrightarrow> catalogued ` set es = declared ` set rpcs"
proof
  assume "CheckRPCs rpcs es = []"
  then have cat: "\<And>e. e \<in> set es \<Longrightarrow> \<exists>r \<in> set rpcs. declared r = catalogued e"
    and all: "\<And>r. r \<in> set rpcs \<Longrightarrow> \<exists>e \<in> set es. en_RPC e = rp_Name r"
    by (fastforce simp: CheckRPCs_Nil declaredRPCs_distinct [OF assms] declared_def catalogued_def)+
  have "declared r \<in> catalogued ` set es" if r: "r \<in> set rpcs" for r
  proof -
    from all [OF r] obtain e where e: "e \<in> set es" "en_RPC e = rp_Name r" by blast
    with cat obtain r' where r': "r' \<in> set rpcs" "declared r' = catalogued e" by blast
    with e assms r have "r' = r" by (auto simp: declared_def catalogued_def distinct_map inj_on_def)
    with r' e show ?thesis by force
  qed
  with cat show "catalogued ` set es = declared ` set rpcs" by force
next
  assume eq: "catalogued ` set es = declared ` set rpcs"
  have cat: "\<exists>r \<in> set rpcs. declared r = catalogued e" if "e \<in> set es" for e
    using that eq by (metis imageE imageI)
  have all: "\<exists>e \<in> set es. catalogued e = declared r" if "r \<in> set rpcs" for r
    using that eq by (metis imageE imageI)
  show "CheckRPCs rpcs es = []"
    using cat all
    by (fastforce simp: CheckRPCs_Nil declaredRPCs_distinct [OF assms] declared_def catalogued_def)
qed

definition sample_entry :: entry where
  "sample_entry = \<lparr>en_ID = ''billing.list'', en_RPC = ''billing.v1.S/List'', en_Action = ''billing.list'',
     en_Effect = EffectRead, en_Risk = RiskLow, en_Paginated = True,
     en_Request = ''billing.v1.Req'', en_Response = ''billing.v1.Res''\<rparr>"

theorem CheckRPCs_exact_witness:
  "CheckRPCs [\<lparr>rp_Name = ''billing.v1.S/List'', rp_Request = ''billing.v1.Req'',
      rp_Response = ''billing.v1.Res''\<rparr>] [sample_entry] = []"
  using CheckRPCs_exact [of "[\<lparr>rp_Name = ''billing.v1.S/List'', rp_Request = ''billing.v1.Req'',
      rp_Response = ''billing.v1.Res''\<rparr>]" "[sample_entry]"]
  by (simp add: sample_entry_def catalogued_def declared_def)

lemma sample_catalog_ok: "catalogOK [sample_entry]"
  by (simp add: catalogOK_def entryOK_def sample_entry_def messageRe_def rpcRe_def isIdent_def
      isLetter_def isDigit_def effectValid_def riskValid_def checkActionName_def hasSpace_def
      runes_def next_rune_def isSpace_def effect_defs risk_defs Let_def)

end
