(* ===== verification/Auth_Claims.thy ===== *)
theory Auth_Claims
  imports Tenant_Ctx
begin

text \<open>
  The verified claims of an access token (\<open>Claims\<close> and its methods in
  \<open>src/auth/verifier.go\<close>) and how they travel in the context (\<open>src/auth/interceptor.go\<close>). A
  \<open>*Claims\<close> receiver may be nil, so the methods take a \<^typ>\<open>'a option\<close>.
\<close>

record claims =
  cl_Subject :: string
  cl_TenantID :: string
  cl_Scope :: string
  cl_Entitlements :: "string list"
  cl_AMR :: "string list"
  cl_ACR :: string
  cl_Email :: string
  cl_ClientID :: string
  cl_PrincipalTypeClaim :: string
  cl_ViaClaim :: string
  cl_InstallationID :: string
  cl_AgentID :: string
  cl_AgentVersion :: string
  cl_ProviderID :: string
  cl_Origin :: string
  cl_Tier :: string
  cl_ActSubject :: string

definition emptyClaims :: claims where
  "emptyClaims = \<lparr>cl_Subject = [], cl_TenantID = [], cl_Scope = [], cl_Entitlements = [],
     cl_AMR = [], cl_ACR = [], cl_Email = [], cl_ClientID = [], cl_PrincipalTypeClaim = [],
     cl_ViaClaim = [], cl_InstallationID = [], cl_AgentID = [], cl_AgentVersion = [],
     cl_ProviderID = [], cl_Origin = [], cl_Tier = [], cl_ActSubject = []\<rparr>"

definition PrincipalUser :: string where
  "PrincipalUser = ''user''"

definition PrincipalService :: string where
  "PrincipalService = ''service''"

definition PrincipalAgent :: string where
  "PrincipalAgent = ''agent''"

lemmas principal_defs = PrincipalUser_def PrincipalService_def PrincipalAgent_def

definition PrincipalType :: "claims option \<Rightarrow> string" where
  "PrincipalType oc = (case oc of None \<Rightarrow> [] | Some c \<Rightarrow>
     if cl_PrincipalTypeClaim c \<noteq> [] then cl_PrincipalTypeClaim c
     else if cl_ClientID c \<noteq> [] \<and> cl_Subject c = cl_ClientID c then PrincipalService
     else PrincipalUser)"

definition IsService :: "claims option \<Rightarrow> bool" where
  "IsService oc = (case oc of None \<Rightarrow> False | Some c \<Rightarrow>
     cl_ClientID c \<noteq> [] \<and> PrincipalType oc = PrincipalService)"

definition IsAgent :: "claims option \<Rightarrow> bool" where
  "IsAgent oc = (PrincipalType oc = PrincipalAgent)"

definition Via :: "claims option \<Rightarrow> string" where
  "Via oc = (case oc of None \<Rightarrow> [] | Some c \<Rightarrow> cl_ViaClaim c)"

definition HasScope :: "claims option \<Rightarrow> string \<Rightarrow> bool" where
  "HasScope oc s = (case oc of None \<Rightarrow> False | Some c \<Rightarrow> list_ex (\<lambda>f. f = s) (Fields (cl_Scope c)))"

section \<open>Claims in the context\<close>

record auth_ctx = ctx +
  ctx_claims :: "claims option"

definition withClaims :: "'a auth_ctx_scheme \<Rightarrow> claims \<Rightarrow> 'a auth_ctx_scheme" where
  "withClaims ctx c = ctx\<lparr>ctx_claims := Some c\<rparr>"

definition ContextWithClaims :: "'a auth_ctx_scheme \<Rightarrow> claims \<Rightarrow> 'a auth_ctx_scheme" where
  "ContextWithClaims ctx c = WithEntitlements (WithSubject (WithTenant (withClaims ctx c)
     (cl_TenantID c)) (cl_Subject c)) (cl_Entitlements c)"

definition ClaimsFrom :: "'a auth_ctx_scheme \<Rightarrow> claims option" where
  "ClaimsFrom ctx = ctx_claims ctx"

lemma ContextWithClaims_reads [simp]:
  "ClaimsFrom (ContextWithClaims ctx c) = Some c"
  "Tenant (ContextWithClaims ctx c) = cl_TenantID c"
  "Subject (ContextWithClaims ctx c) = cl_Subject c"
  "Entitlements (ContextWithClaims ctx c) = cl_Entitlements c"
  by (simp_all add: ContextWithClaims_def ClaimsFrom_def withClaims_def tenantctx_defs)

lemma ContextWithClaims_frame [simp]:
  "ctx_incoming (ContextWithClaims ctx c) = ctx_incoming ctx"
  "ctx_outgoing (ContextWithClaims ctx c) = ctx_outgoing ctx"
  by (simp_all add: ContextWithClaims_def withClaims_def tenantctx_defs)

section \<open>Who a token identifies\<close>

lemma PrincipalType_nonempty: "PrincipalType (Some c) \<noteq> []"
  by (simp add: PrincipalType_def principal_defs)

lemma service_not_agent: "IsService oc \<Longrightarrow> \<not> IsAgent oc"
  by (cases oc) (auto simp: IsService_def IsAgent_def principal_defs)

text \<open>
  The heuristic (\<open>sub = client_id\<close>) decides only when the claim is absent, so a claim is never
  overruled by it.
\<close>

lemma PrincipalType_claim_wins:
  "cl_PrincipalTypeClaim c \<noteq> [] \<Longrightarrow> PrincipalType (Some c) = cl_PrincipalTypeClaim c"
  by (simp add: PrincipalType_def)

lemma PrincipalType_service_iff:
  "PrincipalType (Some c) = PrincipalService \<longleftrightarrow>
     cl_PrincipalTypeClaim c = PrincipalService \<or>
     (cl_PrincipalTypeClaim c = [] \<and> cl_ClientID c \<noteq> [] \<and> cl_Subject c = cl_ClientID c)"
  by (simp add: PrincipalType_def principal_defs)

lemma HasScope_iff: "HasScope (Some c) s \<longleftrightarrow> s \<in> set (Fields (cl_Scope c))"
  by (auto simp: HasScope_def list_ex_iff)

end
