(* ===== verification/Telemetry.thy ===== *)
theory Telemetry
  imports Auth_Claims
begin

text \<open>
  What the kit decides about telemetry (\<open>src/telemetry/telemetry.go\<close>): when export is on, and
  what is installed, which attributes a span may carry, and the traceparent of a context. The
  OpenTelemetry SDK and the propagator are arguments; a span is the flag \<open>IsRecording\<close> and the
  attributes set on it so far.
\<close>

definition AttrTenantID :: string where "AttrTenantID = ''tenant_id''"
definition AttrPrincipalType :: string where "AttrPrincipalType = ''principal_type''"
definition AttrAction :: string where "AttrAction = ''action''"
definition AttrDecision :: string where "AttrDecision = ''decision''"
definition DecisionAllow :: string where "DecisionAllow = ''allow''"
definition DecisionDeny :: string where "DecisionDeny = ''deny''"

lemmas attr_defs = AttrTenantID_def AttrPrincipalType_def AttrAction_def AttrDecision_def
  DecisionAllow_def DecisionDeny_def

record span =
  sp_recording :: bool
  sp_attrs :: "(string \<times> string) list"

definition toLowerASCII :: "char \<Rightarrow> char" where
  "toLowerASCII c = (if 65 \<le> byte c \<and> byte c \<le> 90 then char_of (byte c + 32) else c)"

text \<open>\<open>Enabled\<close>, over the environment.\<close>

definition telemetryEnabled :: "(string \<Rightarrow> string) \<Rightarrow> bool" where
  "telemetryEnabled getenv \<longleftrightarrow>
     map toLowerASCII (TrimSpace (getenv ''OTEL_SDK_DISABLED'')) \<noteq> ''true''
     \<and> (getenv ''OTEL_EXPORTER_OTLP_ENDPOINT'' \<noteq> [] \<or> getenv ''OTEL_EXPORTER_OTLP_TRACES_ENDPOINT'' \<noteq> [])"

section \<open>Setup\<close>

text \<open>
  What is global in OpenTelemetry and \<open>Setup\<close> writes: whether the kit's propagator is installed, and the
  provider of the process, an exporter with a resource.
\<close>

record ('e, 'r) otel =
  ot_propagator :: bool
  ot_provider :: "('e \<times> 'r) option"

datatype setup_error = NameRequired | ExporterFailed string | ResourceFailed string

text \<open>The function that stops what was installed: nothing, or the provider's.\<close>

datatype 'p shutdown = NoopShutdown | ShutdownOf 'p

text \<open>\<open>newExporter\<close> is the answer of the OTLP exporter, \<open>mergeResource\<close> the resource of a service name.\<close>

definition Setup ::
    "(string \<Rightarrow> string) \<Rightarrow> string + 'e \<Rightarrow> (string \<Rightarrow> string + 'r) \<Rightarrow> string \<Rightarrow> ('e, 'r) otel
       \<Rightarrow> ('e \<times> 'r) shutdown \<times> setup_error option \<times> ('e, 'r) otel" where
  "Setup getenv newExporter mergeResource serviceName ot0 =
     (let ot = ot0\<lparr>ot_propagator := True\<rparr> in
      if \<not> telemetryEnabled getenv then (NoopShutdown, None, ot)
      else if serviceName = [] then (NoopShutdown, Some NameRequired, ot)
      else (case newExporter of
          Inl err \<Rightarrow> (NoopShutdown, Some (ExporterFailed err), ot)
        | Inr exporter \<Rightarrow> (case mergeResource serviceName of
              Inl err \<Rightarrow> (NoopShutdown, Some (ResourceFailed err), ot)
            | Inr res \<Rightarrow> (ShutdownOf (exporter, res), None, ot\<lparr>ot_provider := Some (exporter, res)\<rparr>))))"

text \<open>
  A Core passes traces on in every case, and installs an exporter exactly when it has one to stop:
  with export off, or after an error, the provider of the process is what it was.
\<close>

theorem Setup_installs_what_it_stops:
  assumes "Setup getenv newExporter mergeResource serviceName ot0 = (stop, err, ot)"
  shows "ot_propagator ot
     \<and> (case stop of NoopShutdown \<Rightarrow> ot_provider ot = ot_provider ot0 | ShutdownOf p \<Rightarrow> ot_provider ot = Some p \<and> err = None)
     \<and> (stop = NoopShutdown \<and> err = None \<longleftrightarrow> \<not> telemetryEnabled getenv)"
  using assms by (auto simp: Setup_def Let_def split: if_splits sum.splits)

section \<open>Attributes\<close>

definition setAttrs :: "span \<Rightarrow> (string \<times> string) list \<Rightarrow> span" where
  "setAttrs sp kv = (if \<not> sp_recording sp then sp
     else sp\<lparr>sp_attrs := sp_attrs sp @ filter (\<lambda>(k, v). v \<noteq> []) kv\<rparr>)"

definition SetPrincipal :: "span \<Rightarrow> string \<Rightarrow> string \<Rightarrow> span" where
  "SetPrincipal sp tenantID principalType =
     setAttrs sp [(AttrTenantID, tenantID), (AttrPrincipalType, principalType)]"

definition RecordDecision :: "span \<Rightarrow> string \<Rightarrow> string \<Rightarrow> span" where
  "RecordDecision sp action decision = setAttrs sp [(AttrAction, action), (AttrDecision, decision)]"

text \<open>The telemetry interceptor: it stamps the principal and hands the call on.\<close>

definition stampPrincipal :: "'a auth_ctx_scheme \<Rightarrow> span \<Rightarrow> span" where
  "stampPrincipal ctx sp = (case ClaimsFrom ctx of None \<Rightarrow> sp
     | Some c \<Rightarrow> SetPrincipal sp (cl_TenantID c) (PrincipalType (Some c)))"

lemma setAttrs_keys:
  "fst ` set (sp_attrs (setAttrs sp kv)) \<subseteq> fst ` set (sp_attrs sp) \<union> fst ` set kv"
  by (auto simp: setAttrs_def)

lemma setAttrs_recording [simp]: "sp_recording (setAttrs sp kv) = sp_recording sp"
  by (simp add: setAttrs_def)

definition sample_span :: span where
  "sample_span = \<lparr>sp_recording = True, sp_attrs = []\<rparr>"

section \<open>Trace context\<close>

text \<open>
  \<open>inject\<close> and \<open>extract\<close> are the propagator's: what it writes of a context into a carrier, and the context
  with what a carrier says.
\<close>

definition Traceparent :: "('c \<Rightarrow> (string \<rightharpoonup> string) \<Rightarrow> string \<rightharpoonup> string) \<Rightarrow> 'c \<Rightarrow> string" where
  "Traceparent inject ctx = (case inject ctx Map.empty ''traceparent'' of None \<Rightarrow> [] | Some v \<Rightarrow> v)"

definition ContextWithTraceparent :: "((string \<rightharpoonup> string) \<Rightarrow> 'c \<Rightarrow> 'c) \<Rightarrow> 'c \<Rightarrow> string \<Rightarrow> 'c" where
  "ContextWithTraceparent ext ctx traceparent =
     (if traceparent = [] then ctx else ext [''traceparent'' \<mapsto> traceparent] ctx)"

theorem Setup_installs_what_it_stops_witness:
  "\<exists>stop ot. Setup (\<lambda>k. if k = ''OTEL_EXPORTER_OTLP_ENDPOINT'' then ''http'' else []) (Inr ()) Inr ''core'' \<lparr>ot_propagator = False, ot_provider = None\<rparr>
     = (stop, None, ot) \<and> ot_propagator ot \<and> ot_provider ot = Some ((), ''core'')"
proof -
  let ?env = "\<lambda>k. if k = ''OTEL_EXPORTER_OTLP_ENDPOINT'' then ''http'' else []"
  have on: "telemetryEnabled ?env" by (simp add: telemetryEnabled_def TrimSpace_def)
  then have "Setup ?env (Inr ()) Inr ''core'' \<lparr>ot_propagator = False, ot_provider = None\<rparr>
      = (ShutdownOf ((), ''core''), None, \<lparr>ot_propagator = True, ot_provider = Some ((), ''core'')\<rparr>)"
    by (simp add: Setup_def)
  from Setup_installs_what_it_stops [OF this] this show ?thesis by auto
qed

end
