(* ===== verification/Authz_Gate.thy ===== *)
theory Authz_Gate
  imports Pdp_Client Capabilities Telemetry
begin

text \<open>
  The authorization gate (\<open>src/authz/gate.go\<close>): its construction from options, and \<open>Require\<close>,
  which every handler calls first. The gate holds the \<open>Allowed\<close> operation of its PDP client; the
  allowlist and the catalog are maps that may be nil (\<^term>\<open>None\<close>), which is not the same as empty.
  Logging is left out: no branch depends on it.
\<close>

section \<open>Building a gate\<close>

type_synonym pdp_allowed = "pdp_request \<Rightarrow> bool \<times> string \<times> string option"

record gate =
  ga_pdp :: pdp_allowed
  ga_module :: string
  ga_machines :: "(string \<rightharpoonup> string set) option"
  ga_effects :: "(string \<rightharpoonup> string) option"

datatype name_error = NameNoVerb string | NameOfModule string string | NameBadSegment string

datatype option_error =
    MachineAction name_error
  | MachineNone string
  | MachineBadID string string
  | UnknownEffect string string

datatype gate_option =
    MachineAllow string "string list"
  | EffectsOf "(string \<times> string) list"

definition checkAction :: "string \<Rightarrow> string \<Rightarrow> name_error + unit" where
  "checkAction action module = (let segments = splitOn CHR ''.'' action in
     if length segments < 2 then Inl (NameNoVerb action)
     else if hd segments \<noteq> module then Inl (NameOfModule action module)
     else if list_ex (\<lambda>s. s = [] \<or> hasSpace s) segments then Inl (NameBadSegment action)
     else Inr ())"

definition badClientID :: "string \<Rightarrow> bool" where
  "badClientID i \<longleftrightarrow> i = [] \<or> hasSpace i"

text \<open>
  The \<open>apply\<close> closure of each option. The literal passed to \<open>Effects\<close> is a Go map; it is given here
  as the list of its entries, whose keys are distinct.
\<close>

fun applyMachineAllow :: "string \<Rightarrow> string list \<Rightarrow> gate \<Rightarrow> option_error + gate" where
  "applyMachineAllow action ids g =
     (case checkAction action (ga_module g) of
        Inl e \<Rightarrow> Inl (MachineAction e)
      | Inr _ \<Rightarrow>
          if ids = [] then Inl (MachineNone action)
          else (case find badClientID ids of
              Some i \<Rightarrow> Inl (MachineBadID action i)
            | None \<Rightarrow>
                let machines = (case ga_machines g of None \<Rightarrow> Map.empty | Some m \<Rightarrow> m);
                    ids0 = (case machines action of None \<Rightarrow> {} | Some s \<Rightarrow> s)
                in Inr (g\<lparr>ga_machines := Some (machines(action \<mapsto> ids0 \<union> set ids))\<rparr>)))"

fun applyEffects :: "(string \<times> string) list \<Rightarrow> gate \<Rightarrow> option_error + gate" where
  "applyEffects es g = (case find (\<lambda>(a, e). \<not> effectValid e) es of
       Some (a, e) \<Rightarrow> Inl (UnknownEffect a e)
     | None \<Rightarrow> Inr (g\<lparr>ga_effects := Some (map_of es)\<rparr>))"

fun applyOption :: "gate_option \<Rightarrow> gate \<Rightarrow> option_error + gate" where
  "applyOption (MachineAllow action ids) g = applyMachineAllow action ids g"
| "applyOption (EffectsOf es) g = applyEffects es g"

text \<open>\<open>New\<close>; an error of an option is the panic of the source.\<close>

fun applyOptions :: "gate_option list \<Rightarrow> gate \<Rightarrow> option_error + gate" where
  "applyOptions [] g = Inr g"
| "applyOptions (op # ops) g = and_then (applyOption op g) (applyOptions ops)"

definition New :: "pdp_allowed \<Rightarrow> string \<Rightarrow> gate_option list \<Rightarrow> option_error + gate" where
  "New pdp module ops = applyOptions ops
     \<lparr>ga_pdp = pdp, ga_module = module, ga_machines = None, ga_effects = None\<rparr>"

section \<open>Require\<close>

datatype gate_error =
    MissingClaims
  | WrongModule string string
  | AssistantReadOnly
  | Denied
  | NotEntitled string
  | LacksScope string

fun gateCode :: "gate_error \<Rightarrow> code" where
  "gateCode MissingClaims = Unauthenticated"
| "gateCode (WrongModule a m) = Internal"
| "gateCode AssistantReadOnly = PermissionDenied"
| "gateCode Denied = PermissionDenied"
| "gateCode (NotEntitled m) = PermissionDenied"
| "gateCode (LacksScope s) = PermissionDenied"

definition ScopeRead :: string where
  "ScopeRead = ''core.read''"

definition ScopeWrite :: string where
  "ScopeWrite = ''core.write''"

definition ScopeFor :: "string \<Rightarrow> string" where
  "ScopeFor action =
     (if afterLast CHR ''.'' action \<in> {''read'', ''list'', ''get'', ''lookup'', ''search'', ''view''}
      then ScopeRead else ScopeWrite)"

definition hasEntitlement :: "string list \<Rightarrow> string \<Rightarrow> bool" where
  "hasEntitlement es key \<longleftrightarrow> list_ex (\<lambda>e. e = key) es"

definition agentAttributes :: "claims \<Rightarrow> (string \<times> string) list" where
  "agentAttributes c = filter (\<lambda>(k, v). v \<noteq> [])
     [(''origin'', cl_Origin c), (''tier'', cl_Tier c), (''provider'', cl_ProviderID c),
      (''installation_id'', cl_InstallationID c)]"

text \<open>\<open>g.machines[action][clientID]\<close>: reading a nil map or a missing entry finds nothing.\<close>

definition listed :: "(string \<rightharpoonup> string set) \<Rightarrow> string \<Rightarrow> string \<Rightarrow> bool" where
  "listed machines action client =
     (case machines action of None \<Rightarrow> False | Some s \<Rightarrow> client \<in> s)"

definition requireService :: "gate \<Rightarrow> claims \<Rightarrow> string \<Rightarrow> gate_error + unit" where
  "requireService g c action =
     (if (case ga_machines g of None \<Rightarrow> False | Some m \<Rightarrow> \<not> listed m action (cl_ClientID c))
      then Inl Denied
      else let need = ScopeFor action in
        if \<not> HasScope (Some c) need \<and> \<not> (need = ScopeRead \<and> HasScope (Some c) ScopeWrite)
           \<and> \<not> HasScope (Some c) action
        then (if ga_machines g \<noteq> None then Inl Denied else Inl (LacksScope need))
        else Inr ())"

definition decide :: "gate \<Rightarrow> pdp_request \<Rightarrow> gate_error + unit" where
  "decide g req = (case ga_pdp g req of (allowed, reason, err) \<Rightarrow>
     if err \<noteq> None then Inl Denied
     else if \<not> allowed then Inl Denied
     else Inr ())"

definition agentRequest :: "claims \<Rightarrow> string \<Rightarrow> string \<Rightarrow> string \<Rightarrow> pdp_request" where
  "agentRequest c action rtype rid =
     \<lparr>rq_TenantID = cl_TenantID c, rq_SubjectID = cl_InstallationID c, rq_Action = action,
      rq_ResourceType = rtype, rq_ResourceID = rid, rq_Entitlements = cl_Entitlements c,
      rq_SubjectType = PrincipalAgent, rq_PrincipalAttributes = agentAttributes c,
      rq_Via = Via (Some c), rq_ConsistencyToken = []\<rparr>"

definition personRequest :: "claims \<Rightarrow> string \<Rightarrow> string \<Rightarrow> string \<Rightarrow> pdp_request" where
  "personRequest c action rtype rid =
     \<lparr>rq_TenantID = cl_TenantID c, rq_SubjectID = cl_Subject c, rq_Action = action,
      rq_ResourceType = rtype, rq_ResourceID = rid, rq_Entitlements = cl_Entitlements c,
      rq_SubjectType = [], rq_PrincipalAttributes = [],
      rq_Via = Via (Some c), rq_ConsistencyToken = []\<rparr>"

definition requireAgent :: "gate \<Rightarrow> claims \<Rightarrow> string \<Rightarrow> string \<Rightarrow> string \<Rightarrow> gate_error + unit" where
  "requireAgent g c action rtype rid =
     (if cl_InstallationID c = [] then Inl Denied
      else if \<not> hasEntitlement (cl_Entitlements c) (ga_module g) then Inl (NotEntitled (ga_module g))
      else decide g (agentRequest c action rtype rid))"

definition requirePerson :: "gate \<Rightarrow> claims \<Rightarrow> string \<Rightarrow> string \<Rightarrow> string \<Rightarrow> gate_error + unit" where
  "requirePerson g c action rtype rid =
     (if \<not> hasEntitlement (cl_Entitlements c) (ga_module g) then Inl (NotEntitled (ga_module g))
      else decide g (personRequest c action rtype rid))"

definition require ::
    "gate \<Rightarrow> 'a auth_ctx_scheme \<Rightarrow> string \<Rightarrow> string \<Rightarrow> string \<Rightarrow> gate_error + unit" where
  "require g ctx action rtype rid = (case ClaimsFrom ctx of
       None \<Rightarrow> Inl MissingClaims
     | Some c \<Rightarrow>
         if cutBefore CHR ''.'' action \<noteq> ga_module g then Inl (WrongModule action (ga_module g))
         else if Via (Some c) \<noteq> [] \<and> \<not> IsRead (ga_effects g) action then Inl AssistantReadOnly
         else let pt = PrincipalType (Some c) in
           if pt = PrincipalService then requireService g c action
           else if pt = PrincipalAgent then requireAgent g c action rtype rid
           else if pt = PrincipalUser then requirePerson g c action rtype rid
           else Inl Denied)"

text \<open>\<open>Require\<close>: the decision, and the span with what it was stamped.\<close>

definition Require ::
    "gate \<Rightarrow> 'a auth_ctx_scheme \<Rightarrow> string \<Rightarrow> string \<Rightarrow> string \<Rightarrow> span
       \<Rightarrow> (gate_error + unit) \<times> span" where
  "Require g ctx action rtype rid sp =
     (let err = require g ctx action rtype rid;
          sp1 = (case ClaimsFrom ctx of None \<Rightarrow> sp
                 | Some c \<Rightarrow> SetPrincipal sp (cl_TenantID c) (PrincipalType (Some c)));
          decision = (if \<not> ok err then DecisionDeny else DecisionAllow)
      in (err, RecordDecision sp1 action decision))"

section \<open>The contract of the decision point\<close>

text \<open>
  What the gate relies on from the PDP client: it reports an allowed decision without an error
  exactly for the requests the PDP granted.
\<close>

locale decision_client =
  fixes allowed :: pdp_allowed
    and grants :: "pdp_request \<Rightarrow> bool"
  assumes sound: "allowed r = (True, reason, None) \<Longrightarrow> grants r"
    and complete: "grants r \<Longrightarrow> fst (allowed r) \<and> snd (snd (allowed r)) = None"
begin

lemma decide_iff: "decide (g\<lparr>ga_pdp := allowed\<rparr>) r = Inr () \<longleftrightarrow> grants r"
proof (cases "allowed r")
  case (fields a reason err)
  then show ?thesis
    using sound [of r reason] complete [of r] by (cases err; cases a) (auto simp: decide_def)
qed

lemma decide_Inl: "decide (g\<lparr>ga_pdp := allowed\<rparr>) r = Inl e \<longleftrightarrow> \<not> grants r \<and> e = Denied"
  using decide_iff [of g r] by (auto simp: decide_def split: prod.splits if_splits)

lemma requirePerson_iff:
  "requirePerson (g\<lparr>ga_pdp := allowed\<rparr>) c action rtype rid = Inr () \<longleftrightarrow>
     ga_module g \<in> set (cl_Entitlements c) \<and> grants (personRequest c action rtype rid)"
  by (auto simp: requirePerson_def decide_iff hasEntitlement_def list_ex_iff)

lemma requireAgent_iff:
  "requireAgent (g\<lparr>ga_pdp := allowed\<rparr>) c action rtype rid = Inr () \<longleftrightarrow>
     cl_InstallationID c \<noteq> [] \<and> ga_module g \<in> set (cl_Entitlements c)
     \<and> grants (agentRequest c action rtype rid)"
  by (auto simp: requireAgent_def decide_iff hasEntitlement_def list_ex_iff)

end

definition pdpGrants :: "check_rpc \<Rightarrow> pdp_request \<Rightarrow> bool" where
  "pdpGrants rpc r = (case rpc (toProto r) of Inr (Some p) \<Rightarrow> pb_Allowed p | _ \<Rightarrow> False)"

interpretation pdp: decision_client "Allowed rpc" "pdpGrants rpc" for rpc
proof
  show "pdpGrants rpc r" if "Allowed rpc r = (True, reason, None)" for r reason
    using that Allowed_true [of rpc r] by (auto simp: pdpGrants_def)
  show "fst (Allowed rpc r) \<and> snd (snd (Allowed rpc r)) = None" if "pdpGrants rpc r" for r
    using that by (auto simp: pdpGrants_def Allowed_def Check_def fromProto_def
        split: sum.splits option.splits)
qed

section \<open>Helper facts\<close>

lemma principal_distinct [simp]:
  "PrincipalService \<noteq> PrincipalAgent" "PrincipalAgent \<noteq> PrincipalService"
  "PrincipalUser \<noteq> PrincipalService" "PrincipalService \<noteq> PrincipalUser"
  "PrincipalUser \<noteq> PrincipalAgent" "PrincipalAgent \<noteq> PrincipalUser"
  by (simp_all add: principal_defs)

lemma Require_result [simp]: "fst (Require g ctx action rtype rid sp) = require g ctx action rtype rid"
  by (simp add: Require_def Let_def)

text \<open>The scopes that cover an action, and the machines that may perform it.\<close>

definition coveringScopes :: "string \<Rightarrow> string set" where
  "coveringScopes action =
     (if ScopeFor action = ScopeRead then {ScopeRead, ScopeWrite, action} else {ScopeWrite, action})"

definition machineListed :: "gate \<Rightarrow> string \<Rightarrow> string \<Rightarrow> bool" where
  "machineListed g action client \<longleftrightarrow> (case ga_machines g of
       None \<Rightarrow> True | Some m \<Rightarrow> listed m action client)"

lemma covered_iff:
  "coveringScopes action \<inter> set (Fields (cl_Scope c)) \<noteq> {} \<longleftrightarrow>
     HasScope (Some c) (ScopeFor action) \<or> (ScopeFor action = ScopeRead \<and> HasScope (Some c) ScopeWrite)
     \<or> HasScope (Some c) action"
  by (auto simp: coveringScopes_def HasScope_iff ScopeFor_def ScopeRead_def ScopeWrite_def)

lemma requireService_iff:
  "requireService g c action = Inr () \<longleftrightarrow> machineListed g action (cl_ClientID c)
     \<and> coveringScopes action \<inter> set (Fields (cl_Scope c)) \<noteq> {}"
  by (auto simp: requireService_def machineListed_def covered_iff Let_def split: option.splits)

lemma require_claims:
  "ClaimsFrom ctx = Some c \<Longrightarrow> require g ctx action rtype rid =
     (if cutBefore CHR ''.'' action \<noteq> ga_module g then Inl (WrongModule action (ga_module g))
      else if Via (Some c) \<noteq> [] \<and> \<not> IsRead (ga_effects g) action then Inl AssistantReadOnly
      else if PrincipalType (Some c) = PrincipalService then requireService g c action
      else if PrincipalType (Some c) = PrincipalAgent then requireAgent g c action rtype rid
      else if PrincipalType (Some c) = PrincipalUser then requirePerson g c action rtype rid
      else Inl Denied)"
  by (simp add: require_def Let_def)

text \<open>Whom the gate lets through: the verified claims \<open>c\<close> of a call, and what it asks for.\<close>

definition allowsCall :: "gate \<Rightarrow> check_rpc \<Rightarrow> claims \<Rightarrow> string \<Rightarrow> string \<Rightarrow> string \<Rightarrow> bool" where
  "allowsCall g rpc c action rtype rid \<longleftrightarrow> cutBefore CHR ''.'' action = ga_module g
     \<and> (cl_ViaClaim c = [] \<or> IsRead (ga_effects g) action)
     \<and> (if PrincipalType (Some c) = PrincipalService
          then machineListed g action (cl_ClientID c) \<and> coveringScopes action \<inter> set (Fields (cl_Scope c)) \<noteq> {}
        else if PrincipalType (Some c) = PrincipalAgent
          then cl_InstallationID c \<noteq> [] \<and> ga_module g \<in> set (cl_Entitlements c)
             \<and> pdpGrants rpc (agentRequest c action rtype rid)
        else PrincipalType (Some c) = PrincipalUser \<and> ga_module g \<in> set (cl_Entitlements c)
             \<and> pdpGrants rpc (personRequest c action rtype rid))"

lemma require_allows:
  "require (g\<lparr>ga_pdp := Allowed rpc\<rparr>) ctx action rtype rid = Inr () \<longleftrightarrow>
     (\<exists>c. ClaimsFrom ctx = Some c \<and> allowsCall g rpc c action rtype rid)"
proof (cases "ClaimsFrom ctx")
  case None
  then show ?thesis by (simp add: require_def)
next
  case (Some c)
  have listed: "machineListed (g\<lparr>ga_pdp := Allowed rpc\<rparr>) a i = machineListed g a i" for a i
    by (simp add: machineListed_def)
  show ?thesis
    by (simp add: allowsCall_def require_claims [OF Some] Some Via_def requireService_iff listed
        pdp.requireAgent_iff pdp.requirePerson_iff)
qed

section \<open>Properties of the gate\<close>

text \<open>
  C2. Deny by default. \<open>Require\<close> lets a call through in exactly these cases: there are verified
  claims, the action is of the gate's module, a token with \<open>via\<close> asks for a read, and then a
  service is listed for the action (when there is an allowlist) and holds a covering scope; an
  agent has an installation, its tenant the module, and the PDP grants the request made in the
  name of the installation; a person's tenant has the module and the PDP grants the person's
  request. Anything else, an unknown principal type, an error of the PDP or a missing answer
  included, is refused.
\<close>

theorem Require_allows_iff:
  "fst (Require (g\<lparr>ga_pdp := Allowed rpc\<rparr>) ctx action rtype rid sp) = Inr () \<longleftrightarrow>
     (\<exists>c. ClaimsFrom ctx = Some c \<and> cutBefore CHR ''.'' action = ga_module g
        \<and> (cl_ViaClaim c = [] \<or> IsRead (ga_effects g) action)
        \<and> ((PrincipalType (Some c) = PrincipalService
              \<and> machineListed g action (cl_ClientID c)
              \<and> coveringScopes action \<inter> set (Fields (cl_Scope c)) \<noteq> {})
         \<or> (PrincipalType (Some c) = PrincipalAgent
              \<and> cl_InstallationID c \<noteq> [] \<and> ga_module g \<in> set (cl_Entitlements c)
              \<and> pdpGrants rpc (agentRequest c action rtype rid))
         \<or> (PrincipalType (Some c) = PrincipalUser
              \<and> ga_module g \<in> set (cl_Entitlements c)
              \<and> pdpGrants rpc (personRequest c action rtype rid))))"
  by (auto simp: require_allows allowsCall_def)

text \<open>
  In allowlist mode a machine cannot tell why it was refused. The gate's answer to a service
  for an action of its module is success or the one denial a PDP refusal also gives, so no two
  refusals of services differ, whatever the two gates, tokens, scopes and allowlists are.
\<close>

theorem machine_denials_are_uniform:
  assumes "ClaimsFrom ctx = Some c" and "PrincipalType (Some c) = PrincipalService"
    and "cl_ViaClaim c = []" and "cutBefore CHR ''.'' action = ga_module g"
    and "ga_machines g = Some machines"
  shows "fst (Require g ctx action rtype rid sp) =
     (if (\<exists>ids. machines action = Some ids \<and> cl_ClientID c \<in> ids)
         \<and> coveringScopes action \<inter> set (Fields (cl_Scope c)) \<noteq> {}
      then Inr () else Inl Denied)"
proof -
  from assms have r: "fst (Require g ctx action rtype rid sp) = requireService g c action"
    by (simp add: require_claims Via_def)
  have "requireService g c action \<in> {Inr (), Inl Denied}"
    using assms(5) by (auto simp: requireService_def Let_def)
  moreover have "requireService g c action = Inr () \<longleftrightarrow>
      (\<exists>ids. machines action = Some ids \<and> cl_ClientID c \<in> ids)
      \<and> coveringScopes action \<inter> set (Fields (cl_Scope c)) \<noteq> {}"
    using assms(5) by (auto simp: requireService_iff machineListed_def listed_def split: option.splits)
  ultimately show ?thesis unfolding r by auto
qed

definition sample_gate :: gate where
  "sample_gate = \<lparr>ga_pdp = (\<lambda>r. (False, ''no policy'', None)), ga_module = ''billing'',
     ga_machines = Some [''billing.list'' \<mapsto> {''jev''}], ga_effects = None\<rparr>"

definition sample_service :: claims where
  "sample_service = emptyClaims\<lparr>cl_Subject := ''eve'', cl_ClientID := ''eve'', cl_TenantID := ''acme'',
     cl_Scope := ''core.read''\<rparr>"

definition authenticated :: "claims \<Rightarrow> auth_ctx" where
  "authenticated c = ContextWithClaims
     \<lparr>ctx_tenant = None, ctx_subject = None, ctx_entitlements = None, ctx_incoming = None,
      ctx_outgoing = [], ctx_claims = None\<rparr> c"

lemma authenticated_claims [simp]: "ClaimsFrom (authenticated c) = Some c"
  by (simp add: authenticated_def)

theorem machine_denials_are_uniform_witness:
  "fst (Require sample_gate (authenticated sample_service) ''billing.list'' [] [] sample_span)
     = Inl Denied"
  using machine_denials_are_uniform [of "authenticated sample_service" sample_service
      "''billing.list''" sample_gate "[''billing.list'' \<mapsto> {''jev''}]" "[]" "[]" sample_span]
  by (simp add: sample_service_def emptyClaims_def PrincipalType_def principal_defs sample_gate_def
      cutBefore_def)

text \<open>
  C11. The assistant may only read, and the catalog says what a read is. Through a gate given the
  effects of the catalog, a call whose token carries \<open>via\<close> and whose action has a catalogued
  operation that is not a read (or no catalogued operation at all) is refused, whatever the PDP
  would answer, the scopes and the principal type.
\<close>

theorem assistant_only_reads:
  assumes "ga_effects g = Some (Effects es)" and "ClaimsFrom ctx = Some c"
    and "cl_ViaClaim c \<noteq> []"
    and "(\<exists>e. e \<in> set es \<and> en_Action e = action \<and> en_Effect e \<noteq> EffectRead)
         \<or> action \<notin> en_Action ` set es"
  shows "fst (Require (g\<lparr>ga_pdp := pdp\<rparr>) ctx action rtype rid sp) =
     Inl (if cutBefore CHR ''.'' action \<noteq> ga_module g then WrongModule action (ga_module g)
          else AssistantReadOnly)"
proof -
  have "\<not> IsRead (ga_effects g) action"
    using assms(1,4) IsRead_catalog [of es action] by auto
  then show ?thesis
    using assms(2,3) by (simp add: require_claims Via_def)
qed

text \<open>
  An agent is judged as its installation by the PDP and by nothing else: its scopes, its client
  id and the machine allowlist never change the answer (neither a token that says it holds
  \<open>core.write\<close> nor an allowlist that names it helps).
\<close>

theorem agent_ignores_scope_and_allowlist:
  assumes "cl_PrincipalTypeClaim c = PrincipalAgent"
  shows "fst (Require (g\<lparr>ga_machines := machines\<rparr>)
             (authenticated (c\<lparr>cl_Scope := scope, cl_ClientID := client\<rparr>)) action rtype rid sp)
       = fst (Require g (authenticated c) action rtype rid sp)"
proof -
  have "PrincipalType (Some (c\<lparr>cl_Scope := scope, cl_ClientID := client\<rparr>)) = PrincipalAgent"
       "PrincipalType (Some c) = PrincipalAgent"
    using assms by (simp_all add: PrincipalType_def principal_defs)
  moreover have "agentRequest (c\<lparr>cl_Scope := scope, cl_ClientID := client\<rparr>) action rtype rid
      = agentRequest c action rtype rid"
    by (simp add: agentRequest_def agentAttributes_def Via_def)
  ultimately show ?thesis
    by (simp add: require_claims [OF authenticated_claims] Via_def requireAgent_def decide_def)
qed

theorem agent_ignores_scope_and_allowlist_witness:
  "fst (Require (sample_gate\<lparr>ga_machines := Some [''billing.void'' \<mapsto> {''a-7''}]\<rparr>)
      (authenticated (emptyClaims\<lparr>cl_PrincipalTypeClaim := PrincipalAgent,
         cl_InstallationID := ''i-7'', cl_Entitlements := [''billing''],
         cl_Scope := ''core.write'', cl_ClientID := ''a-7''\<rparr>)) ''billing.void'' [] [] sample_span) = Inl Denied"
proof -
  let ?c = "emptyClaims\<lparr>cl_PrincipalTypeClaim := PrincipalAgent,
         cl_InstallationID := ''i-7'', cl_Entitlements := [''billing'']\<rparr>"
  have "fst (Require sample_gate (authenticated ?c) ''billing.void'' [] [] sample_span) = Inl Denied"
    by (simp add: require_claims [OF authenticated_claims] emptyClaims_def PrincipalType_def
        principal_defs sample_gate_def cutBefore_def Via_def requireAgent_def hasEntitlement_def
        decide_def)
  with agent_ignores_scope_and_allowlist [where c = ?c and g = sample_gate
      and machines = "Some [''billing.void'' \<mapsto> {''a-7''}]" and scope = "''core.write''"
      and client = "''a-7''" and action = "''billing.void''" and rtype = "[]" and rid = "[]" and sp = sample_span]
  show ?thesis by simp
qed

theorem assistant_only_reads_witness:
  "fst (Require (sample_gate\<lparr>ga_effects := Some (Effects [sample_entry\<lparr>en_Effect := EffectWrite\<rparr>]),
       ga_pdp := (\<lambda>r. (True, [], None))\<rparr>)
      (authenticated (emptyClaims\<lparr>cl_ViaClaim := ''assistant''\<rparr>)) ''billing.list'' [] [] sample_span)
     = Inl AssistantReadOnly"
  using assistant_only_reads [where g = "sample_gate\<lparr>ga_effects :=
         Some (Effects [sample_entry\<lparr>en_Effect := EffectWrite\<rparr>])\<rparr>"
      and es = "[sample_entry\<lparr>en_Effect := EffectWrite\<rparr>]"
      and ctx = "authenticated (emptyClaims\<lparr>cl_ViaClaim := ''assistant''\<rparr>)"
      and c = "emptyClaims\<lparr>cl_ViaClaim := ''assistant''\<rparr>" and action = "''billing.list''"
      and pdp = "\<lambda>r. (True, [], None)" and rtype = "[]" and rid = "[]" and sp = sample_span]
  by (simp add: sample_gate_def sample_entry_def cutBefore_def effect_defs)


section \<open>What New builds\<close>

definition allowed_by :: "gate \<Rightarrow> string \<Rightarrow> string \<Rightarrow> bool" where
  "allowed_by g action client \<longleftrightarrow> (case ga_machines g of None \<Rightarrow> False | Some m \<Rightarrow> listed m action client)"

definition wellNamed :: "string \<Rightarrow> string \<Rightarrow> string list \<Rightarrow> bool" where
  "wellNamed module action ids \<longleftrightarrow> checkAction action module = Inr () \<and> ids \<noteq> []
     \<and> (\<forall>i \<in> set ids. i \<noteq> [] \<and> \<not> hasSpace i)"

lemma checkAction_Inr:
  "checkAction action module = Inr () \<longleftrightarrow> CHR ''.'' \<in> set action
     \<and> cutBefore CHR ''.'' action = module
     \<and> (\<forall>s \<in> set (splitOn CHR ''.'' action). s \<noteq> [] \<and> \<not> hasSpace s)"
  using splitOn_length_ge2 [of "CHR ''.''" action]
  by (auto simp: checkAction_def Let_def hd_splitOn list_ex_iff not_less)

lemma applyMachineAllow_Inr:
  "applyMachineAllow action ids g = Inr g' \<longleftrightarrow> wellNamed (ga_module g) action ids
     \<and> g' = g\<lparr>ga_machines := Some ((case ga_machines g of None \<Rightarrow> Map.empty | Some m \<Rightarrow> m)
          (action \<mapsto> (case (case ga_machines g of None \<Rightarrow> Map.empty | Some m \<Rightarrow> m) action of
              None \<Rightarrow> {} | Some s \<Rightarrow> s) \<union> set ids))\<rparr>"
proof (cases "find badClientID ids")
  case None
  then have "\<forall>i \<in> set ids. i \<noteq> [] \<and> \<not> hasSpace i" by (auto simp: find_None_iff badClientID_def)
  with None show ?thesis
    by (cases "checkAction action (ga_module g)") (auto simp: wellNamed_def Let_def)
next
  case (Some j)
  then have "j \<in> set ids" "badClientID j" by (auto simp: find_Some_iff)
  with Some show ?thesis
    by (cases "checkAction action (ga_module g)") (auto simp: wellNamed_def badClientID_def)
qed

lemma applyMachineAllow_allowed:
  "applyMachineAllow action ids g = Inr g' \<Longrightarrow>
     allowed_by g' a i \<longleftrightarrow> allowed_by g a i \<or> (a = action \<and> i \<in> set ids)"
  unfolding applyMachineAllow_Inr by (auto simp: allowed_by_def listed_def split: option.splits)

lemma applyEffects_frame:
  "applyEffects es g = Inr g' \<Longrightarrow> ga_machines g' = ga_machines g \<and> ga_module g' = ga_module g
     \<and> ga_pdp g' = ga_pdp g"
  by (auto split: option.splits)

lemma applyOptions_allowed:
  "applyOptions ops g0 = Inr g \<Longrightarrow>
     ga_pdp g = ga_pdp g0 \<and> ga_module g = ga_module g0
     \<and> (ga_machines g = None \<longleftrightarrow> ga_machines g0 = None \<and> (\<nexists>a ids. MachineAllow a ids \<in> set ops))
     \<and> (allowed_by g a i \<longleftrightarrow> allowed_by g0 a i \<or> (\<exists>ids. MachineAllow a ids \<in> set ops \<and> i \<in> set ids))
     \<and> (\<forall>a ids. MachineAllow a ids \<in> set ops \<longrightarrow> wellNamed (ga_module g0) a ids)"
proof (induction ops arbitrary: g0)
  case (Cons op ops)
  then obtain g1 where g1: "applyOption op g0 = Inr g1" and rest: "applyOptions ops g1 = Inr g"
    by (auto simp: and_then_eq_Inr)
  note IH = Cons.IH [OF rest]
  show ?case
  proof (cases op)
    case (MachineAllow action ids)
    with g1 have m: "applyMachineAllow action ids g0 = Inr g1" by simp
    note step = m [unfolded applyMachineAllow_Inr]
    have frame: "ga_pdp g1 = ga_pdp g0" "ga_module g1 = ga_module g0" "ga_machines g1 \<noteq> None"
      "wellNamed (ga_module g0) action ids" using step by auto
    show ?thesis using IH frame applyMachineAllow_allowed [OF m, of a i] MachineAllow by auto
  next
    case (EffectsOf es)
    with g1 have "applyEffects es g0 = Inr g1" by simp
    from applyEffects_frame [OF this] IH EffectsOf show ?thesis by (auto simp: allowed_by_def)
  qed
qed simp

text \<open>
  A gate that \<open>New\<close> builds has the allowlist its options spell out and nothing else: allowlist
  mode exactly when some \<open>MachineAllow\<close> was passed, a client listed for an action exactly when an
  option for that action lists it (calls add up), and every option well formed: the action of this
  module, with a verb and no empty or space-carrying segment, the clients non-empty and space-free.
\<close>

theorem New_builds_the_allowlist:
  assumes "New pdp module ops = Inr g"
  shows "(ga_machines g = None \<longleftrightarrow> (\<nexists>a ids. MachineAllow a ids \<in> set ops))
    \<and> (allowed_by g a i \<longleftrightarrow> (\<exists>ids. MachineAllow a ids \<in> set ops \<and> i \<in> set ids))
    \<and> {(a, ids). MachineAllow a ids \<in> set ops} \<subseteq> {(a, ids). wellNamed module a ids}
    \<and> ga_module g = module \<and> ga_pdp g = pdp"
  using applyOptions_allowed [OF assms [unfolded New_def], of a i]
  by (auto simp: allowed_by_def)

theorem New_builds_the_allowlist_witness:
  "\<exists>g. New (\<lambda>r. (False, [], None)) ''billing'' [MachineAllow ''billing.list'' [''jev'']] = Inr g
     \<and> allowed_by g ''billing.list'' ''jev'' \<and> \<not> allowed_by g ''billing.list'' ''eve''"
proof -
  obtain g where g: "New (\<lambda>r. (False, [], None)) ''billing'' [MachineAllow ''billing.list'' [''jev'']] = Inr g"
    by (simp add: New_def checkAction_def hasSpace_def next_rune_def isSpace_def badClientID_def Let_def)
  from New_builds_the_allowlist [OF g, of "''billing.list''" "''jev''"]
    New_builds_the_allowlist [OF g, of "''billing.list''" "''eve''"] g
  show ?thesis by auto
qed

end
