(* ===== verification/Auth_Verifier.thy ===== *)
theory Auth_Verifier
  imports Auth_Claims
begin

text \<open>
  Access-token verification and the gRPC interceptor (\<open>src/auth/verifier.go\<close>,
  \<open>src/auth/interceptor.go\<close>). The JOSE library (\<open>lestrrat-go/jwx\<close>) and the JWKS endpoint are
  parameters: a record of the library's functions, and per call what the fetch answers and what
  the clock reads. Everything the kit itself decides is defined here: the pinned algorithm and
  type, the key-set cache, the audience match, the claims copied out and the tenant requirement.
\<close>

section \<open>The JOSE library\<close>

text \<open>A decoded JSON value, as \<open>any\<close> holds it; the kit only tells strings from the rest.\<close>

datatype any = AString string | AOther

record jws_header =
  hdr_alg :: "string option"
  hdr_typ :: "string option"

record ('k, 't) jwx =
  jx_parse_jws :: "string \<Rightarrow> string + jws_header list"
  jx_parse_jwt :: "'k \<Rightarrow> string \<Rightarrow> time \<Rightarrow> string \<Rightarrow> string + 't"
  jx_subject :: "'t \<Rightarrow> string option"
  jx_audience :: "'t \<Rightarrow> string list option"
  jx_str :: "'t \<Rightarrow> string \<Rightarrow> string option"
  jx_arr :: "'t \<Rightarrow> string \<Rightarrow> any list option"
  jx_obj :: "'t \<Rightarrow> string \<Rightarrow> (string \<rightharpoonup> any) option"

text \<open>The zero value Go leaves in a destination the call did not fill.\<close>

definition orEmpty :: "string option \<Rightarrow> string" where
  "orEmpty v = (case v of None \<Rightarrow> [] | Some s \<Rightarrow> s)"

section \<open>The verifier and its key set\<close>

record 'k verifier =
  vf_jwksURL :: string
  vf_issuer :: string
  vf_audiences :: "string list"
  vf_set :: "'k option"
  vf_fetchedAt :: time
  vf_ttl :: duration

definition NewVerifier :: "string \<Rightarrow> string \<Rightarrow> string list \<Rightarrow> 'k verifier" where
  "NewVerifier jwksURL issuer audiences = \<lparr>vf_jwksURL = jwksURL, vf_issuer = issuer,
     vf_audiences = audiences, vf_set = None, vf_fetchedAt = 0, vf_ttl = 5 * Minute\<rparr>"

text \<open>What one call meets outside: the clock at the freshness check, the JWKS endpoint's answer
  (asked only when the cache is not fresh), the clock after the fetch and at validation.\<close>

record 'k verify_env =
  ve_now :: time
  ve_fetch :: "string + 'k"
  ve_fetched :: time
  ve_validate :: time

datatype verify_error = ParseJWS string | NoSignature | UnexpectedAlg "string option"
  | UnexpectedTyp string | FetchJWKS string | VerifyToken string | AudienceMismatch | MissingTenant

definition keySet ::
  "'k verifier \<Rightarrow> 'k verify_env \<Rightarrow> (verify_error + 'k) \<times> 'k verifier" where
  "keySet v e = (case vf_set v of
      Some s \<Rightarrow>
        if ve_now e - vf_fetchedAt v < vf_ttl v then (Inr s, v)
        else (case ve_fetch e of
            Inl _ \<Rightarrow> (Inr s, v)
          | Inr k \<Rightarrow> (Inr k, v\<lparr>vf_set := Some k, vf_fetchedAt := ve_fetched e\<rparr>))
    | None \<Rightarrow> (case ve_fetch e of
            Inl err \<Rightarrow> (Inl (FetchJWKS err), v)
          | Inr k \<Rightarrow> (Inr k, v\<lparr>vf_set := Some k, vf_fetchedAt := ve_fetched e\<rparr>)))"

definition audienceMatch :: "string list \<Rightarrow> string list \<Rightarrow> bool" where
  "audienceMatch tokenAud expected =
     list_ex (\<lambda>want. list_ex (\<lambda>got. got = want) tokenAud) expected"

definition getActSubject :: "('k, 't) jwx \<Rightarrow> 't \<Rightarrow> string" where
  "getActSubject J tok = (case jx_obj J tok ''act'' of None \<Rightarrow> []
     | Some act \<Rightarrow> (case act ''sub'' of Some (AString s) \<Rightarrow> s | _ \<Rightarrow> []))"

definition getStringSlice :: "('k, 't) jwx \<Rightarrow> 't \<Rightarrow> string \<Rightarrow> string list" where
  "getStringSlice J tok name = (case jx_arr J tok name of None \<Rightarrow> []
     | Some raw \<Rightarrow> concat (map (\<lambda>v. case v of AString s \<Rightarrow> [s] | AOther \<Rightarrow> []) raw))"

definition claimsOf :: "('k, 't) jwx \<Rightarrow> 't \<Rightarrow> claims" where
  "claimsOf J tok = (let get = (\<lambda>n. orEmpty (jx_str J tok n)) in
     \<lparr>cl_Subject = orEmpty (jx_subject J tok),
      cl_TenantID = get ''tenant_id'',
      cl_Scope = get ''scope'',
      cl_Entitlements = getStringSlice J tok ''entitlements'',
      cl_AMR = getStringSlice J tok ''amr'',
      cl_ACR = get ''acr'',
      cl_Email = get ''email'',
      cl_ClientID = get ''client_id'',
      cl_PrincipalTypeClaim = get ''principal_type'',
      cl_ViaClaim = get ''via'',
      cl_InstallationID = get ''installation_id'',
      cl_AgentID = get ''agent_id'',
      cl_AgentVersion = get ''agent_version'',
      cl_ProviderID = get ''provider_id'',
      cl_Origin = get ''origin'',
      cl_Tier = get ''tier'',
      cl_ActSubject = getActSubject J tok\<rparr>)"

text \<open>The part of \<open>Verify\<close> after the key set is known.\<close>

definition verifyWith ::
  "('k, 't) jwx \<Rightarrow> 'k verifier \<Rightarrow> 'k \<Rightarrow> time \<Rightarrow> string \<Rightarrow> verify_error + claims" where
  "verifyWith J v k now raw = (case jx_parse_jwt J k (vf_issuer v) now raw of
      Inl err \<Rightarrow> Inl (VerifyToken err)
    | Inr tok \<Rightarrow>
        let tokAud = (case jx_audience J tok of None \<Rightarrow> [] | Some a \<Rightarrow> a) in
        if \<not> audienceMatch tokAud (vf_audiences v) then Inl AudienceMismatch
        else let c = claimsOf J tok in
          if cl_TenantID c = [] then Inl MissingTenant else Inr c)"

definition Verify ::
  "('k, 't) jwx \<Rightarrow> 'k verifier \<Rightarrow> 'k verify_env \<Rightarrow> string \<Rightarrow> (verify_error + claims) \<times> 'k verifier"
where
  "Verify J v e raw = (case jx_parse_jws J raw of
      Inl err \<Rightarrow> (Inl (ParseJWS err), v)
    | Inr [] \<Rightarrow> (Inl NoSignature, v)
    | Inr (h # _) \<Rightarrow>
        if hdr_alg h \<noteq> Some ''EdDSA'' then (Inl (UnexpectedAlg (hdr_alg h)), v)
        else if orEmpty (hdr_typ h) \<noteq> ''at+jwt'' then (Inl (UnexpectedTyp (orEmpty (hdr_typ h))), v)
        else (case keySet v e of
            (Inl err, v') \<Rightarrow> (Inl err, v')
          | (Inr k, v') \<Rightarrow> (verifyWith J v' k (ve_validate e) raw, v')))"

section \<open>The interceptor\<close>

definition healthFullMethod :: string where
  "healthFullMethod = ''/grpc.health.v1.Health/Check''"

datatype auth_error = MissingMetadata | MissingAuthorization | NotBearer | BadToken verify_error

text \<open>Every rejection of the interceptor carries the same code.\<close>

definition authCode :: "auth_error \<Rightarrow> code" where
  "authCode _ = Unauthenticated"

definition bearerOf :: "string \<Rightarrow> string option" where
  "bearerOf value = (if prefix ''Bearer '' value then Some (drop (length ''Bearer '') value) else None)"

text \<open>The context \<open>UnaryServerInterceptor\<close> hands to the handler, or the error it answers.\<close>

definition intercept ::
  "('k, 't) jwx \<Rightarrow> 'k verifier \<Rightarrow> 'k verify_env \<Rightarrow> string \<Rightarrow> 'a auth_ctx_scheme
     \<Rightarrow> (auth_error + 'a auth_ctx_scheme) \<times> 'k verifier"
where
  "intercept J v e fullMethod ctx =
     (if fullMethod = healthFullMethod then (Inr ctx, v)
      else case ctx_incoming ctx of
        None \<Rightarrow> (Inl MissingMetadata, v)
      | Some md \<Rightarrow> (case mdGet md ''authorization'' of
          [] \<Rightarrow> (Inl MissingAuthorization, v)
        | value # _ \<Rightarrow> (case bearerOf value of
            None \<Rightarrow> (Inl NotBearer, v)
          | Some token \<Rightarrow> (case Verify J v e token of
              (Inl err, v') \<Rightarrow> (Inl (BadToken err), v')
            | (Inr c, v') \<Rightarrow> (Inr (ContextWithClaims ctx c), v')))))"

definition UnaryServerInterceptor ::
  "('k, 't) jwx \<Rightarrow> 'k verifier \<Rightarrow> 'k verify_env \<Rightarrow> string \<Rightarrow> 'a auth_ctx_scheme \<Rightarrow> 'req
     \<Rightarrow> ('a auth_ctx_scheme \<Rightarrow> 'req \<Rightarrow> 's \<Rightarrow> (code + 'resp) \<times> 's) \<Rightarrow> 's
     \<Rightarrow> (code + 'resp) \<times> 's \<times> 'k verifier"
where
  "UnaryServerInterceptor J v e fullMethod ctx req handler s =
     (case intercept J v e fullMethod ctx of
        (Inl err, v') \<Rightarrow> (Inl (authCode err), s, v')
      | (Inr ctx', v') \<Rightarrow> (case handler ctx' req s of (r, s') \<Rightarrow> (r, s', v')))"

section \<open>What an accepted token has passed\<close>

lemma audienceMatch_iff: "audienceMatch tokAud expected \<longleftrightarrow> set tokAud \<inter> set expected \<noteq> {}"
  by (auto simp: audienceMatch_def list_ex_iff)

lemma keySet_issuer [simp]:
  "vf_issuer (snd (keySet v e)) = vf_issuer v"
  "vf_audiences (snd (keySet v e)) = vf_audiences v"
  "vf_ttl (snd (keySet v e)) = vf_ttl v"
  by (auto simp: keySet_def split: option.split sum.split)

lemma verifyWith_Inr:
  "verifyWith J v k now raw = Inr c \<longleftrightarrow>
     (\<exists>tok aud. jx_parse_jwt J k (vf_issuer v) now raw = Inr tok \<and> jx_audience J tok = Some aud
        \<and> set aud \<inter> set (vf_audiences v) \<noteq> {} \<and> c = claimsOf J tok \<and> cl_TenantID c \<noteq> [])"
proof (cases "jx_parse_jwt J k (vf_issuer v) now raw")
  case (Inr tok)
  then show ?thesis
    by (cases "jx_audience J tok") (auto simp: verifyWith_def audienceMatch_iff Let_def)
qed (simp add: verifyWith_def)

lemma Verify_Inr:
  "fst (Verify J v e raw) = Inr c \<longleftrightarrow>
     (\<exists>h hs k tok aud. jx_parse_jws J raw = Inr (h # hs)
        \<and> hdr_alg h = Some ''EdDSA'' \<and> hdr_typ h = Some ''at+jwt''
        \<and> fst (keySet v e) = Inr k
        \<and> jx_parse_jwt J k (vf_issuer v) (ve_validate e) raw = Inr tok
        \<and> jx_audience J tok = Some aud \<and> set aud \<inter> set (vf_audiences v) \<noteq> {}
        \<and> c = claimsOf J tok \<and> cl_TenantID c \<noteq> [])"
proof (cases "jx_parse_jws J raw")
  case (Inr sigs)
  show ?thesis
  proof (cases sigs)
    case (Cons h hs)
    obtain r v' where kv: "keySet v e = (r, v')" by (cases "keySet v e") auto
    then have "vf_issuer v' = vf_issuer v" "vf_audiences v' = vf_audiences v"
      using keySet_issuer [of v e] by auto
    with Inr Cons kv show ?thesis
      by (cases r; cases "hdr_typ h") (auto simp: Verify_def verifyWith_Inr orEmpty_def)
  qed (simp add: Verify_def Inr)
qed (simp add: Verify_def)

lemma Verify_state:
  "snd (Verify J v e raw) = v \<or> snd (Verify J v e raw) = snd (keySet v e)"
  by (auto simp: Verify_def split: sum.split list.split prod.split)

lemma bearerOf_Some: "bearerOf value = Some tok \<longleftrightarrow> value = ''Bearer '' @ tok"
  by (auto simp: bearerOf_def prefix_def)

text \<open>
  What a bearer token has passed when the interceptor lets its claims through: its first signature is
  EdDSA and of type \<open>at+jwt\<close>, the library verified it against the key set in force and the
  configured issuer, one of its audiences is expected, and its tenant is not empty.
\<close>

definition acceptedToken :: "('k, 't) jwx \<Rightarrow> 'k verifier \<Rightarrow> 'k verify_env \<Rightarrow> string \<Rightarrow> claims \<Rightarrow> bool" where
  "acceptedToken J v e raw c \<longleftrightarrow> (\<exists>h hs k tok aud. jx_parse_jws J raw = Inr (h # hs)
     \<and> hdr_alg h = Some ''EdDSA'' \<and> hdr_typ h = Some ''at+jwt''
     \<and> fst (keySet v e) = Inr k
     \<and> jx_parse_jwt J k (vf_issuer v) (ve_validate e) raw = Inr tok
     \<and> jx_audience J tok = Some aud \<and> set aud \<inter> set (vf_audiences v) \<noteq> {}
     \<and> c = claimsOf J tok \<and> cl_TenantID c \<noteq> [])"

text \<open>The token of a call: the first value of its authorization header, which is a bearer.\<close>

definition bearerToken :: "'a auth_ctx_scheme \<Rightarrow> string option" where
  "bearerToken ctx = (case ctx_incoming ctx of
      None \<Rightarrow> None
    | Some md \<Rightarrow> (case mdGet md ''authorization'' of [] \<Rightarrow> None | value # _ \<Rightarrow> bearerOf value))"

lemma intercept_cases:
  assumes "m \<noteq> healthFullMethod"
  obtains (accepted) raw c v' where "bearerToken ctx = Some raw" "acceptedToken J v e raw c"
      "intercept J v e m ctx = (Inr (ContextWithClaims ctx c), v')"
  | (refused) err v' where "\<nexists>raw c. bearerToken ctx = Some raw \<and> acceptedToken J v e raw c"
      "intercept J v e m ctx = (Inl err, v')"
proof (cases "bearerToken ctx")
  case None
  then have "\<exists>err. intercept J v e m ctx = (Inl err, v)"
    using assms by (auto simp: intercept_def bearerToken_def split: option.splits list.splits)
  with None refused show ?thesis by auto
next
  case (Some raw)
  obtain r v' where V: "Verify J v e raw = (r, v')" by (cases "Verify J v e raw")
  have acc: "r = Inr c \<longleftrightarrow> acceptedToken J v e raw c" for c
    using Verify_Inr [of J v e raw c] by (simp add: V acceptedToken_def)
  have i: "intercept J v e m ctx = (case r of Inl err \<Rightarrow> (Inl (BadToken err), v') | Inr c \<Rightarrow> (Inr (ContextWithClaims ctx c), v'))"
    using assms Some by (auto simp: intercept_def bearerToken_def V split: option.splits list.splits sum.split)
  show ?thesis
  proof (cases r)
    case (Inl err)
    then have "\<nexists>c. acceptedToken J v e raw c" using acc by auto
    with Some i Inl show ?thesis by (intro refused) auto
  next
    case (Inr c)
    with Some i acc [of c] show ?thesis by (intro accepted) auto
  qed
qed

text \<open>
  C1. The interceptor calls a handler only with verified claims. For any handler and any state it may
  change, a call of a method other than the health check either carries a bearer token that passed
  every check of \<open>acceptedToken\<close>, and then it is exactly one run of the handler, on a context whose
  claims, tenant, subject and entitlements are that token's; or it carries none, and then it is
  answered \<open>Unauthenticated\<close> and the state is untouched, so no handler ran. The health check alone
  reaches the handler without a token, on the context as it came.
\<close>

theorem handler_sees_only_verified_claims:
  "if m = healthFullMethod then UnaryServerInterceptor J v e m ctx req handler s = (case handler ctx req s of (r, s') \<Rightarrow> (r, s', v))
   else (\<exists>raw c ctx' v'. bearerToken ctx = Some raw \<and> acceptedToken J v e raw c
            \<and> UnaryServerInterceptor J v e m ctx req handler s = (case handler ctx' req s of (r, s') \<Rightarrow> (r, s', v'))
            \<and> ClaimsFrom ctx' = Some c \<and> Tenant ctx' = cl_TenantID c
            \<and> Subject ctx' = cl_Subject c \<and> Entitlements ctx' = cl_Entitlements c)
        \<or> ((\<nexists>raw c. bearerToken ctx = Some raw \<and> acceptedToken J v e raw c)
            \<and> (\<exists>v'. UnaryServerInterceptor J v e m ctx req handler s = (Inl Unauthenticated, s, v')))"
proof (cases "m = healthFullMethod")
  case True
  then show ?thesis by (simp add: UnaryServerInterceptor_def intercept_def)
next
  case False
  from False show ?thesis
  proof (cases rule: intercept_cases [where J = J and v = v and e = e and ctx = ctx])
    case (accepted raw c v')
    then have "UnaryServerInterceptor J v e m ctx req handler s
        = (case handler (ContextWithClaims ctx c) req s of (r, s') \<Rightarrow> (r, s', v'))"
      by (simp add: UnaryServerInterceptor_def)
    with False accepted(1,2) ContextWithClaims_reads [of ctx c] show ?thesis
      by (simp only: if_False) blast
  next
    case (refused err v')
    then have "UnaryServerInterceptor J v e m ctx req handler s = (Inl Unauthenticated, s, v')"
      by (simp add: UnaryServerInterceptor_def authCode_def)
    with False refused(1) show ?thesis by (simp only: if_False) blast
  qed
qed

section \<open>The key set through an outage\<close>

text \<open>The verifier after a sequence of verifications, each with its own environment.\<close>

fun verifyRun ::
  "('k, 't) jwx \<Rightarrow> 'k verifier \<Rightarrow> ('k verify_env \<times> string) list \<Rightarrow> 'k verifier" where
  "verifyRun J v [] = v"
| "verifyRun J v ((e, raw) # calls) = verifyRun J (snd (Verify J v e raw)) calls"

lemma keySet_cached:
  assumes "vf_set v = Some k0"
  shows "\<exists>k. fst (keySet v e) = Inr k \<and> vf_set (snd (keySet v e)) = Some k
      \<and> (k = k0 \<or> ve_fetch e = Inr k)"
  using assms by (auto simp: keySet_def split: sum.split)

lemma verifyRun_set:
  assumes "vf_set v = Some k0"
  shows "\<exists>k. vf_set (verifyRun J v calls) = Some k \<and> (k = k0 \<or> Inr k \<in> (ve_fetch \<circ> fst) ` set calls)"
  using assms
proof (induction J v calls arbitrary: k0 rule: verifyRun.induct)
  case (2 J v e raw calls)
  have "\<exists>k. vf_set (snd (Verify J v e raw)) = Some k \<and> (k = k0 \<or> ve_fetch e = Inr k)"
    using Verify_state [of J v e raw] keySet_cached [OF 2(2), of e] 2(2) by auto
  then obtain k where k: "vf_set (snd (Verify J v e raw)) = Some k" "k = k0 \<or> ve_fetch e = Inr k"
    by blast
  from 2(1) [OF k(1)] k(2) show ?case by force
qed simp

text \<open>
  C39. Once a verifier holds a key set, no failure of the JWKS endpoint makes it fail for lack of
  keys: after any further calls the next one is served a key set, and it is the first one or one
  the endpoint published since, never anything else.
\<close>

theorem keySet_survives_outage:
  assumes "vf_set v = Some k0"
  shows "\<exists>k. fst (keySet (verifyRun J v calls) e) = Inr k
      \<and> (k = k0 \<or> Inr k \<in> (ve_fetch \<circ> fst) ` set calls \<or> ve_fetch e = Inr k)"
proof -
  from verifyRun_set [OF assms] obtain k where
    "vf_set (verifyRun J v calls) = Some k" "k = k0 \<or> Inr k \<in> (ve_fetch \<circ> fst) ` set calls"
    by blast
  then show ?thesis using keySet_cached [of "verifyRun J v calls" k e] by blast
qed

section \<open>A concrete library for the witnesses\<close>

text \<open>Key sets are lists of key ids, and a token is signed by the key its text ends with.\<close>

definition sample_jwx :: "(string list, string) jwx" where
  "sample_jwx = \<lparr>
     jx_parse_jws = (\<lambda>raw. Inr [\<lparr>hdr_alg = Some ''EdDSA'', hdr_typ = Some ''at+jwt''\<rparr>]),
     jx_parse_jwt = (\<lambda>ks iss now raw. if raw \<in> set ks then Inr raw else Inl ''unknown kid''),
     jx_subject = (\<lambda>tok. Some ''u-1''),
     jx_audience = (\<lambda>tok. Some [''core-billing'']),
     jx_str = (\<lambda>tok n. if n = ''tenant_id'' then Some ''acme'' else None),
     jx_arr = (\<lambda>tok n. None),
     jx_obj = (\<lambda>tok n. None)\<rparr>"

definition sample_verifier :: "string list verifier" where
  "sample_verifier = (NewVerifier ''https://auth/jwks'' ''https://auth'' [''core-billing''])
     \<lparr>vf_set := Some [''k1'']\<rparr>"

definition sample_env :: "string list verify_env" where
  "sample_env = \<lparr>ve_now = 0, ve_fetch = Inl ''timeout'', ve_fetched = 0, ve_validate = 0\<rparr>"

definition sample_ctx :: auth_ctx where
  "sample_ctx = \<lparr>ctx_tenant = None, ctx_subject = None, ctx_entitlements = None,
     ctx_incoming = Some [''authorization'' \<mapsto> [''Bearer k1'']], ctx_outgoing = [], ctx_claims = None\<rparr>"

lemmas sample_auth_defs = sample_jwx_def sample_verifier_def sample_env_def sample_ctx_def
  NewVerifier_def

lemma sample_intercept:
  "fst (intercept sample_jwx sample_verifier sample_env ''/m'' sample_ctx)
     = Inr (ContextWithClaims sample_ctx (claimsOf sample_jwx ''k1''))"
  by (simp add: intercept_def sample_auth_defs mdGet_def bearerOf_def Verify_def keySet_def
      verifyWith_def audienceMatch_def claimsOf_def orEmpty_def healthFullMethod_def duration_defs)

theorem handler_sees_only_verified_claims_witness:
  "\<exists>c. acceptedToken sample_jwx sample_verifier sample_env ''k1'' c \<and> cl_TenantID c \<noteq> []"
proof -
  have "bearerToken sample_ctx = Some ''k1''"
    by (simp add: bearerToken_def sample_ctx_def mdGet_def bearerOf_def)
  moreover have "fst (UnaryServerInterceptor sample_jwx sample_verifier sample_env ''/m'' sample_ctx ()
      (\<lambda>ctx req s. (Inr (Tenant ctx), s)) ()) \<noteq> Inl Unauthenticated"
    using sample_intercept by (auto simp: UnaryServerInterceptor_def split: prod.splits sum.splits)
  ultimately show ?thesis
    using handler_sees_only_verified_claims [of "''/m''" sample_jwx sample_verifier sample_env sample_ctx "()"
        "\<lambda>ctx req s. (Inr (Tenant ctx), s)" "()"]
    by (auto simp: healthFullMethod_def acceptedToken_def)
qed

theorem keySet_survives_outage_witness:
  "\<exists>k. fst (keySet (verifyRun sample_jwx sample_verifier [(sample_env, ''k1'')])
      (sample_env\<lparr>ve_now := Hour\<rparr>)) = Inr k"
  using keySet_survives_outage [of sample_verifier "[''k1'']" sample_jwx "[(sample_env, ''k1'')]"
      "sample_env\<lparr>ve_now := Hour\<rparr>"]
  by (auto simp: sample_verifier_def NewVerifier_def)

end
