(* ===== verification/Auth_Service.thy ===== *)
theory Auth_Service
  imports Auth_Claims
begin

text \<open>
  The service identity of a Core (\<open>src/auth/service.go\<close>): client-credentials tokens minted per
  tenant and audience, cached, and \<open>Outgoing\<close>, which forwards a caller's bearer or mints one
  when there is nobody behind the call. The token endpoint is a parameter: a function from the
  form the kit sends to what comes back.
\<close>

section \<open>Credentials and the request\<close>

record credentials =
  sc_TokenURL :: string
  sc_ClientID :: string
  sc_ClientSecret :: string
  sc_Scope :: string

definition Configured :: "credentials \<Rightarrow> bool" where
  "Configured c \<longleftrightarrow> sc_TokenURL c \<noteq> [] \<and> sc_ClientID c \<noteq> [] \<and> sc_ClientSecret c \<noteq> []"

record token_request =
  tr_url :: string
  tr_form :: "(string \<times> string) list"
  tr_user :: string
  tr_password :: string

text \<open>What the endpoint answers: no response, a body that is not JSON, or the decoded fields.\<close>

datatype token_answer = Unreachable string | Unreadable nat string
  | Answered (ta_status: nat) (ta_access_token: string) (ta_expires_in: int) (ta_error: string)
      (ta_description: string)

datatype service_error = NotConfigured | NoTenantForToken | TokenTransport string
  | TokenUnreadable nat string | TokenRefused nat string string

record cached_token =
  ct_token :: string
  ct_exp :: time

record service_tokens =
  st_cfg :: credentials
  st_cache :: "string \<rightharpoonup> cached_token"

definition NewServiceTokens :: "credentials \<Rightarrow> service_tokens option" where
  "NewServiceTokens cfg =
     (if Configured cfg then Some \<lparr>st_cfg = cfg, st_cache = Map.empty\<rparr> else None)"

definition tokenRequest :: "credentials \<Rightarrow> string \<Rightarrow> string \<Rightarrow> token_request" where
  "tokenRequest cfg tenantID audience = \<lparr>tr_url = sc_TokenURL cfg,
     tr_form = [(''grant_type'', ''client_credentials''), (''tenant_id'', tenantID)]
       @ (if audience \<noteq> [] then [(''audience'', audience)] else [])
       @ (if sc_Scope cfg \<noteq> [] then [(''scope'', sc_Scope cfg)] else []),
     tr_user = sc_ClientID cfg, tr_password = sc_ClientSecret cfg\<rparr>"

text \<open>\<open>time.Duration(out.ExpiresIn) * time.Second\<close> is an \<open>int64\<close> product.\<close>

definition mint ::
  "service_tokens \<Rightarrow> (token_request \<Rightarrow> token_answer) \<Rightarrow> string \<Rightarrow> string
     \<Rightarrow> service_error + string \<times> duration" where
  "mint s idp tenantID audience = (case idp (tokenRequest (st_cfg s) tenantID audience) of
      Unreachable err \<Rightarrow> Inl (TokenTransport err)
    | Unreadable st err \<Rightarrow> Inl (TokenUnreadable st err)
    | Answered st tok expires err desc \<Rightarrow>
        if st \<noteq> 200 \<or> tok = [] then Inl (TokenRefused st err desc)
        else Inr (tok, wrap64 (expires * Second)))"

definition cacheKey :: "string \<Rightarrow> string \<Rightarrow> string" where
  "cacheKey tenantID audience = tenantID @ CHR 0x00 # audience"

text \<open>What one call meets outside: the clock at the cache lookup, the endpoint, and the clock when
  the new token is cached.\<close>

record token_env =
  te_now :: time
  te_idp :: "token_request \<Rightarrow> token_answer"
  te_minted :: time

definition Token ::
  "service_tokens option \<Rightarrow> token_env \<Rightarrow> string \<Rightarrow> string
     \<Rightarrow> (service_error + string) \<times> service_tokens option" where
  "Token os e tenantID audience = (case os of
      None \<Rightarrow> (Inl NotConfigured, None)
    | Some s \<Rightarrow>
        if tenantID = [] then (Inl NoTenantForToken, Some s)
        else let key = cacheKey tenantID audience;
                 miss = (case mint s (te_idp e) tenantID audience of
                     Inl err \<Rightarrow> (Inl err, Some s)
                   | Inr (token, ttl) \<Rightarrow>
                       let ttl' = (if ttl < Minute then Minute else ttl) in
                       (Inr token, Some (s\<lparr>st_cache := (st_cache s)(key \<mapsto>
                          \<lparr>ct_token = token, ct_exp = te_minted e + (ttl' - 30 * Second)\<rparr>)\<rparr>)))
             in case st_cache s key of
                 Some c \<Rightarrow> if te_now e < ct_exp c then (Inr (ct_token c), Some s) else miss
               | None \<Rightarrow> miss)"

section \<open>Outgoing calls\<close>

definition appendOutgoing :: "'a ctx_scheme \<Rightarrow> string \<Rightarrow> string \<Rightarrow> 'a ctx_scheme" where
  "appendOutgoing ctx k v = ctx\<lparr>ctx_outgoing := ctx_outgoing ctx @ [(k, v)]\<rparr>"

text \<open>The bearer of the incoming call, if there is one.\<close>

definition incomingBearer :: "'a ctx_scheme \<Rightarrow> string option" where
  "incomingBearer ctx = (case ctx_incoming ctx of None \<Rightarrow> None
     | Some md \<Rightarrow> (case mdGet md ''authorization'' of [] \<Rightarrow> None | b # _ \<Rightarrow> Some b))"

definition Outgoing ::
  "service_tokens option \<Rightarrow> token_env \<Rightarrow> 'a ctx_scheme \<Rightarrow> string
     \<Rightarrow> (service_error + 'a ctx_scheme) \<times> service_tokens option" where
  "Outgoing tokens e ctx audience = (case incomingBearer ctx of
      Some bearer \<Rightarrow> (Inr (appendOutgoing ctx ''authorization'' bearer), tokens)
    | None \<Rightarrow> (case tokens of
        None \<Rightarrow> (Inr ctx, None)
      | Some s \<Rightarrow> (case Token tokens e (Tenant ctx) audience of
          (Inl err, ts') \<Rightarrow> (Inl err, ts')
        | (Inr tok, ts') \<Rightarrow> (Inr (appendOutgoing ctx ''authorization'' (''Bearer '' @ tok)), ts'))))"

section \<open>Tokens never cross tenants or audiences\<close>

lemma cacheKey_inj:
  assumes "CHR 0x00 \<notin> set t" and "CHR 0x00 \<notin> set t'"
  shows "cacheKey t a = cacheKey t' a' \<longleftrightarrow> t = t' \<and> a = a'"
proof
  assume "cacheKey t a = cacheKey t' a'"
  then have eq: "t @ CHR 0x00 # a = t' @ CHR 0x00 # a'" by (simp add: cacheKey_def)
  then have "cutBefore (CHR 0x00) (t @ CHR 0x00 # a) = cutBefore (CHR 0x00) (t' @ CHR 0x00 # a')"
    by simp
  then have "t = t'" by (simp only: cutBefore_append_sep [OF assms(1)] cutBefore_append_sep [OF assms(2)])
  with eq show "t = t' \<and> a = a'" by simp
qed simp

text \<open>A call of \<open>Token\<close>, and the state after a sequence of them.\<close>

type_synonym token_call = "token_env \<times> string \<times> string"

fun tokenRun :: "service_tokens option \<Rightarrow> token_call list \<Rightarrow> service_tokens option" where
  "tokenRun os [] = os"
| "tokenRun os ((e, t, a) # calls) = tokenRun (snd (Token os e t a)) calls"

text \<open>The endpoint of some call of the sequence answered the request for this tenant and
  audience with this token.\<close>

definition mintedFor :: "credentials \<Rightarrow> token_call list \<Rightarrow> string \<Rightarrow> string \<Rightarrow> string \<Rightarrow> bool" where
  "mintedFor cfg calls t a tok \<longleftrightarrow> list_ex (\<lambda>(e, t', a'). t' = t \<and> a' = a \<and>
     (case te_idp e (tokenRequest cfg t a) of Answered st tok' _ _ _ \<Rightarrow> st = 200 \<and> tok' = tok
        | _ \<Rightarrow> False)) calls"

definition cacheOK :: "credentials \<Rightarrow> token_call list \<Rightarrow> service_tokens \<Rightarrow> bool" where
  "cacheOK cfg calls s \<longleftrightarrow> st_cfg s = cfg \<and>
     (\<forall>k c. st_cache s k = Some c \<longrightarrow>
        (\<exists>t a. CHR 0x00 \<notin> set t \<and> k = cacheKey t a \<and> mintedFor cfg calls t a (ct_token c)))"

lemma mintedFor_append:
  "mintedFor cfg (xs @ ys) t a tok \<longleftrightarrow> mintedFor cfg xs t a tok \<or> mintedFor cfg ys t a tok"
  by (simp add: mintedFor_def)

lemma mint_minted:
  "mint s (te_idp e) t a = Inr (tok, ttl) \<Longrightarrow> mintedFor (st_cfg s) [(e, t, a)] t a tok"
  by (auto simp: mint_def mintedFor_def split: token_answer.splits if_splits)

text \<open>The three ways a call ends: an error, a cached token, a new one.\<close>

lemma Token_cases:
  obtains
    (fail) err where "Token (Some s) e t a = (Inl err, Some s)"
  | (hit) c where "st_cache s (cacheKey t a) = Some c" "te_now e < ct_exp c"
      "Token (Some s) e t a = (Inr (ct_token c), Some s)"
  | (miss) tok ttl where "mint s (te_idp e) t a = Inr (tok, ttl)"
      "Token (Some s) e t a = (Inr tok, Some (s\<lparr>st_cache := (st_cache s)(cacheKey t a \<mapsto>
         \<lparr>ct_token = tok, ct_exp = te_minted e + (max ttl Minute - 30 * Second)\<rparr>)\<rparr>))"
proof (cases "t = []")
  case True
  then show ?thesis using fail by (simp add: Token_def)
next
  case False
  show ?thesis
  proof (cases "\<exists>c. st_cache s (cacheKey t a) = Some c \<and> te_now e < ct_exp c")
    case True
    with False show ?thesis using hit by (auto simp: Token_def Let_def)
  next
    case stale: False
    show ?thesis
    proof (cases "mint s (te_idp e) t a")
      case (Inl err)
      with False stale show ?thesis
        by (intro fail [of err]) (auto simp: Token_def Let_def split: option.split)
    next
      case (Inr p)
      obtain tok ttl where p: "p = (tok, ttl)" by (cases p)
      have "(if ttl < Minute then Minute else ttl) = max ttl Minute" by (simp add: max_def)
      with False stale Inr p show ?thesis
        by (intro miss [of tok ttl]) (auto simp: Token_def Let_def split: option.split)
    qed
  qed
qed

lemma Token_step:
  assumes inv: "cacheOK cfg calls s" and nul: "CHR 0x00 \<notin> set t"
  shows "\<exists>s'. snd (Token (Some s) e t a) = Some s' \<and> cacheOK cfg (calls @ [(e, t, a)]) s'
    \<and> (\<forall>tok. fst (Token (Some s) e t a) = Inr tok \<longrightarrow> mintedFor cfg (calls @ [(e, t, a)]) t a tok)"
proof -
  have cfg: "st_cfg s = cfg" using inv by (simp add: cacheOK_def)
  have keep: "cacheOK cfg (calls @ [(e, t, a)]) s"
    using inv by (fastforce simp: cacheOK_def mintedFor_append)
  show ?thesis
  proof (cases rule: Token_cases [where s = s and e = e and t = t and a = a])
    case (hit c)
    from keep hit(1) obtain t' a' where t': "CHR 0x00 \<notin> set t'" "cacheKey t a = cacheKey t' a'"
      and minted: "mintedFor cfg (calls @ [(e, t, a)]) t' a' (ct_token c)"
      unfolding cacheOK_def by blast
    from cacheKey_inj [OF nul t'(1)] t'(2) have "t' = t" "a' = a" by auto
    with minted have "mintedFor cfg (calls @ [(e, t, a)]) t a (ct_token c)" by simp
    with keep hit(3) show ?thesis by simp
  next
    case (miss tok ttl)
    have fresh: "mintedFor cfg (calls @ [(e, t, a)]) t a tok"
      using mint_minted [OF miss(1)] by (simp add: cfg mintedFor_append)
    have "cacheOK cfg (calls @ [(e, t, a)]) (s\<lparr>st_cache := (st_cache s)(cacheKey t a \<mapsto> c)\<rparr>)"
      if "ct_token c = tok" for c
      using keep fresh nul that unfolding cacheOK_def by auto
    with fresh miss(2) show ?thesis by simp
  qed (simp add: keep)
qed

lemma tokenRun_inv:
  assumes "cacheOK cfg pre s" and "\<forall>(e, t, a) \<in> set calls. CHR 0x00 \<notin> set t"
  shows "\<exists>s'. tokenRun (Some s) calls = Some s' \<and> cacheOK cfg (pre @ calls) s'"
  using assms
proof (induction calls arbitrary: s pre)
  case (Cons call calls)
  obtain e t a where call: "call = (e, t, a)" by (cases call)
  with Cons.prems have nul: "CHR 0x00 \<notin> set t" by auto
  from Token_step [OF Cons.prems(1) nul, of e a] obtain s1 where
    s1: "snd (Token (Some s) e t a) = Some s1" "cacheOK cfg (pre @ [(e, t, a)]) s1"
    by blast
  from Cons.IH [OF s1(2)] Cons.prems(2) s1(1) show ?case by (auto simp: call)
qed auto

text \<open>
  C12. A service token never crosses a tenant or an audience: whatever sequence of calls a fresh
  source has served, a token it returns for a tenant and an audience was answered by the token
  endpoint, in one of those calls or in this one, to the form that names exactly that tenant and
  that audience. (A tenant id holds no NUL byte: it is a slug of the platform.)
\<close>

theorem Token_never_crosses:
  assumes "NewServiceTokens cfg = Some s0"
    and nul: "\<forall>(e, t, a) \<in> set calls. CHR 0x00 \<notin> set t" "CHR 0x00 \<notin> set t"
    and tok: "fst (Token (tokenRun (Some s0) calls) e t a) = Inr tok"
  shows "mintedFor cfg (calls @ [(e, t, a)]) t a tok"
proof -
  have "cacheOK cfg [] s0"
    using assms(1) by (auto simp: NewServiceTokens_def cacheOK_def split: if_splits)
  from tokenRun_inv [OF this nul(1)] obtain s where
    s: "tokenRun (Some s0) calls = Some s" "cacheOK cfg calls s" by auto
  from Token_step [OF s(2) nul(2)] tok s(1) show ?thesis by auto
qed

section \<open>How long a token is reused\<close>

lemma Token_mint:
  assumes "st_cache s (cacheKey t a) = None" and "t \<noteq> []"
    and "mint s (te_idp e) t a = Inr (tok, ttl)"
  shows "Token (Some s) e t a = (Inr tok, Some (s\<lparr>st_cache := (st_cache s)(cacheKey t a \<mapsto>
         \<lparr>ct_token = tok, ct_exp = te_minted e + (max ttl Minute - 30 * Second)\<rparr>)\<rparr>))"
  using assms by (simp add: Token_def Let_def max_def)

text \<open>
  The reuse window. After minting a token that lives \<open>n\<close> seconds (within \<open>int64\<close>) at time
  \<open>T\<close>, a call at time \<open>u\<close> is answered from the cache, whatever the endpoint would say, exactly
  when \<open>u < T + max (n s) (1 min) - 30 s\<close>: until 30 s before it expires when it lives a minute or
  more, but for a whole half minute when it lives less, so a token of less than 30 s is still
  handed out at the instant it expires.
\<close>

theorem Token_reuse_window:
  assumes "st_cache s (cacheKey t a) = None" and "t \<noteq> []" and "tok \<noteq> []"
    and "0 \<le> n" and "n \<le> 9223372036"
    and "te_idp e (tokenRequest (st_cfg s) t a) = Answered 200 tok n err desc"
    and "te_idp e' = (\<lambda>_. Unreachable m)"
  shows "fst (Token (snd (Token (Some s) e t a)) e' t a) =
      (if te_now e' < te_minted e + (max (n * Second) Minute - 30 * Second) then Inr tok
       else Inl (TokenTransport m))
    \<and> (n < 30 \<and> te_now e' = te_minted e + n * Second \<longrightarrow>
         fst (Token (snd (Token (Some s) e t a)) e' t a) = Inr tok)"
proof -
  have "wrap64 (n * Second) = n * Second"
    using assms(4,5) by (intro wrap64_id) (auto simp: duration_defs)
  then have "mint s (te_idp e) t a = Inr (tok, n * Second)"
    using assms(3,6) by (simp add: mint_def)
  from Token_mint [OF assms(1,2) this] assms(2,7) show ?thesis
    by (auto simp: Token_def Let_def mint_def duration_defs)
qed

section \<open>Whose identity goes out\<close>

text \<open>
  A service identity never replaces a person's: when the incoming call carries a bearer,
  exactly that bearer goes out, whatever tokens this Core could mint, and its token source is not
  touched; a service token goes out only when there is none.
\<close>

theorem Outgoing_forwards_the_caller:
  "(incomingBearer ctx = Some b \<longrightarrow>
      Outgoing tokens e ctx aud = (Inr (appendOutgoing ctx ''authorization'' b), tokens)) \<and>
   (fst (Outgoing tokens e ctx aud) = Inr ctx' \<and> incomingBearer ctx = None \<longrightarrow>
      (tokens = None \<and> ctx' = ctx) \<or>
      (\<exists>tok. fst (Token tokens e (Tenant ctx) aud) = Inr tok \<and>
         ctx' = appendOutgoing ctx ''authorization'' (''Bearer '' @ tok)))"
  by (auto simp: Outgoing_def split: option.splits prod.splits sum.splits)

section \<open>Witnesses\<close>

definition sample_credentials :: credentials where
  "sample_credentials = \<lparr>sc_TokenURL = ''https://auth/oauth/token'', sc_ClientID = ''core-billing'',
     sc_ClientSecret = ''s'', sc_Scope = ''core.read''\<rparr>"

definition sample_idp :: "token_request \<Rightarrow> token_answer" where
  "sample_idp r = Answered 200 (concat (map snd (tr_form r))) 10 [] []"

definition sample_tenv :: token_env where
  "sample_tenv = \<lparr>te_now = 0, te_idp = sample_idp, te_minted = 0\<rparr>"

definition sample_source :: service_tokens where
  "sample_source = \<lparr>st_cfg = sample_credentials, st_cache = Map.empty\<rparr>"

lemmas sample_service_defs = sample_credentials_def sample_idp_def sample_tenv_def sample_source_def

lemma sample_new: "NewServiceTokens sample_credentials = Some sample_source"
  by (simp add: NewServiceTokens_def Configured_def sample_service_defs)

theorem Token_never_crosses_witness:
  "\<exists>tok. mintedFor sample_credentials [(sample_tenv, ''acme'', ''core-a''), (sample_tenv, ''acme'', ''core-a'')]
     ''acme'' ''core-a'' tok"
proof -
  obtain tok where
    "fst (Token (tokenRun (Some sample_source) [(sample_tenv, ''acme'', ''core-a'')])
       sample_tenv ''acme'' ''core-a'') = Inr tok"
    by (simp add: Token_def mint_def tokenRequest_def sample_service_defs Let_def duration_defs)
  from Token_never_crosses [OF sample_new _ _ this] show ?thesis by auto
qed

theorem Token_reuse_window_witness:
  "fst (Token (snd (Token (Some sample_source) sample_tenv ''acme'' []))
     (sample_tenv\<lparr>te_now := 20 * Second, te_idp := (\<lambda>_. Unreachable [])\<rparr>) ''acme'' [])
   = Inr ''client_credentialsacmecore.read''"
  using Token_reuse_window [of sample_source "''acme''" "[]" "''client_credentialsacmecore.read''" 10
      sample_tenv "[]" "[]" "sample_tenv\<lparr>te_now := 20 * Second, te_idp := (\<lambda>_. Unreachable [])\<rparr>" "[]"]
  by (simp add: tokenRequest_def sample_service_defs duration_defs)

theorem Outgoing_forwards_the_caller_witness:
  "\<exists>ctx'. fst (Outgoing (Some sample_source) sample_tenv
     (background\<lparr>ctx_incoming := Some [''authorization'' \<mapsto> [''Bearer u'']]\<rparr>) ''core-a'') = Inr ctx'
     \<and> ctx_outgoing ctx' = [(''authorization'', ''Bearer u'')]"
  using Outgoing_forwards_the_caller [of
      "background\<lparr>ctx_incoming := Some [''authorization'' \<mapsto> [''Bearer u'']]\<rparr>" "''Bearer u''"]
  by (simp add: incomingBearer_def mdGet_def background_def appendOutgoing_def)

end
