(* ===== verification/Rate_Limit.thy ===== *)
theory Rate_Limit
  imports Auth_Claims Complex_Main
begin

text \<open>
  The per-tenant rate limit (\<open>src/ratelimit/ratelimit.go\<close>). The token bucket is
  \<open>golang.org/x/time/rate\<close>: \<open>new_bucket\<close> (\<open>NewLimiter\<close>) and \<open>takeTok\<close> (\<open>AllowN(now, 1)\<close>) are parameters.
  A call takes the mutex to find its bucket and the bucket has its own lock, so a run of calls is a
  sequence of \<open>Allow\<close> steps, each with the time it read. Rates are only compared with zero here and
  handed to the bucket, so they are rationals.
\<close>

record limit =
  lm_Rate :: rat
  lm_Burst :: int

record rate_config =
  rc_User :: limit
  rc_Service :: limit
  rc_Agent :: limit

definition DefaultConfig :: rate_config where
  "DefaultConfig = \<lparr>rc_User = \<lparr>lm_Rate = 50, lm_Burst = 100\<rparr>,
     rc_Service = \<lparr>lm_Rate = 200, lm_Burst = 400\<rparr>, rc_Agent = \<lparr>lm_Rate = 5, lm_Burst = 10\<rparr>\<rparr>"

type_synonym bucket_key = "string \<times> string"

record 'b limiter =
  li_cfg :: rate_config
  li_buckets :: "bucket_key \<rightharpoonup> 'b"

definition NewLimiter :: "rate_config \<Rightarrow> 'b limiter" where
  "NewLimiter cfg = \<lparr>li_cfg = cfg, li_buckets = Map.empty\<rparr>"

definition limitFor :: "rate_config \<Rightarrow> string \<Rightarrow> limit" where
  "limitFor cfg ptype = (if ptype = PrincipalUser then rc_User cfg
     else if ptype = PrincipalService then rc_Service cfg else rc_Agent cfg)"

type_synonym 'b new_bucket = "rat \<Rightarrow> int \<Rightarrow> 'b"
type_synonym 'b takeTok = "'b \<Rightarrow> time \<Rightarrow> bool \<times> 'b"

definition AllowCall ::
    "'b new_bucket \<Rightarrow> 'b takeTok \<Rightarrow> 'b limiter \<Rightarrow> time \<Rightarrow> string \<Rightarrow> string \<Rightarrow> bool \<times> 'b limiter" where
  "AllowCall new_bucket takeTok l now tenant ptype =
     (let lim = limitFor (li_cfg l) ptype; k = (tenant, ptype) in
      if lm_Rate lim \<le> 0 then (True, l)
      else
        let b = (case li_buckets l k of
                   None \<Rightarrow> new_bucket (lm_Rate lim) (if lm_Burst lim < 1 then 1 else lm_Burst lim)
                 | Some b \<Rightarrow> b)
        in case takeTok b now of (allowed, b') \<Rightarrow> (allowed, l\<lparr>li_buckets := (li_buckets l)(k \<mapsto> b')\<rparr>))"

datatype 'e rate_error = TooManyRequests string | HandlerFailed 'e

fun rateCode :: "'e rate_error \<Rightarrow> code option" where
  "rateCode (TooManyRequests ptype) = Some ResourceExhausted"
| "rateCode (HandlerFailed e) = None"

text \<open>\<open>Unary\<close>. The handler is a function of the context and of a state that it changes.\<close>

definition callHandler :: "('c \<Rightarrow> 's \<Rightarrow> ('e + 'r) \<times> 's) \<Rightarrow> 'c \<Rightarrow> 's \<Rightarrow> ('e rate_error + 'r) \<times> 's" where
  "callHandler handler ctx s = (case handler ctx s of
      (Inl e, s') \<Rightarrow> (Inl (HandlerFailed e), s')
    | (Inr r, s') \<Rightarrow> (Inr r, s'))"

definition limitUnary ::
    "'b new_bucket \<Rightarrow> 'b takeTok \<Rightarrow> 'b limiter \<Rightarrow> time \<Rightarrow> 'a auth_ctx_scheme
       \<Rightarrow> ('a auth_ctx_scheme \<Rightarrow> 's \<Rightarrow> ('e + 'r) \<times> 's) \<Rightarrow> 's \<Rightarrow> (('e rate_error + 'r) \<times> 's) \<times> 'b limiter" where
  "limitUnary new_bucket takeTok l now ctx handler s =
     (case ClaimsFrom ctx of
        None \<Rightarrow> (callHandler handler ctx s, l)
      | Some c \<Rightarrow>
          (case AllowCall new_bucket takeTok l now (cl_TenantID c) (PrincipalType (Some c)) of (allowed, l') \<Rightarrow>
             if \<not> allowed then ((Inl (TooManyRequests (PrincipalType (Some c))), s), l')
             else (callHandler handler ctx s, l')))"

section \<open>Runs of calls\<close>

fun allowRun ::
    "'b new_bucket \<Rightarrow> 'b takeTok \<Rightarrow> 'b limiter \<Rightarrow> (bucket_key \<times> time) list \<Rightarrow> (bucket_key \<times> bool) list" where
  "allowRun nb tk l [] = []"
| "allowRun nb tk l ((k, now) # calls) =
     (case AllowCall nb tk l now (fst k) (snd k) of (allowed, l') \<Rightarrow>
        (k, allowed) # allowRun nb tk l' calls)"

fun bucketRun :: "'b takeTok \<Rightarrow> 'b \<Rightarrow> time list \<Rightarrow> bool list" where
  "bucketRun tk b [] = []"
| "bucketRun tk b (now # ts) = (case tk b now of (allowed, b') \<Rightarrow> allowed # bucketRun tk b' ts)"

definition bucketFor :: "'b new_bucket \<Rightarrow> 'b limiter \<Rightarrow> bucket_key \<Rightarrow> 'b" where
  "bucketFor nb l k = (case li_buckets l k of
       None \<Rightarrow> nb (lm_Rate (limitFor (li_cfg l) (snd k))) (max 1 (lm_Burst (limitFor (li_cfg l) (snd k))))
     | Some b \<Rightarrow> b)"

lemma AllowCall_bucket:
  "AllowCall nb tk l now (fst k) (snd k) =
     (if lm_Rate (limitFor (li_cfg l) (snd k)) \<le> 0 then (True, l)
      else (fst (tk (bucketFor nb l k) now),
            l\<lparr>li_buckets := (li_buckets l)(k \<mapsto> snd (tk (bucketFor nb l k) now))\<rparr>))"
  by (auto simp: AllowCall_def bucketFor_def Let_def max_def split: option.splits prod.splits)

lemma bucketFor_upd:
  "bucketFor nb (l\<lparr>li_buckets := (li_buckets l)(k' \<mapsto> b)\<rparr>) k = (if k = k' then b else bucketFor nb l k)"
  by (auto simp: bucketFor_def split: option.split)

lemma allowRun_key:
  "map snd (filter (\<lambda>r. fst r = k) (allowRun nb tk l calls)) =
     (if lm_Rate (limitFor (li_cfg l) (snd k)) \<le> 0
      then map (\<lambda>_. True) (filter (\<lambda>c. fst c = k) calls)
      else bucketRun tk (bucketFor nb l k) (map snd (filter (\<lambda>c. fst c = k) calls)))"
proof (induction calls arbitrary: l)
  case (Cons call calls)
  obtain k' now where call: "call = (k', now)" by (cases call)
  show ?case
    by (cases "lm_Rate (limitFor (li_cfg l) (snd k')) \<le> 0"; cases "k' = k")
      (simp_all add: call AllowCall_bucket Cons.IH bucketFor_upd split: prod.split)
qed simp

text \<open>
  C35. Tenants and principal types do not share a bucket: what a (tenant, type) pair is answered in
  a run of calls is exactly the run of one bucket of its own, with the shape its type is configured
  (the agent's for a type the kit does not know, a burst of at least one), fed with its own calls
  only; a type whose rate is not positive is never refused. No other caller can use up its tokens.
\<close>

theorem limits_are_isolated:
  "map snd (filter (\<lambda>r. fst r = (tenant, ptype)) (allowRun nb tk (NewLimiter cfg) calls)) =
     (let own = map snd (filter (\<lambda>c. fst c = (tenant, ptype)) calls);
          lim = (if ptype = ''user'' then rc_User cfg else if ptype = ''service'' then rc_Service cfg
                 else rc_Agent cfg)
      in if lm_Rate lim \<le> 0 then map (\<lambda>_. True) own
         else bucketRun tk (nb (lm_Rate lim) (max 1 (lm_Burst lim))) own)"
  by (simp add: allowRun_key NewLimiter_def bucketFor_def limitFor_def principal_defs Let_def comp_def)

end
