(* ===== verification/Idempotency.thy ===== *)
theory Idempotency
  imports Auth_Claims Capabilities
begin

text \<open>
  Idempotency keys (\<open>src/idempotency/idempotency.go\<close>). The key table of \<open>Migration\<close> is a map from
  its primary key to the row; each SQL statement of the source is a definition over it, returning the
  rows it affected, and takes the time \<open>now()\<close> had when it ran. A statement may fail instead, and
  then it left the table alone. SHA-256, the protobuf marshaller and its \<open>Any\<close> registry are
  parameters. The interceptor first as the code runs it, then the same statements interleaved by
  concurrent requests.
\<close>

section \<open>The interceptor's configuration and what is a write\<close>

definition DefaultTTL :: duration where "DefaultTTL = 72 * Hour"
definition DefaultStaleAfter :: duration where "DefaultStaleAfter = 10 * Minute"
definition MaxKeyLength :: nat where "MaxKeyLength = 255"
definition MetadataKey :: string where "MetadataKey = ''idempotency-key''"

definition statusInProgress :: string where "statusInProgress = ''in_progress''"
definition statusCompleted :: string where "statusCompleted = ''completed''"

lemmas status_defs = statusInProgress_def statusCompleted_def

lemma status_distinct [simp]:
  "statusInProgress \<noteq> statusCompleted" "statusCompleted \<noteq> statusInProgress"
  by (simp_all add: status_defs)

record interceptor =
  ii_methods :: "(string \<rightharpoonup> string) option"
  ii_ttl :: duration
  ii_staleAfter :: duration

datatype interceptor_option = TTL duration | StaleAfter duration

fun applyInterceptorOption :: "interceptor \<Rightarrow> interceptor_option \<Rightarrow> interceptor" where
  "applyInterceptorOption i (TTL d) = i\<lparr>ii_ttl := d\<rparr>"
| "applyInterceptorOption i (StaleAfter d) = i\<lparr>ii_staleAfter := d\<rparr>"

definition NewInterceptor ::
    "(string \<rightharpoonup> string) option \<Rightarrow> interceptor_option list \<Rightarrow> interceptor" where
  "NewInterceptor methods opts = foldl applyInterceptorOption
     \<lparr>ii_methods = methods, ii_ttl = DefaultTTL, ii_staleAfter = DefaultStaleAfter\<rparr> opts"

definition IsWrite :: "interceptor \<Rightarrow> string \<Rightarrow> bool" where
  "IsWrite i fullMethod = (case ii_methods i of
      Some m \<Rightarrow> (case m fullMethod of None \<Rightarrow> True | Some e \<Rightarrow> e \<noteq> EffectRead)
    | None \<Rightarrow> \<not> list_ex (\<lambda>p. prefix p (afterLast CHR ''/'' fullMethod)) [''Get'', ''List'', ''Read''])"

section \<open>Keys and request hashes\<close>

datatype 'e idem_error =
    KeyRepeated
  | KeyLength
  | KeyNotPrintable
  | KeyRequired string
  | NotProtoMessage
  | HashFailed
  | StoreUnavailable
  | DifferentRequest
  | StillInProgress
  | RecordUnreadable
  | FromHandler 'e

fun idemCode :: "'e idem_error \<Rightarrow> code option" where
  "idemCode KeyRepeated = Some InvalidArgument"
| "idemCode KeyLength = Some InvalidArgument"
| "idemCode KeyNotPrintable = Some InvalidArgument"
| "idemCode (KeyRequired pt) = Some InvalidArgument"
| "idemCode NotProtoMessage = Some Internal"
| "idemCode HashFailed = Some Internal"
| "idemCode StoreUnavailable = Some Unavailable"
| "idemCode DifferentRequest = Some AlreadyExists"
| "idemCode StillInProgress = Some Aborted"
| "idemCode RecordUnreadable = Some Internal"
| "idemCode (FromHandler e) = None"

definition keyFrom :: "'a ctx_scheme \<Rightarrow> 'e idem_error + string" where
  "keyFrom ctx = (let vals = mdGet (case ctx_incoming ctx of None \<Rightarrow> Map.empty | Some md \<Rightarrow> md) MetadataKey in
     case vals of
       [] \<Rightarrow> Inr []
     | [k] \<Rightarrow>
         if k = [] \<or> length k > MaxKeyLength then Inl KeyLength
         else if list_ex (\<lambda>r. r < 33 \<or> r > 126) (runes k) then Inl KeyNotPrintable
         else Inr k
     | _ # _ # _ \<Rightarrow> Inl KeyRepeated)"

text \<open>
  What the hash is taken of: method, principal type and subject, each closed by a zero byte, and
  the deterministic encoding of the request.
\<close>

definition hashInput :: "string \<Rightarrow> claims \<Rightarrow> string \<Rightarrow> string" where
  "hashInput method c body =
     concat (map (\<lambda>part. part @ [CHR 0x00]) [method, PrincipalType (Some c), cl_Subject c]) @ body"

definition requestHash ::
    "(string \<Rightarrow> string) \<Rightarrow> ('req \<Rightarrow> string option) \<Rightarrow> string \<Rightarrow> claims \<Rightarrow> 'req \<Rightarrow> string option" where
  "requestHash sha256 marshal method c req = (case marshal req of
      None \<Rightarrow> None
    | Some body \<Rightarrow> Some (sha256 (hashInput method c body)))"

section \<open>The key table and its statements\<close>

record key_row =
  kr_method :: string
  kr_hash :: string
  kr_status :: string
  kr_response :: "string option"
  kr_created :: time

type_synonym key_table = "string \<times> string \<rightharpoonup> key_row"

definition freshRow :: "time \<Rightarrow> string \<Rightarrow> string \<Rightarrow> key_row" where
  "freshRow now method hash = \<lparr>kr_method = method, kr_hash = hash, kr_status = statusInProgress,
     kr_response = None, kr_created = now\<rparr>"

definition execInsert ::
    "time \<Rightarrow> string \<times> string \<Rightarrow> string \<Rightarrow> string \<Rightarrow> key_table \<Rightarrow> nat \<times> key_table" where
  "execInsert now k method hash t = (case t k of
      Some _ \<Rightarrow> (0, t)
    | None \<Rightarrow> (1, t(k \<mapsto> freshRow now method hash)))"

definition takeable :: "interceptor \<Rightarrow> time \<Rightarrow> key_row \<Rightarrow> bool" where
  "takeable i now r \<longleftrightarrow> kr_created r < now - ii_ttl i
     \<or> (kr_status r = statusInProgress \<and> kr_created r < now - ii_staleAfter i)"

definition execTakeover ::
    "interceptor \<Rightarrow> time \<Rightarrow> string \<times> string \<Rightarrow> string \<Rightarrow> string \<Rightarrow> key_table \<Rightarrow> nat \<times> key_table" where
  "execTakeover i now k method hash t = (case t k of
      None \<Rightarrow> (0, t)
    | Some r \<Rightarrow> if takeable i now r then (1, t(k \<mapsto> freshRow now method hash)) else (0, t))"

definition execRelease :: "string \<times> string \<Rightarrow> key_table \<Rightarrow> key_table" where
  "execRelease k t = (case t k of
      None \<Rightarrow> t
    | Some r \<Rightarrow> if kr_status r = statusInProgress then t(k := None) else t)"

definition execRecord :: "string \<times> string \<Rightarrow> string \<Rightarrow> key_table \<Rightarrow> key_table" where
  "execRecord k resp t = (case t k of
      None \<Rightarrow> t
    | Some r \<Rightarrow> t(k \<mapsto> r\<lparr>kr_status := statusCompleted, kr_response := Some resp\<rparr>))"

definition execCleanup :: "interceptor \<Rightarrow> time \<Rightarrow> string \<Rightarrow> key_table \<Rightarrow> key_table" where
  "execCleanup i now tenant t = (\<lambda>k. case t k of
      None \<Rightarrow> None
    | Some r \<Rightarrow> if fst k = tenant \<and> kr_created r < now - ii_ttl i then None else Some r)"

section \<open>Claiming a key\<close>

record held =
  hd_hash :: string
  hd_status :: string
  hd_response :: "string option"

text \<open>The times of the three statements, or the error of the first that failed.\<close>

record claim_env =
  ce_insert :: "string + time"
  ce_takeover :: "string + time"
  ce_select :: "string + unit"

text \<open>The three statements, last one first: who holds the key, the takeover, the insert.\<close>

abbreviation readHeld :: "claim_env \<Rightarrow> string \<times> string \<Rightarrow> string \<Rightarrow> key_table \<Rightarrow> (string + held option) \<times> key_table" where
  "readHeld ce k hash t \<equiv> (case ce_select ce of
      Inl err \<Rightarrow> (Inl err, t)
    | Inr _ \<Rightarrow> (case t k of
        None \<Rightarrow> (Inr (Some \<lparr>hd_hash = hash, hd_status = statusInProgress, hd_response = None\<rparr>), t)
      | Some r \<Rightarrow> (Inr (Some \<lparr>hd_hash = kr_hash r, hd_status = kr_status r, hd_response = kr_response r\<rparr>), t)))"

abbreviation takeHeld ::
    "interceptor \<Rightarrow> claim_env \<Rightarrow> string \<times> string \<Rightarrow> string \<Rightarrow> string \<Rightarrow> key_table \<Rightarrow> (string + held option) \<times> key_table" where
  "takeHeld i ce k method hash t \<equiv> (case ce_takeover ce of
      Inl err \<Rightarrow> (Inl err, t)
    | Inr now \<Rightarrow> (case execTakeover i now k method hash t of (n, t') \<Rightarrow>
        if n = 1 then (Inr None, t') else readHeld ce k hash t'))"

definition claimKey ::
    "interceptor \<Rightarrow> claim_env \<Rightarrow> string \<times> string \<Rightarrow> string \<Rightarrow> string \<Rightarrow> key_table
       \<Rightarrow> (string + held option) \<times> key_table" where
  "claimKey i ce k method hash t = (case ce_insert ce of
      Inl err \<Rightarrow> (Inl err, t)
    | Inr now \<Rightarrow> (case execInsert now k method hash t of (n, t') \<Rightarrow>
        if n = 1 then (Inr None, t') else takeHeld i ce k method hash t'))"

definition replay ::
    "(string \<Rightarrow> 'resp option) \<Rightarrow> held \<Rightarrow> string \<Rightarrow> 'e idem_error + 'resp" where
  "replay unmarshal r hash =
     (if hd_hash r \<noteq> hash then Inl DifferentRequest
      else if hd_status r \<noteq> statusCompleted then Inl StillInProgress
      else (case unmarshal (case hd_response r of None \<Rightarrow> [] | Some b \<Rightarrow> b) of
          None \<Rightarrow> Inl RecordUnreadable
        | Some resp \<Rightarrow> Inr resp))"

section \<open>One request\<close>

text \<open>
  The world of a call: what the handler changes, and the key table, which other requests may change
  while the handler runs, so the handler is a function of both. \<open>re_finish\<close> says whether the
  statement after the handler (release or record) got through.
\<close>

record run_env =
  re_pool :: "string + unit"
  re_claim :: claim_env
  re_finish :: bool

type_synonym ('w, 'e, 'resp) handler = "'w \<times> key_table \<Rightarrow> ('e + 'resp) \<times> 'w \<times> key_table"

definition run ::
    "interceptor \<Rightarrow> ('resp \<Rightarrow> string option) \<Rightarrow> (string \<Rightarrow> 'resp option) \<Rightarrow> run_env
       \<Rightarrow> string \<times> string \<Rightarrow> string \<Rightarrow> string \<Rightarrow> ('w, 'e, 'resp) handler \<Rightarrow> 'w \<times> key_table
       \<Rightarrow> ('e idem_error + 'resp) \<times> 'w \<times> key_table" where
  "run i marshalResponse unmarshalResponse env k method hash handler world =
     (case re_pool env of
        Inl err \<Rightarrow> (Inl StoreUnavailable, world)
      | Inr _ \<Rightarrow> (case claimKey i (re_claim env) k method hash (snd world) of
          (Inl err, t) \<Rightarrow> (Inl StoreUnavailable, fst world, t)
        | (Inr (Some prev), t) \<Rightarrow> (replay unmarshalResponse prev hash, fst world, t)
        | (Inr None, t) \<Rightarrow> (case handler (fst world, t) of
            (Inl herr, w, t') \<Rightarrow> (Inl (FromHandler herr), w, if re_finish env then execRelease k t' else t')
          | (Inr resp, w, t') \<Rightarrow> (case marshalResponse resp of
                None \<Rightarrow> (Inr resp, w, t')
              | Some stored \<Rightarrow> (Inr resp, w, if re_finish env then execRecord k stored t' else t')))))"

definition passOn :: "('w, 'e, 'resp) handler \<Rightarrow> 'w \<times> key_table \<Rightarrow> ('e idem_error + 'resp) \<times> 'w \<times> key_table" where
  "passOn handler world = (case handler world of
      (Inl herr, world') \<Rightarrow> (Inl (FromHandler herr), world')
    | (Inr resp, world') \<Rightarrow> (Inr resp, world'))"

text \<open>\<open>Unary\<close>. A request that is not a proto message is \<^term>\<open>None\<close>.\<close>

definition idemUnary ::
    "interceptor \<Rightarrow> (string \<Rightarrow> string) \<Rightarrow> ('req \<Rightarrow> string option) \<Rightarrow> ('resp \<Rightarrow> string option)
       \<Rightarrow> (string \<Rightarrow> 'resp option) \<Rightarrow> run_env \<Rightarrow> 'a auth_ctx_scheme \<Rightarrow> 'req option \<Rightarrow> string
       \<Rightarrow> ('w, 'e, 'resp) handler \<Rightarrow> 'w \<times> key_table \<Rightarrow> ('e idem_error + 'resp) \<times> 'w \<times> key_table" where
  "idemUnary i sha256 marshal marshalResponse unmarshalResponse env ctx req fullMethod handler world =
     (if \<not> IsWrite i fullMethod then passOn handler world
      else (case ClaimsFrom ctx of
          None \<Rightarrow> passOn handler world
        | Some c \<Rightarrow> (case keyFrom ctx of
            Inl err \<Rightarrow> (Inl err, world)
          | Inr key \<Rightarrow>
              if key = [] then
                (if PrincipalType (Some c) \<noteq> PrincipalUser
                 then (Inl (KeyRequired (PrincipalType (Some c))), world)
                 else passOn handler world)
              else (case req of
                  None \<Rightarrow> (Inl NotProtoMessage, world)
                | Some msg \<Rightarrow> (case requestHash sha256 marshal fullMethod c msg of
                    None \<Rightarrow> (Inl HashFailed, world)
                  | Some hash \<Rightarrow> run i marshalResponse unmarshalResponse env
                      (cl_TenantID c, key) fullMethod hash handler world)))))"

definition Cleanup :: "interceptor \<Rightarrow> string + unit \<Rightarrow> string + time \<Rightarrow> string \<Rightarrow> key_table
     \<Rightarrow> (string + nat) \<times> key_table" where
  "Cleanup i pool exec tenant t = (case pool of
      Inl err \<Rightarrow> (Inl err, t)
    | Inr _ \<Rightarrow> (case exec of
        Inl err \<Rightarrow> (Inl err, t)
      | Inr now \<Rightarrow>
          let t' = execCleanup i now tenant t
          in (Inr (card (dom t - dom t')), t')))"

section \<open>A retry of one request\<close>

lemma claimKey_held:
  assumes "ce_insert ce = Inr now1" and "ce_takeover ce = Inr now2" and "ce_select ce = Inr u"
    and "t k = Some r" and "\<not> takeable i now2 r"
  shows "claimKey i ce k method hash t =
     (Inr (Some \<lparr>hd_hash = kr_hash r, hd_status = kr_status r, hd_response = kr_response r\<rparr>), t)"
  using assms by (simp add: claimKey_def execInsert_def execTakeover_def)

lemma claimKey_fresh:
  assumes "ce_insert ce = Inr now1" and "t k = None"
  shows "claimKey i ce k method hash t = (Inr None, t(k \<mapsto> freshRow now1 method hash))"
  using assms by (simp add: claimKey_def execInsert_def)

lemma hash_part_eq:
  "CHR 0x00 \<notin> set a \<Longrightarrow> CHR 0x00 \<notin> set b \<Longrightarrow> a @ CHR 0x00 # x = b @ CHR 0x00 # y \<Longrightarrow> a = b \<and> x = y"
  by (induction a arbitrary: b; case_tac b) auto

text \<open>
  The hash binds a key to one request: with a collision-free hash function, two requests with
  the same hash have the same method, the same principal type and subject and the same encoding,
  provided no zero byte is in the parts it separates by one.
\<close>

theorem requestHash_binds:
  assumes "requestHash sha256 marshal m1 c1 r1 = Some h"
    and "requestHash sha256 marshal m2 c2 r2 = Some h" and "inj sha256"
    and "CHR 0x00 \<notin> set m1 \<union> set (PrincipalType (Some c1)) \<union> set (cl_Subject c1)"
    and "CHR 0x00 \<notin> set m2 \<union> set (PrincipalType (Some c2)) \<union> set (cl_Subject c2)"
  shows "m1 = m2 \<and> PrincipalType (Some c1) = PrincipalType (Some c2)
     \<and> cl_Subject c1 = cl_Subject c2 \<and> marshal r1 = marshal r2"
proof -
  from assms(1,2) obtain b1 b2 where b: "marshal r1 = Some b1" "marshal r2 = Some b2"
    and eq: "sha256 (hashInput m1 c1 b1) = sha256 (hashInput m2 c2 b2)"
    by (auto simp: requestHash_def split: option.splits)
  from eq assms(3) have "hashInput m1 c1 b1 = hashInput m2 c2 b2" by (simp add: inj_eq)
  then have "m1 @ CHR 0x00 # (PrincipalType (Some c1) @ CHR 0x00 # (cl_Subject c1 @ CHR 0x00 # b1))
      = m2 @ CHR 0x00 # (PrincipalType (Some c2) @ CHR 0x00 # (cl_Subject c2 @ CHR 0x00 # b2))"
    by (simp add: hashInput_def)
  from hash_part_eq [OF _ _ this] assms(4,5)
  have m: "m1 = m2" and rest: "PrincipalType (Some c1) @ CHR 0x00 # (cl_Subject c1 @ CHR 0x00 # b1)
      = PrincipalType (Some c2) @ CHR 0x00 # (cl_Subject c2 @ CHR 0x00 # b2)" by auto
  from hash_part_eq [OF _ _ rest] assms(4,5)
  have p: "PrincipalType (Some c1) = PrincipalType (Some c2)"
    and rest': "cl_Subject c1 @ CHR 0x00 # b1 = cl_Subject c2 @ CHR 0x00 # b2" by auto
  from hash_part_eq [OF _ _ rest'] assms(4,5) m p b show ?thesis by auto
qed

definition sample_interceptor :: interceptor where
  "sample_interceptor = NewInterceptor None []"

definition sample_run_env :: "time \<Rightarrow> run_env" where
  "sample_run_env now = \<lparr>re_pool = Inr (), re_claim = \<lparr>ce_insert = Inr now, ce_takeover = Inr now,
     ce_select = Inr ()\<rparr>, re_finish = True\<rparr>"

lemma sample_interceptor_fields [simp]:
  "ii_ttl sample_interceptor = 259200000000000" "ii_staleAfter sample_interceptor = 600000000000"
  by (simp_all add: sample_interceptor_def NewInterceptor_def DefaultTTL_def DefaultStaleAfter_def
      duration_defs)

theorem requestHash_binds_witness:
  "\<nexists>h. requestHash id (Some :: string \<Rightarrow> _) ''/S/Void'' (emptyClaims\<lparr>cl_Subject := ''u-1''\<rparr>) ''b'' = Some h
      \<and> requestHash id (Some :: string \<Rightarrow> _) ''/S/Void'' (emptyClaims\<lparr>cl_Subject := ''u-2''\<rparr>) ''b'' = Some h"
proof
  assume "\<exists>h. requestHash id (Some :: string \<Rightarrow> _) ''/S/Void'' (emptyClaims\<lparr>cl_Subject := ''u-1''\<rparr>) ''b'' = Some h
      \<and> requestHash id (Some :: string \<Rightarrow> _) ''/S/Void'' (emptyClaims\<lparr>cl_Subject := ''u-2''\<rparr>) ''b'' = Some h"
  then obtain h where
    "requestHash id (Some :: string \<Rightarrow> _) ''/S/Void'' (emptyClaims\<lparr>cl_Subject := ''u-1''\<rparr>) ''b'' = Some h"
    "requestHash id (Some :: string \<Rightarrow> _) ''/S/Void'' (emptyClaims\<lparr>cl_Subject := ''u-2''\<rparr>) ''b'' = Some h"
    by blast
  from requestHash_binds [OF this] show False
    by (simp add: emptyClaims_def PrincipalType_def principal_defs)
qed

section \<open>Concurrent requests\<close>

text \<open>
  Requests of all replicas interleave at the statements of the key store. An attempt is at its
  insert, at its takeover, at its read, running its handler (from the claim to the statement that
  ends it), or done. \<open>cs_runs\<close> is a history: what each handler that succeeded answered, with the key
  and hash it ran for. With \<open>lim = Some d\<close> time does not pass beyond \<open>d\<close> after the claim of a handler
  that still runs; with \<open>None\<close> a handler may run as long as it likes.
\<close>

datatype outcome = Answered string | Replayed string | Refused

datatype phase = AtInsert | AtTakeover | AtRead | Running time | Finished outcome

record attempt =
  at_key :: "string \<times> string"
  at_method :: string
  at_hash :: string
  at_phase :: phase

record cluster =
  cs_now :: time
  cs_table :: key_table
  cs_procs :: "nat \<rightharpoonup> attempt"
  cs_runs :: "((string \<times> string) \<times> string \<times> string) list"

definition readOutcome :: "string \<Rightarrow> key_row option \<Rightarrow> outcome" where
  "readOutcome hash row = (case row of
      None \<Rightarrow> Refused
    | Some r \<Rightarrow> if kr_hash r \<noteq> hash \<or> kr_status r \<noteq> statusCompleted then Refused
               else Replayed (case kr_response r of None \<Rightarrow> [] | Some b \<Rightarrow> b))"

definition goto :: "cluster \<Rightarrow> nat \<Rightarrow> attempt \<Rightarrow> phase \<Rightarrow> cluster" where
  "goto s p a ph = s\<lparr>cs_procs := (cs_procs s)(p \<mapsto> a\<lparr>at_phase := ph\<rparr>)\<rparr>"

definition within :: "duration option \<Rightarrow> cluster \<Rightarrow> time \<Rightarrow> bool" where
  "within lim s now \<longleftrightarrow> (case lim of None \<Rightarrow> True | Some d \<Rightarrow>
     (\<forall>p a t. cs_procs s p = Some a \<and> at_phase a = Running t \<longrightarrow> now \<le> t + d))"

inductive cstep :: "interceptor \<Rightarrow> duration option \<Rightarrow> cluster \<Rightarrow> cluster \<Rightarrow> bool"
  for i lim where
  tick: "cs_now s \<le> now \<Longrightarrow> within lim s now \<Longrightarrow> cstep i lim s (s\<lparr>cs_now := now\<rparr>)"
| arrive: "cs_procs s p = None \<Longrightarrow> at_phase a = AtInsert \<Longrightarrow>
     cstep i lim s (s\<lparr>cs_procs := (cs_procs s)(p \<mapsto> a)\<rparr>)"
| insert: "cs_procs s p = Some a \<Longrightarrow> at_phase a = AtInsert \<Longrightarrow>
     execInsert (cs_now s) (at_key a) (at_method a) (at_hash a) (cs_table s) = (n, t) \<Longrightarrow>
     cstep i lim s (goto (s\<lparr>cs_table := t\<rparr>) p a (if n = 1 then Running (cs_now s) else AtTakeover))"
| takeover: "cs_procs s p = Some a \<Longrightarrow> at_phase a = AtTakeover \<Longrightarrow>
     execTakeover i (cs_now s) (at_key a) (at_method a) (at_hash a) (cs_table s) = (n, t) \<Longrightarrow>
     cstep i lim s (goto (s\<lparr>cs_table := t\<rparr>) p a (if n = 1 then Running (cs_now s) else AtRead))"
| read: "cs_procs s p = Some a \<Longrightarrow> at_phase a = AtRead \<Longrightarrow>
     cstep i lim s (goto s p a (Finished (readOutcome (at_hash a) (cs_table s (at_key a)))))"
| store_error: "cs_procs s p = Some a \<Longrightarrow> at_phase a \<in> {AtInsert, AtTakeover, AtRead} \<Longrightarrow>
     cstep i lim s (goto s p a (Finished Refused))"
| success: "cs_procs s p = Some a \<Longrightarrow> at_phase a = Running t0 \<Longrightarrow>
     cstep i lim s (goto (s\<lparr>cs_table := (if recorded then execRecord (at_key a) resp (cs_table s) else cs_table s),
         cs_runs := (at_key a, at_hash a, resp) # cs_runs s\<rparr>) p a (Finished (Answered resp)))"
| failure: "cs_procs s p = Some a \<Longrightarrow> at_phase a = Running t0 \<Longrightarrow>
     cstep i lim s (goto (s\<lparr>cs_table := (if released then execRelease (at_key a) (cs_table s) else cs_table s)\<rparr>)
         p a (Finished Refused))"
| crash: "cs_procs s p = Some a \<Longrightarrow> cstep i lim s (s\<lparr>cs_procs := (cs_procs s)(p := None)\<rparr>)"
| cleanup: "cstep i lim s (s\<lparr>cs_table := execCleanup i (cs_now s) tenant (cs_table s)\<rparr>)"

definition cinit :: "time \<Rightarrow> cluster" where
  "cinit now = \<lparr>cs_now = now, cs_table = Map.empty, cs_procs = Map.empty, cs_runs = []\<rparr>"

inductive reachable :: "interceptor \<Rightarrow> duration option \<Rightarrow> cluster \<Rightarrow> bool" for i lim where
  start: "reachable i lim (cinit now)"
| step: "reachable i lim s \<Longrightarrow> cstep i lim s s' \<Longrightarrow> reachable i lim s'"

inductive_cases cstep_elim: "cstep i lim s s'"

text \<open>What a step may do to the table.\<close>

lemma execInsert_cases:
  assumes "execInsert now k method hash t = (n, t')"
  obtains (taken) "n = 1" "t k = None" "t' = t(k \<mapsto> freshRow now method hash)"
  | (held) "n \<noteq> 1" "t' = t" "t k \<noteq> None"
  using assms by (auto simp: execInsert_def split: option.splits)

lemma execTakeover_cases:
  assumes "execTakeover i now k method hash t = (n, t')"
  obtains (taken) r where "n = 1" "t k = Some r" "takeable i now r" "t' = t(k \<mapsto> freshRow now method hash)"
  | (held) "n \<noteq> 1" "t' = t"
  using assms by (auto simp: execTakeover_def split: option.splits if_splits)

definition runsAt :: "cluster \<Rightarrow> nat \<Rightarrow> attempt \<Rightarrow> time \<Rightarrow> bool" where
  "runsAt s p a t \<longleftrightarrow> cs_procs s p = Some a \<and> at_phase a = Running t"

definition ownsRow :: "duration \<Rightarrow> cluster \<Rightarrow> attempt \<Rightarrow> time \<Rightarrow> bool" where
  "ownsRow d s a t \<longleftrightarrow> t \<le> cs_now s \<and> cs_now s \<le> t + d
     \<and> (\<exists>r. cs_table s (at_key a) = Some r \<and> kr_status r = statusInProgress \<and> kr_created r = t
            \<and> kr_hash r = at_hash a)"

definition completedOK :: "cluster \<Rightarrow> bool" where
  "completedOK s \<longleftrightarrow> (\<forall>k r. cs_table s k = Some r \<and> kr_status r = statusCompleted \<longrightarrow>
     (\<exists>b. kr_response r = Some b \<and> (k, kr_hash r, b) \<in> set (cs_runs s)))"

definition replaysOK :: "cluster \<Rightarrow> bool" where
  "replaysOK s \<longleftrightarrow> (\<forall>p a b. cs_procs s p = Some a \<and> at_phase a = Finished (Replayed b) \<longrightarrow>
     (at_key a, at_hash a, b) \<in> set (cs_runs s))"

definition cinv :: "duration \<Rightarrow> cluster \<Rightarrow> bool" where
  "cinv d s \<longleftrightarrow> (\<forall>p a t. runsAt s p a t \<longrightarrow> ownsRow d s a t)
     \<and> (\<forall>p q a b t u. runsAt s p a t \<and> runsAt s q b u \<and> at_key a = at_key b \<longrightarrow> p = q)
     \<and> completedOK s \<and> replaysOK s"

lemma completedD:
  "completedOK s \<Longrightarrow> cs_table s k = Some r \<Longrightarrow> kr_status r = statusCompleted \<Longrightarrow>
     \<exists>b. kr_response r = Some b \<and> (k, kr_hash r, b) \<in> set (cs_runs s)"
  unfolding completedOK_def by blast

lemma cinvI:
  assumes "\<And>p a t. runsAt s p a t \<Longrightarrow> ownsRow d s a t"
    and "\<And>p q a b t u. runsAt s p a t \<Longrightarrow> runsAt s q b u \<Longrightarrow> at_key a = at_key b \<Longrightarrow> p = q"
    and "completedOK s" and "replaysOK s"
  shows "cinv d s"
  using assms by (auto simp: cinv_def)

lemma cinvD:
  assumes "cinv d s"
  shows "runsAt s p a t \<Longrightarrow> ownsRow d s a t"
    and "runsAt s p a t \<Longrightarrow> runsAt s q b u \<Longrightarrow> at_key a = at_key b \<Longrightarrow> p = q"
    and "completedOK s" and "replaysOK s"
  using assms unfolding cinv_def by blast+

lemma runsAt_goto:
  "runsAt (goto s p a ph) q b t \<longleftrightarrow>
     (if q = p then b = a\<lparr>at_phase := ph\<rparr> \<and> ph = Running t else runsAt s q b t)"
  by (auto simp: runsAt_def goto_def)

lemma goto_frame [simp]:
  "cs_now (goto s p a ph) = cs_now s" "cs_table (goto s p a ph) = cs_table s"
  "cs_runs (goto s p a ph) = cs_runs s"
  by (simp_all add: goto_def)

lemma runsAt_frame [simp]:
  "runsAt (s\<lparr>cs_table := t\<rparr>) = runsAt s" "runsAt (s\<lparr>cs_now := now\<rparr>) = runsAt s"
  "runsAt (s\<lparr>cs_runs := h\<rparr>) = runsAt s"
  by (auto simp: runsAt_def fun_eq_iff)

lemma ownsRow_goto [simp]: "ownsRow d (goto s p a ph) b t = ownsRow d s b t"
  by (simp add: ownsRow_def)

lemma completedOK_goto [simp]: "completedOK (goto s p a ph) = completedOK s"
  by (simp add: completedOK_def)

lemma replaysOK_goto:
  "replaysOK s \<Longrightarrow> (\<And>b. ph = Finished (Replayed b) \<Longrightarrow> (at_key a, at_hash a, b) \<in> set (cs_runs s)) \<Longrightarrow>
     replaysOK (goto s p a ph)"
  by (auto simp: replaysOK_def goto_def)

lemma replaysOK_frame [simp]:
  "replaysOK (s\<lparr>cs_table := t\<rparr>) = replaysOK s" "replaysOK (s\<lparr>cs_now := now\<rparr>) = replaysOK s"
  by (simp_all add: replaysOK_def)

lemma ownsRow_table:
  "ownsRow d s a t \<Longrightarrow> tb (at_key a) = cs_table s (at_key a) \<Longrightarrow> ownsRow d (s\<lparr>cs_table := tb\<rparr>) a t"
  by (simp add: ownsRow_def)

lemma ownsRow_not_takeable:
  assumes "ownsRow d s a t" and "d \<le> ii_ttl i" and "d \<le> ii_staleAfter i"
    and "cs_table s (at_key a) = Some r"
  shows "\<not> takeable i (cs_now s) r"
  using assms by (auto simp: ownsRow_def takeable_def)

text \<open>A claim: the attempt takes a key no running attempt holds.\<close>

lemma cinv_claim:
  assumes inv: "cinv d s" and p: "cs_procs s p = Some a" and free: "\<And>q b t. runsAt s q b t \<Longrightarrow> at_key b \<noteq> at_key a"
    and d: "0 \<le> d"
  shows "cinv d (goto (s\<lparr>cs_table := (cs_table s)(at_key a \<mapsto> freshRow (cs_now s) (at_method a) (at_hash a))\<rparr>)
     p a (Running (cs_now s)))"
proof (rule cinvI, goal_cases)
  case (1 q b t)
  then show ?case
    using cinvD(1) [OF inv, of q b t] free [of q b t] d
    by (auto simp: runsAt_goto ownsRow_def freshRow_def split: if_splits)
next
  case (2 q q' b b' t u)
  then show ?case
    using cinvD(2) [OF inv, of q b t q' b' u] free [of q b t] free [of q' b' u]
    by (auto simp: runsAt_goto split: if_splits)
next
  case 3
  then show ?case using cinvD(3) [OF inv] by (auto simp: completedOK_def freshRow_def)
next
  case 4
  then show ?case using cinvD(4) [OF inv] by (auto intro: replaysOK_goto)
qed

text \<open>An attempt that leaves its handler, or that only moves between its statements.\<close>

lemma cinv_leave:
  assumes inv: "cinv d s" and ph: "\<And>t. ph \<noteq> Running t"
    and others: "\<And>q b t. q \<noteq> p \<Longrightarrow> runsAt s q b t \<Longrightarrow> tb (at_key b) = cs_table s (at_key b)"
    and completed: "completedOK (s\<lparr>cs_table := tb, cs_runs := h\<rparr>)"
    and replays: "\<And>b. ph = Finished (Replayed b) \<Longrightarrow> (at_key a, at_hash a, b) \<in> set h"
    and h: "set (cs_runs s) \<subseteq> set h"
  shows "cinv d (goto (s\<lparr>cs_table := tb, cs_runs := h\<rparr>) p a ph)"
proof (rule cinvI, goal_cases)
  case (1 q b t)
  then have "runsAt s q b t" "q \<noteq> p" using ph by (auto simp: runsAt_goto split: if_splits)
  with cinvD(1) [OF inv, of q b t] others [of q b t] show ?case by (auto simp: ownsRow_def)
next
  case (2 q q' b b' t u)
  then show ?case using cinvD(2) [OF inv, of q b t q' b' u] ph by (auto simp: runsAt_goto split: if_splits)
next
  case 3
  then show ?case using completed by simp
next
  case 4
  have "replaysOK (s\<lparr>cs_table := tb, cs_runs := h\<rparr>)"
    using cinvD(4) [OF inv] h by (auto simp: replaysOK_def)
  then show ?case using replays by (auto intro: replaysOK_goto)
qed

text \<open>A step that starts no handler and keeps the rows of the running ones.\<close>

lemma cinv_fewer:
  assumes inv: "cinv d s" and sub: "\<And>q b t. runsAt s' q b t \<Longrightarrow> runsAt s q b t"
    and own: "\<And>q b t. runsAt s' q b t \<Longrightarrow> ownsRow d s b t \<Longrightarrow> ownsRow d s' b t"
    and "completedOK s'" and "replaysOK s'"
  shows "cinv d s'"
proof (rule cinvI)
  show "ownsRow d s' a t" if "runsAt s' p a t" for p a t
    by (rule own [OF that cinvD(1) [OF inv sub [OF that]]])
  show "p = q" if "runsAt s' p a t" "runsAt s' q b u" "at_key a = at_key b" for p q a b t u
    by (rule cinvD(2) [OF inv sub [OF that(1)] sub [OF that(2)] that(3)])
qed fact+

lemma cinv_step:
  assumes step: "cstep i (Some d) s s'" and inv: "cinv d s"
    and d: "0 \<le> d" "d \<le> ii_ttl i" "d \<le> ii_staleAfter i"
  shows "cinv d s'"
  using step
proof cases
  case (tick now)
  have "ownsRow d s' a t" if "runsAt s p a t" "ownsRow d s a t" for p a t
    using that tick by (auto simp: within_def runsAt_def ownsRow_def)
  moreover have "completedOK s'" using cinvD(3) [OF inv] tick by (simp add: completedOK_def)
  ultimately show ?thesis using cinvD(4) [OF inv] tick by (intro cinv_fewer [OF inv]) auto
next
  case (arrive p a)
  have "runsAt s' q b t \<Longrightarrow> runsAt s q b t" for q b t
    using arrive by (auto simp: runsAt_def split: if_splits)
  moreover have "ownsRow d s' = ownsRow d s" "completedOK s'"
    using cinvD(3) [OF inv] arrive by (auto simp: ownsRow_def completedOK_def fun_eq_iff)
  moreover have "replaysOK s'" using cinvD(4) [OF inv] arrive by (auto simp: replaysOK_def)
  ultimately show ?thesis by (intro cinv_fewer [OF inv]) auto
next
  case (insert p a n t)
  from insert(4) show ?thesis
  proof (cases rule: execInsert_cases)
    case taken
    have "at_key b \<noteq> at_key a" if "runsAt s q b u" for q b u
      using cinvD(1) [OF inv that] taken(2) by (auto simp: ownsRow_def)
    from cinv_claim [OF inv insert(2) this d(1)] taken insert(1) show ?thesis by simp
  next
    case held
    with cinv_leave [OF inv, of AtTakeover p "cs_table s" "cs_runs s" a] cinvD(3) [OF inv] insert(1)
    show ?thesis by simp
  qed
next
  case (takeover p a n t)
  from takeover(4) show ?thesis
  proof (cases rule: execTakeover_cases)
    case (taken r)
    have "at_key b \<noteq> at_key a" if "runsAt s q b u" for q b u
      using ownsRow_not_takeable [OF cinvD(1) [OF inv that] d(2,3), of r] taken(2,3) by metis
    from cinv_claim [OF inv takeover(2) this d(1)] taken takeover(1) show ?thesis by simp
  next
    case held
    with cinv_leave [OF inv, of AtRead p "cs_table s" "cs_runs s" a] cinvD(3) [OF inv] takeover(1)
    show ?thesis by simp
  qed
next
  case (read p a)
  have "(at_key a, at_hash a, b) \<in> set (cs_runs s)"
    if "readOutcome (at_hash a) (cs_table s (at_key a)) = Replayed b" for b
    using that completedD [OF cinvD(3) [OF inv], of "at_key a"]
    by (auto simp: readOutcome_def split: option.splits if_splits)
  with cinv_leave [OF inv, of "Finished (readOutcome (at_hash a) (cs_table s (at_key a)))" p
      "cs_table s" "cs_runs s" a] cinvD(3) [OF inv] read show ?thesis by simp
next
  case (store_error p a)
  with cinv_leave [OF inv, of "Finished Refused" p "cs_table s" "cs_runs s" a] cinvD(3) [OF inv]
  show ?thesis by simp
next
  case (success p a t0 resp recorded)
  let ?tb = "if recorded then execRecord (at_key a) resp (cs_table s) else cs_table s"
  have run: "runsAt s p a t0" using success by (simp add: runsAt_def)
  have "?tb (at_key b) = cs_table s (at_key b)" if "q \<noteq> p" "runsAt s q b t" for q b t
    using cinvD(2) [OF inv run that(2)] that(1) by (auto simp: execRecord_def split: option.split)
  moreover have "completedOK (s\<lparr>cs_table := ?tb, cs_runs := (at_key a, at_hash a, resp) # cs_runs s\<rparr>)"
    unfolding completedOK_def
  proof (intro allI impI, elim conjE, goal_cases)
    case (1 k r)
    show ?case
    proof (cases "recorded \<and> k = at_key a")
      case True
      with 1 cinvD(1) [OF inv run] show ?thesis by (auto simp: execRecord_def ownsRow_def)
    next
      case False
      with 1 have "cs_table s k = Some r"
        by (auto simp: execRecord_def split: option.splits if_splits)
      from completedD [OF cinvD(3) [OF inv] this] 1 show ?thesis by auto
    qed
  qed
  ultimately show ?thesis
    unfolding success(1) by (intro cinv_leave [OF inv]) auto
next
  case (failure p a t0 released)
  let ?tb = "if released then execRelease (at_key a) (cs_table s) else cs_table s"
  have run: "runsAt s p a t0" using failure by (simp add: runsAt_def)
  have "?tb (at_key b) = cs_table s (at_key b)" if "q \<noteq> p" "runsAt s q b t" for q b t
    using cinvD(2) [OF inv run that(2)] that(1) by (auto simp: execRelease_def split: option.split)
  moreover have "completedOK (s\<lparr>cs_table := ?tb, cs_runs := cs_runs s\<rparr>)"
    using cinvD(3) [OF inv] by (auto simp: completedOK_def execRelease_def split: option.splits)
  ultimately show ?thesis
    using cinv_leave [OF inv, of "Finished Refused" p ?tb "cs_runs s" a] failure by simp
next
  case (crash p a)
  have "runsAt s' q b t \<Longrightarrow> runsAt s q b t" for q b t
    using crash by (auto simp: runsAt_def split: if_splits)
  moreover have "ownsRow d s' = ownsRow d s" "completedOK s'"
    using cinvD(3) [OF inv] crash by (auto simp: ownsRow_def completedOK_def fun_eq_iff)
  moreover have "replaysOK s'" using cinvD(4) [OF inv] crash by (auto simp: replaysOK_def)
  ultimately show ?thesis by (intro cinv_fewer [OF inv]) auto
next
  case (cleanup tenant)
  let ?tb = "execCleanup i (cs_now s) tenant (cs_table s)"
  have kept: "?tb (at_key b) = cs_table s (at_key b)" if "runsAt s q b t" for q b t
    using cinvD(1) [OF inv that] d by (auto simp: execCleanup_def ownsRow_def)
  have "completedOK (s\<lparr>cs_table := ?tb\<rparr>)"
    using cinvD(3) [OF inv] by (auto simp: completedOK_def execCleanup_def split: option.splits if_splits)
  moreover have "ownsRow d (s\<lparr>cs_table := ?tb\<rparr>) b t" if "runsAt s q b t" for q b t
    using ownsRow_table [where a = b and tb = ?tb, OF cinvD(1) [OF inv that]] kept [OF that] by blast
  ultimately show ?thesis
    using cinvD(4) [OF inv] unfolding cleanup by (intro cinv_fewer [OF inv]) auto
qed

lemma cinv_reachable:
  assumes "reachable i (Some d) s" and "0 \<le> d" "d \<le> ii_ttl i" "d \<le> ii_staleAfter i"
  shows "cinv d s"
  using assms(1)
proof induction
  case (start now)
  show ?case by (rule cinvI) (auto simp: cinit_def runsAt_def completedOK_def replaysOK_def)
next
  case (step s s')
  then show ?case using cinv_step assms(2-4) by blast
qed

text \<open>
  C6. While no handler runs longer than the stale window (and the TTL), a key has at most one
  running handler over all replicas, whatever the interleaving of statements, store errors, crashes
  and cleanups: two attempts whose handlers run hold different keys, and the row of a running
  attempt is its own.
\<close>

theorem one_handler_per_key:
  assumes "reachable i (Some d) s" and "0 \<le> d" and "d \<le> ii_ttl i" and "d \<le> ii_staleAfter i"
    and "cs_procs s p = Some a" and "at_phase a = Running t"
  shows "(\<exists>r. cs_table s (at_key a) = Some r \<and> kr_status r = statusInProgress \<and> kr_hash r = at_hash a)
    \<and> {q. \<exists>b u. cs_procs s q = Some b \<and> at_phase b = Running u \<and> at_key b = at_key a} = {p}"
proof -
  note inv = cinv_reachable [OF assms(1-4)]
  have run: "runsAt s p a t" using assms(5,6) by (simp add: runsAt_def)
  have "q = p" if "cs_procs s q = Some b" "at_phase b = Running u" "at_key b = at_key a" for q b u
    using cinvD(2) [OF inv _ run that(3), of q u] that(1,2) by (simp add: runsAt_def)
  then have "{q. \<exists>b u. cs_procs s q = Some b \<and> at_phase b = Running u \<and> at_key b = at_key a} = {p}"
    using assms(5,6) by blast
  moreover have "\<exists>r. cs_table s (at_key a) = Some r \<and> kr_status r = statusInProgress \<and> kr_hash r = at_hash a"
    using cinvD(1) [OF inv run] unfolding ownsRow_def by blast
  ultimately show ?thesis by blast
qed

text \<open>
  C17. Under the same bound a replay is faithful: an attempt that was answered from the table was
  answered the response some handler gave for the same key and the same request hash.
\<close>

theorem replay_is_of_the_same_request:
  assumes "reachable i (Some d) s" and "0 \<le> d" and "d \<le> ii_ttl i" and "d \<le> ii_staleAfter i"
    and "cs_procs s p = Some a" and "at_phase a = Finished (Replayed b)"
  shows "(at_key a, at_hash a, b) \<in> set (cs_runs s)"
  using cinvD(4) [OF cinv_reachable [OF assms(1-4)]] assms(5,6) unfolding replaysOK_def by blast

section \<open>A recorded write\<close>

definition runsOf :: "string \<times> string \<Rightarrow> cluster \<Rightarrow> ((string \<times> string) \<times> string \<times> string) list" where
  "runsOf k s = filter (\<lambda>x. fst x = k) (cs_runs s)"

definition finishedAs :: "string \<times> string \<Rightarrow> cluster \<Rightarrow> nat \<Rightarrow> attempt \<Rightarrow> outcome \<Rightarrow> bool" where
  "finishedAs k s p a out \<longleftrightarrow> cs_procs s p = Some a \<and> at_key a = k \<and> at_phase a = Finished out"

text \<open>What one step can do to a key whose response is recorded and whose TTL is not over.\<close>

lemma recorded_step:
  assumes step: "cstep i (Some d) s s'" and inv: "cinv d s"
    and row: "cs_table s k = Some r" "kr_status r = statusCompleted" "kr_response r = Some b"
    and in_time: "cs_now s' \<le> kr_created r + ii_ttl i"
  shows "cs_now s \<le> cs_now s' \<and> cs_table s' k = Some r \<and> runsOf k s' = runsOf k s
    \<and> (\<forall>p a out. finishedAs k s' p a out \<longrightarrow>
         finishedAs k s p a out \<or> out = Refused \<or> (at_hash a = kr_hash r \<and> out = Replayed b))"
proof -
  have idle: "at_key a \<noteq> k" if "cs_procs s p = Some a" "at_phase a = Running t" for p a t
    using cinvD(1) [OF inv, of p a t] that row(1,2) by (auto simp: runsAt_def ownsRow_def)
  from step show ?thesis
  proof cases
    case (insert p a n t)
    with row(1) show ?thesis
      by (auto simp: finishedAs_def goto_def runsOf_def execInsert_def split: option.splits if_splits)
  next
    case (takeover p a n t)
    have "\<not> takeable i (cs_now s) r" using in_time takeover(1) row(2) by (auto simp: takeable_def)
    with takeover row(1) show ?thesis
      by (auto simp: finishedAs_def goto_def runsOf_def execTakeover_def split: option.splits if_splits)
  next
    case (read p a)
    with row show ?thesis
      by (auto simp: finishedAs_def goto_def runsOf_def readOutcome_def split: if_splits)
  next
    case (success p a t0 resp recorded)
    with row(1) idle [OF success(2,3)] show ?thesis
      by (auto simp: finishedAs_def goto_def runsOf_def execRecord_def split: option.splits if_splits)
  next
    case (failure p a t0 released)
    with row(1) idle [OF failure(2,3)] show ?thesis
      by (auto simp: finishedAs_def goto_def runsOf_def execRelease_def split: option.splits if_splits)
  next
    case (cleanup tenant)
    with row in_time show ?thesis
      by (auto simp: finishedAs_def runsOf_def execCleanup_def)
  qed (use row in \<open>auto simp: finishedAs_def goto_def runsOf_def split: if_splits\<close>)
qed

lemma cstep_now: "cstep i lim s s' \<Longrightarrow> cs_now s \<le> cs_now s'"
  by (erule cstep.cases) (auto simp: goto_def)

lemma recorded_path:
  assumes path: "(cstep i (Some d))\<^sup>*\<^sup>* s s'" and inv: "cinv d s"
    and d: "0 \<le> d" "d \<le> ii_ttl i" "d \<le> ii_staleAfter i"
    and row: "cs_table s k = Some r" "kr_status r = statusCompleted" "kr_response r = Some b"
    and in_time: "cs_now s' \<le> kr_created r + ii_ttl i"
  shows "cinv d s' \<and> cs_table s' k = Some r \<and> runsOf k s' = runsOf k s
    \<and> (\<forall>p a out. finishedAs k s' p a out \<longrightarrow>
         finishedAs k s p a out \<or> out = Refused \<or> (at_hash a = kr_hash r \<and> out = Replayed b))"
  using path in_time
proof (induction rule: rtranclp_induct)
  case (step s1 s2)
  have "cs_now s1 \<le> kr_created r + ii_ttl i" using step.prems cstep_now [OF step.hyps(2)] by linarith
  note IH = step.IH [OF this]
  note st = recorded_step [OF step.hyps(2) conjunct1 [OF IH] _ row(2,3) step.prems]
  from cinv_step [OF step.hyps(2) conjunct1 [OF IH] d] st IH show ?case by metis
qed (use inv row in auto)

text \<open>
  C4. A recorded write is final until its TTL. Take any state the replicas can reach in which the
  response of a key is recorded, and any further interleaving of statements, store errors, crashes,
  cleanups and other attempts that ends within the TTL of that key, handlers staying under the stale
  window: the row of the key is what it was, no handler runs for the key and none ever answered for it
  in between, every attempt with the key that ended in between was refused or, if it is the same
  request, replayed the recorded bytes, and those were a handler's answer to this request. And there a
  call of the interceptor whose statements get through answers, without its handler and without a
  change, the recorded response to the same request, and \<open>DifferentRequest\<close> to any other.
\<close>

theorem a_recorded_write_is_final:
  assumes "reachable i (Some d) s" and "0 \<le> d" and "d \<le> ii_ttl i" and "d \<le> ii_staleAfter i"
    and "cs_table s k = Some r" and "kr_status r = statusCompleted"
    and "(cstep i (Some d))\<^sup>*\<^sup>* s s'" and "cs_now s' \<le> kr_created r + ii_ttl i"
  shows "\<exists>b. kr_response r = Some b \<and> (k, kr_hash r, b) \<in> set (cs_runs s)
    \<and> cs_table s' k = Some r \<and> runsOf k s' = runsOf k s
    \<and> (\<nexists>p a t. cs_procs s' p = Some a \<and> at_key a = k \<and> at_phase a = Running t)
    \<and> (\<forall>p a out. finishedAs k s' p a out \<longrightarrow>
         finishedAs k s p a out \<or> out = Refused \<or> (at_hash a = kr_hash r \<and> out = Replayed b))
    \<and> (\<forall>ins now. now \<le> kr_created r + ii_ttl i \<longrightarrow>
         run i mr ur
           \<lparr>re_pool = Inr (), re_claim = \<lparr>ce_insert = Inr ins, ce_takeover = Inr now, ce_select = Inr ()\<rparr>, re_finish = fin\<rparr>
           k method hash handler (w, cs_table s') =
         (if hash \<noteq> kr_hash r then Inl DifferentRequest
          else case ur b of None \<Rightarrow> Inl RecordUnreadable | Some resp \<Rightarrow> Inr resp, w, cs_table s'))"
proof -
  note inv = cinv_reachable [OF assms(1-4)]
  from completedD [OF cinvD(3) [OF inv] assms(5,6)] obtain b where
    b: "kr_response r = Some b" "(k, kr_hash r, b) \<in> set (cs_runs s)" by blast
  note path = recorded_path [OF assms(7) inv assms(2-6) b(1) assms(8)]
  have row: "cs_table s' k = Some r" using path by blast
  have "at_key a \<noteq> k" if "cs_procs s' p = Some a" "at_phase a = Running t" for p a t
    using cinvD(1) [OF conjunct1 [OF path], of p a t] that row assms(6) by (auto simp: runsAt_def ownsRow_def)
  moreover have "run i mr ur
       \<lparr>re_pool = Inr (), re_claim = \<lparr>ce_insert = Inr ins, ce_takeover = Inr now, ce_select = Inr ()\<rparr>, re_finish = fin\<rparr>
       k method hash handler (w, cs_table s') =
     (if hash \<noteq> kr_hash r then Inl DifferentRequest
      else case ur b of None \<Rightarrow> Inl RecordUnreadable | Some resp \<Rightarrow> Inr resp, w, cs_table s')"
    if "now \<le> kr_created r + ii_ttl i" for ins now
  proof -
    have fresh: "\<not> takeable i now r" using that assms(6) by (simp add: takeable_def)
    let ?ce = "\<lparr>ce_insert = Inr ins, ce_takeover = Inr now, ce_select = Inr ()\<rparr>"
    have "claimKey i ?ce k method hash (cs_table s') =
        (Inr (Some \<lparr>hd_hash = kr_hash r, hd_status = kr_status r, hd_response = kr_response r\<rparr>), cs_table s')"
      by (rule claimKey_held [where ?now1.0 = ins and ?now2.0 = now]) (use row fresh in simp_all)
    then show ?thesis using assms(6) b(1) by (simp add: run_def replay_def)
  qed
  ultimately show ?thesis using b path by (intro exI [of _ b] conjI allI impI notI) (elim exE conjE, auto)
qed

section \<open>A handler that outlives the stale window\<close>

definition tryOf :: "string \<Rightarrow> phase \<Rightarrow> attempt" where
  "tryOf h ph = \<lparr>at_key = (''acme'', ''k''), at_method = ''/S/Void'', at_hash = h, at_phase = ph\<rparr>"

definition rowOf :: "string \<Rightarrow> time \<Rightarrow> string option \<Rightarrow> key_row" where
  "rowOf h t resp = \<lparr>kr_method = ''/S/Void'', kr_hash = h,
     kr_status = (if resp = None then statusInProgress else statusCompleted), kr_response = resp, kr_created = t\<rparr>"

lemma tryOf_simps [simp]:
  "at_key (tryOf h ph) = (''acme'', ''k'')" "at_method (tryOf h ph) = ''/S/Void''"
  "at_hash (tryOf h ph) = h" "at_phase (tryOf h ph) = ph"
  "(tryOf h ph)\<lparr>at_phase := ph'\<rparr> = tryOf h ph'"
  by (simp_all add: tryOf_def)

lemma rowOf_fresh [simp]: "freshRow now ''/S/Void'' h = rowOf h now None"
  by (simp add: freshRow_def rowOf_def)

lemma rowOf_simps [simp]:
  "kr_status (rowOf h t resp) = (if resp = None then statusInProgress else statusCompleted)"
  "kr_hash (rowOf h t resp) = h" "kr_response (rowOf h t resp) = resp" "kr_created (rowOf h t resp) = t"
  "(rowOf h t r1)\<lparr>kr_status := statusCompleted, kr_response := Some r2\<rparr> = rowOf h t (Some r2)"
  by (simp_all add: rowOf_def)

definition clusterOf :: "time \<Rightarrow> key_row option \<Rightarrow> attempt list \<Rightarrow> ((string \<times> string) \<times> string \<times> string) list \<Rightarrow> cluster" where
  "clusterOf now row tries runs = \<lparr>cs_now = now,
     cs_table = (case row of None \<Rightarrow> Map.empty | Some r \<Rightarrow> [(''acme'', ''k'') \<mapsto> r]),
     cs_procs = (\<lambda>p. if p < length tries then Some (tries ! p) else None), cs_runs = runs\<rparr>"

lemma reach_arrive:
  assumes "reachable i lim (clusterOf now row tries runs)"
  shows "reachable i lim (clusterOf now row (tries @ [tryOf h AtInsert]) runs)"
proof -
  have "cstep i lim (clusterOf now row tries runs)
      ((clusterOf now row tries runs)\<lparr>cs_procs := (cs_procs (clusterOf now row tries runs))(length tries \<mapsto> tryOf h AtInsert)\<rparr>)"
    by (rule arrive) (simp_all add: clusterOf_def)
  also have "(clusterOf now row tries runs)\<lparr>cs_procs := (cs_procs (clusterOf now row tries runs))(length tries \<mapsto> tryOf h AtInsert)\<rparr>
      = clusterOf now row (tries @ [tryOf h AtInsert]) runs"
    by (auto simp: clusterOf_def fun_eq_iff nth_append)
  finally show ?thesis by (rule reachable.step [OF assms])
qed

lemma reach_move:
  assumes "reachable i lim (clusterOf now row tries runs)" and "p < length tries"
    and "cstep i lim (clusterOf now row tries runs)
           (goto ((clusterOf now row tries runs)\<lparr>cs_table := tb, cs_runs := runs'\<rparr>) p (tries ! p) ph)"
    and "tb = (case row' of None \<Rightarrow> Map.empty | Some r \<Rightarrow> [(''acme'', ''k'') \<mapsto> r])"
    and "tries' = tries[p := (tries ! p)\<lparr>at_phase := ph\<rparr>]"
  shows "reachable i lim (clusterOf now row' tries' runs')"
proof -
  have "goto ((clusterOf now row tries runs)\<lparr>cs_table := tb, cs_runs := runs'\<rparr>) p (tries ! p) ph
      = clusterOf now row' tries' runs'"
    using assms(2,4,5) by (auto simp: clusterOf_def goto_def fun_eq_iff nth_list_update)
  with assms(3) reachable.step [OF assms(1)] show ?thesis by simp
qed

lemma clusterOf_simps [simp]:
  "cs_now (clusterOf now row tries runs) = now"
  "cs_table (clusterOf now row tries runs) k = (if k = (''acme'', ''k'') then row else None)"
  "cs_procs (clusterOf now row tries runs) p = (if p < length tries then Some (tries ! p) else None)"
  "cs_runs (clusterOf now row tries runs) = runs"
  by (auto simp: clusterOf_def split: option.split)

lemma clusterOf_runs [simp]:
  "(clusterOf now row tries runs)\<lparr>cs_runs := runs\<rparr> = clusterOf now row tries runs"
  "(clusterOf now row tries runs)\<lparr>cs_table := t, cs_runs := runs\<rparr> = (clusterOf now row tries runs)\<lparr>cs_table := t\<rparr>"
  "(clusterOf now (Some r) tries runs)\<lparr>cs_table := [(''acme'', ''k'') \<mapsto> r]\<rparr> = clusterOf now (Some r) tries runs"
  by (simp_all add: clusterOf_def)

lemma clusterOf_table: "cs_table (clusterOf now row tries runs) =
    (case row of None \<Rightarrow> Map.empty | Some r \<Rightarrow> [(''acme'', ''k'') \<mapsto> r])"
  by (simp add: clusterOf_def)

lemma reach_insert:
  assumes "reachable i lim (clusterOf now row tries runs)" and "p < length tries" and "tries ! p = tryOf h AtInsert"
  shows "reachable i lim (clusterOf now (case row of None \<Rightarrow> Some (rowOf h now None) | Some r \<Rightarrow> Some r)
     (tries[p := tryOf h (case row of None \<Rightarrow> Running now | Some r \<Rightarrow> AtTakeover)]) runs)"
proof -
  obtain n t where e: "execInsert now (''acme'', ''k'') ''/S/Void'' h (cs_table (clusterOf now row tries runs)) = (n, t)"
    by (metis prod.exhaust)
  then have nt: "n = (if row = None then 1 else 0)"
    "t = (case row of None \<Rightarrow> [(''acme'', ''k'') \<mapsto> rowOf h now None] | Some r \<Rightarrow> [(''acme'', ''k'') \<mapsto> r])"
    by (auto simp: execInsert_def clusterOf_def split: option.splits)
  have "cstep i lim (clusterOf now row tries runs)
      (goto ((clusterOf now row tries runs)\<lparr>cs_table := t\<rparr>) p (tries ! p) (if n = 1 then Running now else AtTakeover))"
    using insert [of "clusterOf now row tries runs" p "tries ! p" n t i lim] e assms(2,3)
    by (cases "n = 1") simp_all
  then show ?thesis
    by (intro reach_move [OF assms(1,2), where tb = t and ph = "if n = 1 then Running now else AtTakeover"])
      (use nt assms(3) in \<open>auto split: option.splits\<close>)
qed

lemma reach_tick:
  assumes "reachable i None (clusterOf now row tries runs)" and "now \<le> now'"
  shows "reachable i None (clusterOf now' row tries runs)"
proof -
  have "(clusterOf now row tries runs)\<lparr>cs_now := now'\<rparr> = clusterOf now' row tries runs"
    by (simp add: clusterOf_def)
  with reachable.step [OF assms(1) tick, of now'] assms(2) show ?thesis by (simp add: within_def)
qed

lemma reach_takeover:
  assumes "reachable i lim (clusterOf now (Some r) tries runs)" and "p < length tries" and "tries ! p = tryOf h AtTakeover"
  shows "reachable i lim (clusterOf now (if takeable i now r then Some (rowOf h now None) else Some r)
     (tries[p := tryOf h (if takeable i now r then Running now else AtRead)]) runs)"
proof -
  obtain n t where e: "execTakeover i now (''acme'', ''k'') ''/S/Void'' h (cs_table (clusterOf now (Some r) tries runs)) = (n, t)"
    by (metis prod.exhaust)
  then have nt: "n = (if takeable i now r then 1 else 0)"
    "t = [(''acme'', ''k'') \<mapsto> (if takeable i now r then rowOf h now None else r)]"
    by (auto simp: execTakeover_def clusterOf_table split: if_splits)
  have "cstep i lim (clusterOf now (Some r) tries runs)
      (goto ((clusterOf now (Some r) tries runs)\<lparr>cs_table := t\<rparr>) p (tries ! p) (if n = 1 then Running now else AtRead))"
    using takeover [of "clusterOf now (Some r) tries runs" p "tries ! p" i n t lim] e assms(2,3)
    by (cases "n = 1") simp_all
  then show ?thesis
    by (intro reach_move [OF assms(1,2), where tb = t and ph = "if n = 1 then Running now else AtRead"])
      (use nt assms(3) in \<open>auto split: option.splits if_splits\<close>)
qed

lemma reach_read:
  assumes "reachable i lim (clusterOf now (Some r) tries runs)" and "p < length tries" and "tries ! p = tryOf h AtRead"
  shows "reachable i lim (clusterOf now (Some r) (tries[p := tryOf h (Finished (readOutcome h (Some r)))]) runs)"
  using read [of "clusterOf now (Some r) tries runs" p "tries ! p" i lim] assms(2,3)
  by (intro reach_move [OF assms(1,2), where tb = "cs_table (clusterOf now (Some r) tries runs)"
        and ph = "Finished (readOutcome h (Some r))"])
    (auto simp: clusterOf_table)

lemma reach_success:
  assumes "reachable i lim (clusterOf now (Some (rowOf h' t' r)) tries runs)" and "p < length tries"
    and "tries ! p = tryOf h (Running t0)"
  shows "reachable i lim (clusterOf now (Some (rowOf h' t' (Some resp))) (tries[p := tryOf h (Finished (Answered resp))])
     (((''acme'', ''k''), h, resp) # runs))"
  using success [of "clusterOf now (Some (rowOf h' t' r)) tries runs" p "tries ! p" t0 i lim resp True] assms(2,3)
  by (intro reach_move [OF assms(1,2), where tb = "execRecord (''acme'', ''k'') resp (cs_table (clusterOf now (Some (rowOf h' t' r)) tries runs))"
        and ph = "Finished (Answered resp)"])
    (auto simp: clusterOf_table execRecord_def)

text \<open>
  Without the bound both guarantees fail. A handler that outlives the stale window runs beside
  the one that took its key over, for a different request: the late one then records its response
  under the other's hash, and a retry of the other request is answered a response no handler ever
  gave for it.
\<close>

theorem late_handler_poisons_the_key:
  "\<exists>s p q r a b c t u resp.
     reachable (NewInterceptor None []) None s
     \<and> cs_procs s p = Some a \<and> at_phase a = Finished (Answered resp) \<and> at_hash a = ''h1''
     \<and> cs_procs s q = Some b \<and> at_phase b = Running u \<and> at_key b = at_key a \<and> at_hash b = ''h2''
     \<and> cs_procs s r = Some c \<and> at_phase c = Finished (Replayed resp) \<and> at_key c = at_key a
     \<and> at_hash c = ''h2'' \<and> (at_key c, at_hash c, resp) \<notin> set (cs_runs s)"
proof -
  let ?i = "NewInterceptor None []" and ?u = "11 * Minute"
  have stale: "takeable ?i ?u (rowOf ''h1'' 0 None)" and kept: "\<not> takeable ?i ?u (rowOf ''h2'' ?u (Some ''r1''))"
    by (simp_all add: takeable_def NewInterceptor_def DefaultTTL_def DefaultStaleAfter_def duration_defs)
  have "cinit 0 = clusterOf 0 None [] []" by (simp add: cinit_def clusterOf_def)
  then have "reachable ?i None (clusterOf 0 None [] [])" using reachable.start [of ?i None 0] by simp
  from reach_arrive [OF this, of "''h1''"]
  have "reachable ?i None (clusterOf 0 None [tryOf ''h1'' AtInsert] [])" by simp
  from reach_insert [OF this, of 0 "''h1''"]
  have "reachable ?i None (clusterOf 0 (Some (rowOf ''h1'' 0 None)) [tryOf ''h1'' (Running 0)] [])" by simp
  from reach_tick [OF this, of ?u]
  have "reachable ?i None (clusterOf ?u (Some (rowOf ''h1'' 0 None)) [tryOf ''h1'' (Running 0)] [])"
    by (simp add: duration_defs)
  from reach_arrive [OF this, of "''h2''"]
  have "reachable ?i None (clusterOf ?u (Some (rowOf ''h1'' 0 None)) [tryOf ''h1'' (Running 0), tryOf ''h2'' AtInsert] [])"
    by simp
  from reach_insert [OF this, of 1 "''h2''"]
  have "reachable ?i None (clusterOf ?u (Some (rowOf ''h1'' 0 None)) [tryOf ''h1'' (Running 0), tryOf ''h2'' AtTakeover] [])"
    by simp
  from reach_takeover [OF this, of 1 "''h2''"] stale
  have "reachable ?i None (clusterOf ?u (Some (rowOf ''h2'' ?u None)) [tryOf ''h1'' (Running 0), tryOf ''h2'' (Running ?u)] [])"
    by simp
  from reach_success [OF this, of 0 "''h1''" 0 "''r1''"]
  have "reachable ?i None (clusterOf ?u (Some (rowOf ''h2'' ?u (Some ''r1'')))
      [tryOf ''h1'' (Finished (Answered ''r1'')), tryOf ''h2'' (Running ?u)] [((''acme'', ''k''), ''h1'', ''r1'')])" by simp
  from reach_arrive [OF this, of "''h2''"]
  have "reachable ?i None (clusterOf ?u (Some (rowOf ''h2'' ?u (Some ''r1'')))
      [tryOf ''h1'' (Finished (Answered ''r1'')), tryOf ''h2'' (Running ?u), tryOf ''h2'' AtInsert]
      [((''acme'', ''k''), ''h1'', ''r1'')])" by simp
  from reach_insert [OF this, of 2 "''h2''"]
  have "reachable ?i None (clusterOf ?u (Some (rowOf ''h2'' ?u (Some ''r1'')))
      [tryOf ''h1'' (Finished (Answered ''r1'')), tryOf ''h2'' (Running ?u), tryOf ''h2'' AtTakeover]
      [((''acme'', ''k''), ''h1'', ''r1'')])" by (simp add: numeral_2_eq_2)
  from reach_takeover [OF this, of 2 "''h2''"] kept
  have "reachable ?i None (clusterOf ?u (Some (rowOf ''h2'' ?u (Some ''r1'')))
      [tryOf ''h1'' (Finished (Answered ''r1'')), tryOf ''h2'' (Running ?u), tryOf ''h2'' AtRead]
      [((''acme'', ''k''), ''h1'', ''r1'')])" by (simp add: numeral_2_eq_2)
  from reach_read [OF this, of 2 "''h2''"]
  have last: "reachable ?i None (clusterOf ?u (Some (rowOf ''h2'' ?u (Some ''r1'')))
      [tryOf ''h1'' (Finished (Answered ''r1'')), tryOf ''h2'' (Running ?u), tryOf ''h2'' (Finished (Replayed ''r1''))]
      [((''acme'', ''k''), ''h1'', ''r1'')])" by (simp add: numeral_2_eq_2 readOutcome_def)
  show ?thesis
    by (rule exI [of _ "clusterOf ?u (Some (rowOf ''h2'' ?u (Some ''r1'')))
      [tryOf ''h1'' (Finished (Answered ''r1'')), tryOf ''h2'' (Running ?u), tryOf ''h2'' (Finished (Replayed ''r1''))]
      [((''acme'', ''k''), ''h1'', ''r1'')]"], rule exI [of _ 0], rule exI [of _ 1], rule exI [of _ 2])
      (use last in \<open>simp add: numeral_2_eq_2\<close>)
qed

section \<open>The guarantees at work\<close>

lemma first_claim: "reachable i lim (clusterOf 0 (Some (rowOf h 0 None)) [tryOf h (Running 0)] [])"
proof -
  have "cinit 0 = clusterOf 0 None [] []" by (simp add: cinit_def clusterOf_def)
  then have "reachable i lim (clusterOf 0 None [] [])" using reachable.start [of i lim 0] by simp
  from reach_arrive [OF this, of h]
  have "reachable i lim (clusterOf 0 None [tryOf h AtInsert] [])" by simp
  from reach_insert [OF this, of 0 h] show ?thesis by simp
qed

theorem one_handler_per_key_witness:
  "{q. \<exists>b u. cs_procs (clusterOf 0 (Some (rowOf ''h'' 0 None)) [tryOf ''h'' (Running 0)] []) q = Some b
        \<and> at_phase b = Running u \<and> at_key b = (''acme'', ''k'')} = {0}"
  using one_handler_per_key [OF first_claim [of sample_interceptor "Some Minute" "''h''"], of 0 "tryOf ''h'' (Running 0)" 0]
  by (simp add: duration_defs)

theorem replay_is_of_the_same_request_witness:
  "\<exists>(s :: cluster) (a :: attempt). cs_procs s 1 = Some a \<and> at_phase a = Finished (Replayed ''r'')
      \<and> (at_key a, at_hash a, ''r'') \<in> set (cs_runs s)"
proof -
  let ?i = sample_interceptor and ?lim = "Some Minute" and ?row = "Some (rowOf ''h'' 0 (Some ''r''))"
  let ?runs = "[((''acme'', ''k''), ''h'', ''r'')]" and ?first = "tryOf ''h'' (Finished (Answered ''r''))"
  have kept: "\<not> takeable ?i 0 (rowOf ''h'' 0 (Some ''r''))" by (simp add: takeable_def)
  from reach_success [OF first_claim [of ?i ?lim "''h''"], of 0 "''h''" 0 "''r''"]
  have "reachable ?i ?lim (clusterOf 0 ?row [?first] ?runs)" by simp
  from reach_arrive [OF this, of "''h''"]
  have "reachable ?i ?lim (clusterOf 0 ?row [?first, tryOf ''h'' AtInsert] ?runs)" by simp
  from reach_insert [OF this, of 1 "''h''"]
  have "reachable ?i ?lim (clusterOf 0 ?row [?first, tryOf ''h'' AtTakeover] ?runs)" by simp
  from reach_takeover [OF this, of 1 "''h''"] kept
  have "reachable ?i ?lim (clusterOf 0 ?row [?first, tryOf ''h'' AtRead] ?runs)" by simp
  from reach_read [OF this, of 1 "''h''"]
  have r: "reachable ?i ?lim (clusterOf 0 ?row [?first, tryOf ''h'' (Finished (Replayed ''r''))] ?runs)"
    by (simp add: readOutcome_def)
  let ?s = "clusterOf 0 ?row [?first, tryOf ''h'' (Finished (Replayed ''r''))] ?runs"
  have "((''acme'', ''k''), ''h'', ''r'') \<in> set (cs_runs ?s)"
    using replay_is_of_the_same_request [OF r, of 1 "tryOf ''h'' (Finished (Replayed ''r''))" "''r''"]
    by (simp add: duration_defs)
  then show ?thesis
    by - (rule exI [where x = ?s], simp)
qed

theorem a_recorded_write_is_final_witness:
  "\<exists>s' :: cluster. cs_now s' = Hour \<and> run sample_interceptor Some Some (sample_run_env Hour) (''acme'', ''k'') ''/S/Void'' ''h''
      (\<lambda>(n :: nat, tb). (Inr ''again'' :: string + string, Suc n, tb)) (0, cs_table s') = (Inr ''r'' :: string idem_error + string, 0, cs_table s')"
proof -
  let ?i = sample_interceptor and ?row = "rowOf ''h'' 0 (Some ''r'')"
  let ?s = "clusterOf 0 (Some ?row) [tryOf ''h'' (Finished (Answered ''r''))] [((''acme'', ''k''), ''h'', ''r'')]"
  have s: "reachable ?i (Some Minute) ?s"
    using reach_success [OF first_claim [of ?i "Some Minute" "''h''"], of 0 "''h''" 0 "''r''"] by simp
  have "within (Some Minute) ?s Hour" by (simp add: within_def)
  then have "(cstep ?i (Some Minute))\<^sup>*\<^sup>* ?s (?s\<lparr>cs_now := Hour\<rparr>)"
    by (intro r_into_rtranclp tick) (simp_all add: duration_defs)
  from a_recorded_write_is_final [OF s _ _ _ _ _ this, of "(''acme'', ''k'')" ?row Some Some True "''/S/Void''" "''h''"
      "\<lambda>(n :: nat, tb). (Inr ''again'' :: string + string, Suc n, tb)" 0]
  have "run ?i Some Some (sample_run_env Hour) (''acme'', ''k'') ''/S/Void'' ''h''
      (\<lambda>(n :: nat, tb). (Inr ''again'' :: string + string, Suc n, tb)) (0, cs_table (?s\<lparr>cs_now := Hour\<rparr>))
      = (Inr ''r'' :: string idem_error + string, 0, cs_table (?s\<lparr>cs_now := Hour\<rparr>))"
    by (simp add: sample_run_env_def duration_defs)
  then show ?thesis by (intro exI [of _ "?s\<lparr>cs_now := Hour\<rparr>"]) simp
qed

text \<open>What the interceptor and the catalog call a write.\<close>

lemma IsWrite_catalog:
  "catalogOK es \<Longrightarrow> e \<in> set es \<Longrightarrow>
     IsWrite (NewInterceptor (Some (MethodEffects es)) opts) (FullMethod e) \<longleftrightarrow> en_Effect e \<noteq> EffectRead"
proof -
  have "ii_methods (foldl applyInterceptorOption i opts) = ii_methods i" for i
  proof (induction opts arbitrary: i)
    case (Cons op opts)
    then show ?case by (cases op) simp_all
  qed simp
  then show "catalogOK es \<Longrightarrow> e \<in> set es \<Longrightarrow> ?thesis"
    by (simp add: IsWrite_def NewInterceptor_def MethodEffects_entry)
qed

section \<open>Who may write\<close>

definition sentKeys :: "'a ctx_scheme \<Rightarrow> string list" where
  "sentKeys ctx = mdGet (case ctx_incoming ctx of None \<Rightarrow> Map.empty | Some md \<Rightarrow> md) MetadataKey"

definition validKey :: "string \<Rightarrow> bool" where
  "validKey k \<longleftrightarrow> 0 < length k \<and> length k \<le> 255 \<and> set (runes k) \<subseteq> {33..126}"

lemma keyFrom_sent:
  "keyFrom ctx = Inr key \<longleftrightarrow> (sentKeys ctx = [] \<and> key = []) \<or> (sentKeys ctx = [key] \<and> validKey key)"
proof -
  have "(\<not> list_ex (\<lambda>r. r < 33 \<or> r > 126) rs) \<longleftrightarrow> set rs \<subseteq> {33..126}" for rs :: "nat list"
    by (auto simp: list_ex_iff)
  then show ?thesis
    by (auto simp: keyFrom_def sentKeys_def validKey_def Let_def MaxKeyLength_def split: list.split)
qed

text \<open>A claim is won on a free key or on one that may be taken over, and leaves the claimer's row.\<close>

lemma claimKey_won:
  assumes "claimKey i ce k method hash t = (Inr None, t')"
  shows "(t k = None \<or> (\<exists>r now. t k = Some r \<and> ce_takeover ce = Inr now \<and> takeable i now r))
     \<and> (\<exists>now. t' = t(k \<mapsto> freshRow now method hash))"
  using assms
  by (auto simp: claimKey_def execInsert_def execTakeover_def split: sum.splits option.splits if_splits prod.splits)

lemma run_changes:
  assumes "fst (snd (run i mr ur env k method hash handler (w, t))) \<noteq> w"
  shows "\<exists>t'. claimKey i (re_claim env) k method hash t = (Inr None, t') \<and> fst (snd (handler (w, t'))) \<noteq> w"
proof (cases "re_pool env")
  case (Inr u)
  obtain r t' where c: "claimKey i (re_claim env) k method hash t = (r, t')" by (cases "claimKey i (re_claim env) k method hash t")
  obtain hr w' t'' where h: "handler (w, t') = (hr, w', t'')" by (cases "handler (w, t')")
  from assms Inr c h show ?thesis
    by (cases r; cases hr) (auto simp: run_def split: option.splits)
qed (use assms in \<open>simp add: run_def\<close>)

lemma keyless_machine:
  "IsWrite i method \<Longrightarrow> ClaimsFrom ctx = Some c \<Longrightarrow> keyFrom ctx = (Inr [] :: 'e idem_error + string) \<Longrightarrow>
     PrincipalType (Some c) \<noteq> PrincipalUser \<Longrightarrow>
     snd (idemUnary i sha256 marshal mr ur env ctx req method (handler :: ('w, 'e, 'resp) handler) world) = world"
  by (simp add: idemUnary_def)

text \<open>
  C3. An authenticated write changes nothing without its key. When a call of a write method with
  claims changes the world, whatever the handler and the store: either a person sent no key at all, or
  the call sent exactly one key, printable and of 1 to 255 characters, the key was free for its tenant
  or held by a row older than the TTL or in progress past the stale window, and the handler ran on the
  table in which the row of the key is this call's own, with the hash of this very request. So a
  machine never writes without a key, and nobody writes on a key another attempt holds.
\<close>

theorem a_write_owns_its_key:
  assumes "IsWrite i method" and "ClaimsFrom ctx = Some c"
    and "fst (snd (idemUnary i sha256 marshal mr ur env ctx req method (handler :: ('w, 'e, 'resp) handler) (w, t))) \<noteq> w"
  shows "(PrincipalType (Some c) = PrincipalUser \<and> sentKeys ctx = [])
     \<or> (\<exists>key msg hash now. sentKeys ctx = [key] \<and> validKey key
          \<and> req = Some msg \<and> requestHash sha256 marshal method c msg = Some hash
          \<and> (t (cl_TenantID c, key) = None
             \<or> (\<exists>r late. t (cl_TenantID c, key) = Some r \<and> ce_takeover (re_claim env) = Inr late
                  \<and> (kr_created r < late - ii_ttl i
                     \<or> kr_status r = statusInProgress \<and> kr_created r < late - ii_staleAfter i)))
          \<and> fst (snd (handler (w, t((cl_TenantID c, key) \<mapsto> freshRow now method hash)))) \<noteq> w)"
proof (cases "keyFrom ctx :: 'e idem_error + string")
  case (Inl e)
  with assms show ?thesis by (simp add: idemUnary_def)
next
  case (Inr key)
  note sent = iffD1 [OF keyFrom_sent Inr]
  show ?thesis
  proof (cases "key = []")
    case True
    with sent have "sentKeys ctx = []" by (auto simp: validKey_def)
    moreover have "PrincipalType (Some c) = PrincipalUser"
      using assms Inr True keyless_machine by (metis fst_conv)
    ultimately show ?thesis by simp
  next
    case False
    with sent have key: "sentKeys ctx = [key]" "validKey key" by auto
    from assms Inr False obtain msg hash where req: "req = Some msg" "requestHash sha256 marshal method c msg = Some hash"
      and run: "fst (snd (run i mr ur env (cl_TenantID c, key) method hash handler (w, t))) \<noteq> w"
      by (auto simp: idemUnary_def split: option.splits)
    from run_changes [OF run] obtain t' where
      won: "claimKey i (re_claim env) (cl_TenantID c, key) method hash t = (Inr None, t')"
      and h: "fst (snd (handler (w, t'))) \<noteq> w" by blast
    from claimKey_won [OF won] h key req show ?thesis unfolding takeable_def by blast
  qed
qed

definition keyedMachine :: auth_ctx where
  "keyedMachine = ContextWithClaims
     \<lparr>ctx_tenant = None, ctx_subject = None, ctx_entitlements = None,
      ctx_incoming = Some [MetadataKey \<mapsto> [''k'']], ctx_outgoing = [], ctx_claims = None\<rparr>
     (emptyClaims\<lparr>cl_PrincipalTypeClaim := PrincipalService\<rparr>)"

theorem a_write_owns_its_key_witness:
  "\<exists>key. sentKeys keyedMachine = [key] \<and> validKey key"
proof -
  let ?c = "emptyClaims\<lparr>cl_PrincipalTypeClaim := PrincipalService\<rparr>"
  let ?h = "\<lambda>(n :: nat, t :: key_table). (Inr ''ok'' :: string + string, Suc n, t)"
  have key: "keyFrom keyedMachine = (Inr ''k'' :: string idem_error + string)"
    by (simp add: keyFrom_def keyedMachine_def mdGet_def MaxKeyLength_def next_rune_def)
  have w: "IsWrite sample_interceptor ''/S/Void''" by (simp add: IsWrite_def sample_interceptor_def NewInterceptor_def afterLast_def)
  have c: "ClaimsFrom keyedMachine = Some ?c" by (simp add: keyedMachine_def)
  have "fst (snd (idemUnary sample_interceptor id (Some :: string \<Rightarrow> _) Some Some (sample_run_env 0) keyedMachine (Some ''r'')
      ''/S/Void'' ?h (0, Map.empty))) \<noteq> 0"
    by (simp add: idemUnary_def w c key requestHash_def run_def sample_run_env_def claimKey_def execInsert_def)
  from a_write_owns_its_key [OF w c this] show ?thesis
    by (auto simp: PrincipalType_def principal_defs emptyClaims_def)
qed

text \<open>
  A machine's write needs a key. Whatever the handler and the store, a call of a method that is
  a write, by a principal that is not a person, without exactly one printable key of 1 to 255
  characters is answered \<open>InvalidArgument\<close> and changes nothing.
\<close>

theorem machine_write_needs_key:
  assumes "IsWrite i method" and "ClaimsFrom ctx = Some c" and "PrincipalType (Some c) \<noteq> PrincipalUser"
    and "\<nexists>k. ctx_incoming ctx \<noteq> None \<and> the (ctx_incoming ctx) MetadataKey = Some [k]
           \<and> 0 < length k \<and> length k \<le> 255 \<and> set (runes k) \<subseteq> {33..126}"
  shows "\<exists>e :: 'e idem_error. idemUnary i sha256 marshal mr ur env ctx req method handler world = (Inl e, world)
           \<and> idemCode e = Some InvalidArgument"
proof (cases "keyFrom ctx :: 'e idem_error + string")
  case (Inl err)
  then have "idemCode err = Some InvalidArgument"
    by (auto simp: keyFrom_def Let_def split: list.splits if_splits)
  with Inl assms(1,2) show ?thesis by (simp add: idemUnary_def)
next
  case (Inr k)
  have "k = []"
  proof (rule ccontr)
    assume "k \<noteq> []"
    with Inr have "mdGet (case ctx_incoming ctx of None \<Rightarrow> Map.empty | Some md \<Rightarrow> md) MetadataKey = [k]"
      "length k \<le> 255" "\<forall>r \<in> set (runes k). 33 \<le> r \<and> r \<le> 126"
      by (auto simp: keyFrom_def Let_def MaxKeyLength_def list_ex_iff split: list.splits if_splits)
    then show False using assms(4) \<open>k \<noteq> []\<close>
      by (auto simp: mdGet_def split: option.splits)
  qed
  with Inr assms(1-3) show ?thesis by (simp add: idemUnary_def)
qed

definition authenticatedMachine :: auth_ctx where
  "authenticatedMachine = ContextWithClaims
     \<lparr>ctx_tenant = None, ctx_subject = None, ctx_entitlements = None, ctx_incoming = Some Map.empty,
      ctx_outgoing = [], ctx_claims = None\<rparr> (emptyClaims\<lparr>cl_PrincipalTypeClaim := PrincipalService\<rparr>)"

theorem machine_write_needs_key_witness:
  "\<exists>e :: string idem_error. idemUnary (NewInterceptor None []) id (Some :: string \<Rightarrow> _) Some Some
       (sample_run_env 0) (authenticatedMachine) (Some ''r'') ''/S/Void'' (\<lambda>w. (Inr ''ok'', w)) ((), Map.empty)
       = (Inl e, (), Map.empty) \<and> idemCode e = Some InvalidArgument"
  by (rule machine_write_needs_key [where c = "emptyClaims\<lparr>cl_PrincipalTypeClaim := PrincipalService\<rparr>"])
    (simp_all add: authenticatedMachine_def PrincipalType_def principal_defs IsWrite_def NewInterceptor_def
      afterLast_def)

section \<open>What is recorded of a response\<close>

text \<open>
  \<open>marshalResponse\<close> and \<open>unmarshalResponse\<close>, over the protobuf runtime: whether a response is a message
  (and the message as a response again), the packing of a message into an \<open>Any\<close>, the encoding of an
  \<open>Any\<close>, and the way back by the registry. \<open>run\<close> only logs the errors, so they are \<^term>\<open>None\<close>.
\<close>

record ('resp, 'm, 'any) proto_runtime =
  pr_asMessage :: "'resp \<Rightarrow> 'm option"
  pr_ofMessage :: "'m \<Rightarrow> 'resp"
  pr_anyNew :: "'m \<Rightarrow> 'any option"
  pr_marshalAny :: "'any \<Rightarrow> string option"
  pr_unmarshalAny :: "string \<Rightarrow> 'any option"
  pr_unmarshalNew :: "'any \<Rightarrow> 'm option"

definition marshalResponse :: "('resp, 'm, 'any) proto_runtime \<Rightarrow> 'resp \<Rightarrow> string option" where
  "marshalResponse L resp = (case pr_asMessage L resp of
      None \<Rightarrow> None
    | Some msg \<Rightarrow> (case pr_anyNew L msg of
        None \<Rightarrow> None
      | Some a \<Rightarrow> pr_marshalAny L a))"

definition unmarshalResponse :: "('resp, 'm, 'any) proto_runtime \<Rightarrow> string \<Rightarrow> 'resp option" where
  "unmarshalResponse L b = (case pr_unmarshalAny L b of
      None \<Rightarrow> None
    | Some a \<Rightarrow> map_option (pr_ofMessage L) (pr_unmarshalNew L a))"

text \<open>
  What the kit relies on: an \<open>Any\<close> is read back as it was encoded, and the registry rebuilds the
  message that was packed. Then a recorded response is read back as it was given.
\<close>

definition faithfulRuntime :: "('resp, 'm, 'any) proto_runtime \<Rightarrow> bool" where
  "faithfulRuntime L \<longleftrightarrow>
     (\<forall>r msg. pr_asMessage L r = Some msg \<longrightarrow> pr_ofMessage L msg = r)
     \<and> (\<forall>a b. pr_marshalAny L a = Some b \<longrightarrow> pr_unmarshalAny L b = Some a)
     \<and> (\<forall>msg a. pr_anyNew L msg = Some a \<longrightarrow> pr_unmarshalNew L a = Some msg)"

lemma response_roundtrip:
  "faithfulRuntime L \<Longrightarrow> marshalResponse L r = Some b \<Longrightarrow> unmarshalResponse L b = Some r"
  by (auto simp: faithfulRuntime_def marshalResponse_def unmarshalResponse_def split: option.splits)

end
