(* ===== verification/Outbox_Causation.thy ===== *)
theory Outbox_Causation
  imports Kit_Prelude
begin

text \<open>
  The causal chain of an event and the agent loop guard (\<open>NextCausation\<close> and \<open>Validate\<close> of
  \<open>src/outbox/meta.go\<close>). A \<open>*Causation\<close> may be nil, which is \<^term>\<open>None\<close>.
\<close>

record causation =
  ca_EventID :: string
  ca_PrincipalType :: string
  ca_PrincipalID :: string
  ca_Chain :: "string list"

definition DefaultMaxCausationDepth :: int where
  "DefaultMaxCausationDepth = 8"

datatype causation_error = NeedsPrincipal | CausationTooDeep nat int | CausationCycle string

definition depthOrDefault :: "int \<Rightarrow> int" where
  "depthOrDefault maxDepth = (if maxDepth \<le> 0 then DefaultMaxCausationDepth else maxDepth)"

text \<open>The loop over the chain with the set of principals seen so far.\<close>

fun firstRepeated :: "string set \<Rightarrow> string list \<Rightarrow> string option" where
  "firstRepeated seen [] = None"
| "firstRepeated seen (p # ps) = (if p \<in> seen then Some p else firstRepeated (insert p seen) ps)"

definition validateCausation :: "causation option \<Rightarrow> int \<Rightarrow> causation_error + unit" where
  "validateCausation oc maxDepth = (case oc of None \<Rightarrow> Inr () | Some c \<Rightarrow>
     let maxDepth = depthOrDefault maxDepth in
     if int (length (ca_Chain c)) > maxDepth then Inl (CausationTooDeep (length (ca_Chain c)) maxDepth)
     else (case firstRepeated {} (ca_Chain c) of
         Some p \<Rightarrow> Inl (CausationCycle p)
       | None \<Rightarrow> Inr ()))"

definition NextCausation ::
    "string \<Rightarrow> causation option \<Rightarrow> string \<Rightarrow> string \<Rightarrow> int \<Rightarrow> causation_error + causation" where
  "NextCausation triggerEventID triggerCausation principalType principalID maxDepth =
     (let maxDepth = depthOrDefault maxDepth in
      if principalID = [] then Inl NeedsPrincipal
      else and_then (case triggerCausation of
            None \<Rightarrow> Inr []
          | Some c \<Rightarrow> and_then (validateCausation (Some c) maxDepth) (\<lambda>_. Inr (ca_Chain c)))
        (\<lambda>prev.
          if list_ex (\<lambda>p. p = principalID) prev then Inl (CausationCycle principalID)
          else if int (length prev + 1) > maxDepth then Inl (CausationTooDeep (length prev + 1) maxDepth)
          else Inr \<lparr>ca_EventID = triggerEventID, ca_PrincipalType = principalType,
                    ca_PrincipalID = principalID, ca_Chain = prev @ [principalID]\<rparr>))"

section \<open>Chains\<close>

lemma depthOrDefault_pos: "0 < depthOrDefault d"
  by (simp add: depthOrDefault_def DefaultMaxCausationDepth_def)

lemma depthOrDefault_idem [simp]: "depthOrDefault (depthOrDefault d) = depthOrDefault d"
  using depthOrDefault_pos [of d] by (simp add: depthOrDefault_def [of "depthOrDefault d"])

lemma firstRepeated_None: "firstRepeated seen ps = None \<longleftrightarrow> distinct ps \<and> seen \<inter> set ps = {}"
  by (induction ps arbitrary: seen) auto

lemma validateCausation_Inr:
  "validateCausation oc d = Inr () \<longleftrightarrow> (case oc of None \<Rightarrow> True | Some c \<Rightarrow>
     distinct (ca_Chain c) \<and> int (length (ca_Chain c)) \<le> depthOrDefault d)"
proof (cases oc)
  case (Some c)
  then show ?thesis
    using firstRepeated_None [of "{}" "ca_Chain c"]
    by (auto simp: validateCausation_def Let_def not_less split: option.splits)
qed (simp add: validateCausation_def)

definition chainOf :: "causation option \<Rightarrow> string list" where
  "chainOf oc = (case oc of None \<Rightarrow> [] | Some c \<Rightarrow> ca_Chain c)"

lemma NextCausation_Inr:
  "NextCausation ev oc pt pid d = Inr c \<longleftrightarrow>
     pid \<noteq> [] \<and> distinct (chainOf oc @ [pid]) \<and> int (length (chainOf oc) + 1) \<le> depthOrDefault d
     \<and> c = \<lparr>ca_EventID = ev, ca_PrincipalType = pt, ca_PrincipalID = pid, ca_Chain = chainOf oc @ [pid]\<rparr>"
  by (cases oc) (auto simp: NextCausation_def chainOf_def Let_def and_then_eq_Inr list_ex_iff
      validateCausation_Inr)

text \<open>A path of reactions: each principal handles the event the one before emitted.\<close>

fun reactions :: "int \<Rightarrow> causation option \<Rightarrow> (string \<times> string \<times> string) list \<Rightarrow> causation_error + causation option" where
  "reactions d oc [] = Inr oc"
| "reactions d oc ((ev, pt, pid) # rs) =
     and_then (NextCausation ev oc pt pid d) (\<lambda>c. reactions d (Some c) rs)"

lemma reactions_Inr:
  assumes "distinct (chainOf oc)" and "int (length (chainOf oc)) \<le> depthOrDefault d"
  shows "(\<exists>oc'. reactions d oc rs = Inr oc' \<and> chainOf oc' = chainOf oc @ map (snd \<circ> snd) rs) \<longleftrightarrow>
     [] \<notin> (snd \<circ> snd) ` set rs \<and> distinct (chainOf oc @ map (snd \<circ> snd) rs)
     \<and> int (length (chainOf oc) + length rs) \<le> depthOrDefault d"
  using assms
proof (induction rs arbitrary: oc)
  case (Cons r rs)
  obtain ev pt pid where r: "r = (ev, pt, pid)" by (cases r)
  show ?case
  proof (cases "NextCausation ev oc pt pid d")
    case (Inl e)
    then have "\<not> (pid \<noteq> [] \<and> distinct (chainOf oc @ [pid]) \<and> int (length (chainOf oc) + 1) \<le> depthOrDefault d)"
      using NextCausation_Inr [of ev oc pt pid d] by auto
    with Inl r show ?thesis by auto
  next
    case (Inr c)
    from Inr [unfolded NextCausation_Inr] have c: "pid \<noteq> []" "chainOf (Some c) = chainOf oc @ [pid]"
      "distinct (chainOf (Some c))" "int (length (chainOf (Some c))) \<le> depthOrDefault d"
      by (auto simp: chainOf_def)
    from Cons.IH [OF c(3,4)] Inr r c(1,2) show ?thesis by auto
  qed
qed auto

text \<open>
  The agent loop guard ends every loop. A path of reactions that starts at an event with no
  cause goes through exactly when every principal has an id, no principal acts twice on it and it
  has at most the depth (8 by default); the event it ends with then carries the principals of the
  path, oldest first. So no principal ever reacts to its own doing, directly or through others.
\<close>

theorem causal_path_is_bounded:
  "(\<exists>oc. reactions d None rs = Inr oc \<and> chainOf oc = map (snd \<circ> snd) rs) \<longleftrightarrow>
     [] \<notin> (snd \<circ> snd) ` set rs \<and> distinct (map (snd \<circ> snd) rs)
     \<and> int (length rs) \<le> (if d \<le> 0 then 8 else d)"
  using reactions_Inr [of None d rs] depthOrDefault_pos [of d]
  by (auto simp: chainOf_def depthOrDefault_def DefaultMaxCausationDepth_def)

end
