(* ===== verification/Outbox_Store.thy ===== *)
theory Outbox_Store
  imports Outbox_Causation Tenant_Ctx
begin

text \<open>
  The outbox and processed-events tables of one tenant database with the statements of
  \<open>src/outbox/outbox.go\<close> and \<open>InsertWith\<close> of \<open>src/outbox/meta.go\<close>, and the transactions they run in
  (\<open>src/tenancy/base.go\<close>, \<open>src/tenancy/outboxwake.go\<close>). What the Core keeps in the same database is
  the component \<open>db_domain\<close>. The database supplies id, event id and creation time of a row
  (\<open>gen\<close>), the canonical text of a \<open>jsonb\<close> value (\<open>jsonb\<close>, \<^term>\<open>None\<close> for invalid JSON), and may
  fail a statement (an error argument).
\<close>

section \<open>Rows and tables\<close>

record outbox_row =
  or_id :: int
  or_event :: string
  or_tenant :: string
  or_subject :: string
  or_payload :: string
  or_created :: time
  or_traceparent :: "string option"
  or_causation :: "string option"
  or_published :: "time option"
  or_attempts :: nat

record 'd tenant_db =
  db_rows :: "outbox_row list"
  db_columns :: bool
  db_processed :: "(string \<times> string \<times> string) list"
  db_domain :: 'd

text \<open>\<open>Row\<close>, what a fetch returns.\<close>

record event_row =
  rw_ID :: int
  rw_EventID :: string
  rw_TenantID :: string
  rw_Subject :: string
  rw_Payload :: string
  rw_CreatedAt :: time
  rw_Traceparent :: string
  rw_Causation :: string

record row_gen =
  ge_id :: int
  ge_event :: string
  ge_now :: time

datatype store_error =
    InsertFailed string
  | MarshalCausation
  | FetchFailed string
  | StatementFailed string
  | AlreadyProcessed

section \<open>Statements\<close>

definition newRow ::
    "row_gen \<Rightarrow> string \<Rightarrow> string \<Rightarrow> string \<Rightarrow> string option \<Rightarrow> string option \<Rightarrow> outbox_row" where
  "newRow gen tenant subject payload traceparent causation =
     \<lparr>or_id = ge_id gen, or_event = ge_event gen, or_tenant = tenant, or_subject = subject,
      or_payload = payload, or_created = ge_now gen, or_traceparent = traceparent,
      or_causation = causation, or_published = None, or_attempts = 0\<rparr>"

text \<open>
  A step inside a transaction: the database as the transaction sees it and the marks of
  \<open>MarkOutbox\<close>, the transactions that wrote an event.
\<close>

type_synonym ('d, 'a) tx_step = "'d tenant_db \<times> nat set \<Rightarrow> (store_error + 'a) \<times> 'd tenant_db \<times> nat set"

definition MarkOutbox :: "nat \<Rightarrow> nat set \<Rightarrow> nat set" where
  "MarkOutbox tx marks = insert tx marks"

definition Insert ::
    "(string \<Rightarrow> string option) \<Rightarrow> row_gen \<Rightarrow> nat \<Rightarrow> string \<Rightarrow> string \<Rightarrow> string \<Rightarrow> ('d, string) tx_step" where
  "Insert jsonb gen tx tenant subject payload w = (case w of (db, marks) \<Rightarrow>
     (case jsonb payload of
        None \<Rightarrow> (Inl (InsertFailed payload), db, marks)
      | Some p \<Rightarrow> (Inr (ge_event gen),
          db\<lparr>db_rows := db_rows db @ [newRow gen tenant subject p None None]\<rparr>, MarkOutbox tx marks)))"

record meta =
  me_Traceparent :: string
  me_Causation :: "causation option"

definition InsertWith ::
    "(string \<Rightarrow> string option) \<Rightarrow> (causation \<Rightarrow> string option) \<Rightarrow> row_gen \<Rightarrow> nat \<Rightarrow> string \<Rightarrow> string
       \<Rightarrow> string \<Rightarrow> meta \<Rightarrow> ('d, string) tx_step" where
  "InsertWith jsonb marshal gen tx tenant subject payload m w = (case w of (db, marks) \<Rightarrow>
     let traceparent = (if me_Traceparent m \<noteq> [] then Some (me_Traceparent m) else None) in
     case (case me_Causation m of None \<Rightarrow> Some None | Some c \<Rightarrow> map_option Some (marshal c)) of
       None \<Rightarrow> (Inl MarshalCausation, db, marks)
     | Some causation \<Rightarrow>
         if \<not> db_columns db then (Inl (InsertFailed ''column does not exist''), db, marks)
         else (case (jsonb payload, case causation of None \<Rightarrow> Some None | Some c \<Rightarrow> map_option Some (jsonb c)) of
             (Some p, Some c) \<Rightarrow> (Inr (ge_event gen),
               db\<lparr>db_rows := db_rows db @ [newRow gen tenant subject p traceparent c]\<rparr>, marks)
           | _ \<Rightarrow> (Inl (InsertFailed payload), db, marks)))"

definition toRow :: "bool \<Rightarrow> outbox_row \<Rightarrow> event_row" where
  "toRow withMeta r = \<lparr>rw_ID = or_id r, rw_EventID = or_event r, rw_TenantID = or_tenant r,
     rw_Subject = or_subject r, rw_Payload = or_payload r, rw_CreatedAt = or_created r,
     rw_Traceparent = (if withMeta then (case or_traceparent r of None \<Rightarrow> [] | Some t \<Rightarrow> t) else []),
     rw_Causation = (if withMeta then (case or_causation r of None \<Rightarrow> [] | Some c \<Rightarrow> c) else [])\<rparr>"

definition unpublished :: "string \<Rightarrow> 'd tenant_db \<Rightarrow> outbox_row list" where
  "unpublished tenant db =
     sort_key or_id (filter (\<lambda>r. or_published r = None \<and> or_tenant r = tenant) (db_rows db))"

definition fetchRows ::
    "string + unit \<Rightarrow> string \<Rightarrow> int \<Rightarrow> bool \<Rightarrow> 'd tenant_db \<Rightarrow> store_error + event_row list" where
  "fetchRows fault tenant limit withMeta db = (case fault of
       Inl e \<Rightarrow> Inl (FetchFailed e)
     | Inr _ \<Rightarrow>
         if withMeta \<and> \<not> db_columns db then Inl (FetchFailed ''column does not exist'')
         else if limit < 0 then Inl (FetchFailed ''LIMIT must not be negative'')
         else Inr (map (toRow withMeta) (take (nat limit) (unpublished tenant db))))"

definition FetchUnpublished ::
    "string + unit \<Rightarrow> string \<Rightarrow> int \<Rightarrow> 'd tenant_db \<Rightarrow> store_error + event_row list" where
  "FetchUnpublished fault tenant limit db = fetchRows fault tenant limit False db"

definition FetchUnpublishedWithMeta ::
    "string + unit \<Rightarrow> string \<Rightarrow> int \<Rightarrow> 'd tenant_db \<Rightarrow> store_error + event_row list" where
  "FetchUnpublishedWithMeta fault tenant limit db = fetchRows fault tenant limit True db"

definition updateRows ::
    "(outbox_row \<Rightarrow> outbox_row) \<Rightarrow> string \<Rightarrow> int \<Rightarrow> 'd tenant_db \<Rightarrow> 'd tenant_db" where
  "updateRows f tenant i db =
     db\<lparr>db_rows := map (\<lambda>r. if or_id r = i \<and> or_tenant r = tenant then f r else r) (db_rows db)\<rparr>"

definition MarkPublished ::
    "string + time \<Rightarrow> string \<Rightarrow> int \<Rightarrow> 'd tenant_db \<Rightarrow> (store_error + unit) \<times> 'd tenant_db" where
  "MarkPublished fault tenant i db = (case fault of
       Inl e \<Rightarrow> (Inl (StatementFailed e), db)
     | Inr now \<Rightarrow> (Inr (), updateRows (\<lambda>r. r\<lparr>or_published := Some now\<rparr>) tenant i db))"

definition BumpAttempts ::
    "string + unit \<Rightarrow> string \<Rightarrow> int \<Rightarrow> 'd tenant_db \<Rightarrow> (store_error + unit) \<times> 'd tenant_db" where
  "BumpAttempts fault tenant i db = (case fault of
       Inl e \<Rightarrow> (Inl (StatementFailed e), db)
     | Inr _ \<Rightarrow> (Inr (), updateRows (\<lambda>r. r\<lparr>or_attempts := or_attempts r + 1\<rparr>) tenant i db))"

definition MarkProcessed ::
    "string + unit \<Rightarrow> string \<Rightarrow> string \<Rightarrow> string \<Rightarrow> ('d, unit) tx_step" where
  "MarkProcessed fault tenant event subject w = (case w of (db, marks) \<Rightarrow>
     (case fault of
        Inl e \<Rightarrow> (Inl (StatementFailed e), db, marks)
      | Inr _ \<Rightarrow>
          if event \<in> fst ` set (db_processed db) then (Inl AlreadyProcessed, db, marks)
          else (Inr (), db\<lparr>db_processed := (event, tenant, subject) # db_processed db\<rparr>, marks)))"

section \<open>Transactions\<close>

text \<open>
  What comes of a commit: it holds; it fails and nothing holds; or it holds and its answer is lost, so
  that the caller sees an error all the same.
\<close>

datatype commit_fate = Committed | NotCommitted string | AnswerLost string

record tx_env =
  tx_id :: nat
  tx_begin :: "string + unit"
  tx_commit :: commit_fate

datatype tx_error = NoTenant | PoolFailed string | BeginFailed string | CommitFailed string
  | Body store_error

text \<open>\<open>runTx\<close>: a body that fails leaves the database as it was; a commit that fails may not.\<close>

definition runTx ::
    "tx_env \<Rightarrow> ('d, unit) tx_step \<Rightarrow> 'd tenant_db \<times> nat set
       \<Rightarrow> (tx_error + bool) \<times> 'd tenant_db \<times> nat set" where
  "runTx env fn w = (case w of (db, marks) \<Rightarrow>
     (case tx_begin env of
        Inl e \<Rightarrow> (Inl (BeginFailed e), db, marks)
      | Inr _ \<Rightarrow> (case fn (db, marks) of
          (Inl err, _, marks') \<Rightarrow> (Inl (Body err), db, marks' - {tx_id env})
        | (Inr _, db', marks') \<Rightarrow> (case tx_commit env of
              NotCommitted e \<Rightarrow> (Inl (CommitFailed e), db, marks' - {tx_id env})
            | AnswerLost e \<Rightarrow> (Inl (CommitFailed e), db', marks' - {tx_id env})
            | Committed \<Rightarrow> (Inr (tx_id env \<in> marks'), db', marks' - {tx_id env})))))"

text \<open>
  \<open>InTxFor\<close> and \<open>InTx\<close>. The last component is what the listeners of \<open>OnOutboxCommit\<close> heard: the
  tenant once per listener.
\<close>

definition notifyOutbox :: "nat \<Rightarrow> string \<Rightarrow> string list" where
  "notifyOutbox hooks tenant = replicate hooks tenant"

definition InTxFor ::
    "nat \<Rightarrow> string + unit \<Rightarrow> tx_env \<Rightarrow> string \<Rightarrow> ('d, unit) tx_step \<Rightarrow> 'd tenant_db \<times> nat set
       \<Rightarrow> (tx_error + unit) \<times> ('d tenant_db \<times> nat set) \<times> string list" where
  "InTxFor hooks pool env tenant fn w =
     (if tenant = [] then (Inl NoTenant, w, [])
      else (case pool of
          Inl e \<Rightarrow> (Inl (PoolFailed e), w, [])
        | Inr _ \<Rightarrow> (case runTx env fn w of
            (Inl e, w') \<Rightarrow> (Inl e, w', [])
          | (Inr wrote, w') \<Rightarrow> (Inr (), w', if wrote then notifyOutbox hooks tenant else []))))"

definition InTx ::
    "nat \<Rightarrow> string + unit \<Rightarrow> tx_env \<Rightarrow> 'a ctx_scheme \<Rightarrow> (string \<Rightarrow> ('d, unit) tx_step)
       \<Rightarrow> 'd tenant_db \<times> nat set \<Rightarrow> (tx_error + unit) \<times> ('d tenant_db \<times> nat set) \<times> string list" where
  "InTx hooks pool env ctx fn w = InTxFor hooks pool env (Tenant ctx) (fn (Tenant ctx)) w"

section \<open>Waking the relay\<close>

definition andStep :: "('d, 'a) tx_step \<Rightarrow> ('a \<Rightarrow> ('d, 'b) tx_step) \<Rightarrow> ('d, 'b) tx_step" where
  "andStep f k w = (case f w of (Inl e, w') \<Rightarrow> (Inl e, w') | (Inr x, w') \<Rightarrow> k x w')"

text \<open>What a body that only adds marks and rows keeps.\<close>

definition grows :: "('d, 'a) tx_step \<Rightarrow> bool" where
  "grows f \<longleftrightarrow> (\<forall>db marks r db' marks'. f (db, marks) = (r, db', marks') \<longrightarrow>
     marks \<subseteq> marks' \<and> set (db_rows db) \<subseteq> set (db_rows db'))"

lemma growsD:
  "grows f \<Longrightarrow> f (db, marks) = (r, db', marks') \<Longrightarrow> marks \<subseteq> marks' \<and> set (db_rows db) \<subseteq> set (db_rows db')"
  unfolding grows_def by blast

lemma Insert_Inr:
  "Insert jsonb gen tx tenant subject payload (db, marks) = (Inr x, db', marks') \<longleftrightarrow>
     (\<exists>p. jsonb payload = Some p \<and> x = ge_event gen \<and> marks' = insert tx marks
        \<and> db' = db\<lparr>db_rows := db_rows db @ [newRow gen tenant subject p None None]\<rparr>)"
  by (auto simp: Insert_def MarkOutbox_def split: option.splits)

lemma runTx_cases:
  assumes "runTx env fn (db, marks) = (r, db', marks')"
  obtains (aborted) e where "r = Inl e" "db' = db" "tx_begin env = Inr () \<Longrightarrow> tx_id env \<notin> marks'"
  | (unanswered) e marks1 where "r = Inl (CommitFailed e)" "fn (db, marks) = (Inr (), db', marks1)"
      "tx_commit env = AnswerLost e"
  | (committed) marks1 where "r = Inr (tx_id env \<in> marks1)" "fn (db, marks) = (Inr (), db', marks1)"
      "marks' = marks1 - {tx_id env}"
  using assms by (auto simp: runTx_def split: sum.splits prod.splits commit_fate.splits)


text \<open>
  \<open>InsertWith\<close> never wakes the relay: a transaction that wrote its event with it and committed
  leaves the row unpublished in the database and no listener hears of it, so the event waits for the
  tenant's idle cadence. (\<open>Insert\<close> marks the transaction, \<open>InsertWith\<close> does not.)
\<close>

theorem InsertWith_never_wakes:
  assumes "InTxFor hooks pool env tenant
        (andStep (InsertWith jsonb marshal gen (tx_id env) tenant subject payload m) (\<lambda>_ w. (Inr (), w))) (db, marks)
      = (Inr (), (db', marks'), heard)"
    and "tx_id env \<notin> marks"
  shows "heard = [] \<and> (\<exists>r. r \<in> set (db_rows db') \<and> or_event r = ge_event gen \<and> or_published r = None)"
proof -
  let ?fn = "andStep (InsertWith jsonb marshal gen (tx_id env) tenant subject payload m) (\<lambda>_ w. (Inr (), w))"
  obtain r db1 marks1 where r: "runTx env ?fn (db, marks) = (r, db1, marks1)" by (metis prod.exhaust)
  with assms(1) have db1: "db1 = db'" and inr: "\<exists>b. r = Inr b \<and> heard = (if b then notifyOutbox hooks tenant else [])"
    by (auto simp: InTxFor_def split: if_splits sum.splits)
  from r show ?thesis
  proof (cases rule: runTx_cases)
    case (aborted e)
    with inr show ?thesis by auto
  next
    case (unanswered e marks2)
    with inr show ?thesis by auto
  next
    case (committed marks2)
    from committed(2) have "marks2 = marks
        \<and> (\<exists>p t c. db1 = db\<lparr>db_rows := db_rows db @ [newRow gen tenant subject p t c]\<rparr>)"
      by (auto simp: andStep_def InsertWith_def Let_def split: option.splits if_splits prod.splits)
    with committed(1) inr assms(2) db1 show ?thesis by (auto simp: newRow_def)
  qed
qed

section \<open>Consuming an event once\<close>

text \<open>
  A consumer's handler: \<open>MarkProcessed\<close> first, then the effect on the Core's own data, in one
  transaction; deliveries repeat and fail as they like.
\<close>

definition applyOnce ::
    "string + unit \<Rightarrow> string \<Rightarrow> string \<Rightarrow> string \<Rightarrow> (string \<Rightarrow> 'd \<Rightarrow> 'd) \<Rightarrow> ('d, unit) tx_step" where
  "applyOnce fault tenant event subject effect = andStep (MarkProcessed fault tenant event subject)
     (\<lambda>_ (db, marks). (Inr (), db\<lparr>db_domain := effect event (db_domain db)\<rparr>, marks))"

record delivery =
  dv_event :: string
  dv_subject :: string
  dv_env :: tx_env
  dv_pool :: "string + unit"
  dv_fault :: "string + unit"

fun deliverAll ::
    "nat \<Rightarrow> string \<Rightarrow> (string \<Rightarrow> 'd \<Rightarrow> 'd) \<Rightarrow> delivery list \<Rightarrow> 'd tenant_db \<times> nat set
       \<Rightarrow> (string \<times> (tx_error + unit)) list \<times> 'd tenant_db \<times> nat set" where
  "deliverAll hooks tenant effect [] w = ([], w)"
| "deliverAll hooks tenant effect (d # ds) w =
     (case InTxFor hooks (dv_pool d) (dv_env d) tenant
             (applyOnce (dv_fault d) tenant (dv_event d) (dv_subject d) effect) w of
        (r, w', heard) \<Rightarrow> (case deliverAll hooks tenant effect ds w' of
            (rs, w'') \<Rightarrow> ((dv_event d, r) # rs, w'')))"

definition appliedOnce :: "(string \<Rightarrow> 'd \<Rightarrow> 'd) \<Rightarrow> 'd \<Rightarrow> 'd tenant_db \<Rightarrow> bool" where
  "appliedOnce effect d0 db \<longleftrightarrow> distinct (map fst (db_processed db))
     \<and> db_domain db = fold effect (rev (map fst (db_processed db))) d0"

lemma deliver_step:
  assumes "InTxFor hooks pool env tenant (applyOnce fault tenant event subject effect) (db, marks)
      = (r, (db', marks'), heard)"
  shows "(db' = db \<and> (r = Inr () \<or> r = Inl (Body AlreadyProcessed) \<longrightarrow> event \<in> fst ` set (db_processed db)))
     \<or> (event \<notin> fst ` set (db_processed db)
        \<and> db_processed db' = (event, tenant, subject) # db_processed db
        \<and> db_domain db' = effect event (db_domain db))"
  using assms
  by (auto simp: InTxFor_def runTx_def applyOnce_def andStep_def MarkProcessed_def
      split: if_splits sum.splits prod.splits commit_fate.splits)

lemma deliverAll_applied:
  assumes "deliverAll hooks tenant effect ds (db, marks) = (rs, db', marks')" and "appliedOnce effect d0 db"
  shows "appliedOnce effect d0 db' \<and> set (db_processed db) \<subseteq> set (db_processed db')
    \<and> (\<forall>(event, r) \<in> set rs. r = Inr () \<or> r = Inl (Body AlreadyProcessed) \<longrightarrow> event \<in> fst ` set (db_processed db'))"
  using assms
proof (induction ds arbitrary: db marks rs)
  case (Cons d ds)
  obtain r db1 marks1 heard where step: "InTxFor hooks (dv_pool d) (dv_env d) tenant
      (applyOnce (dv_fault d) tenant (dv_event d) (dv_subject d) effect) (db, marks) = (r, (db1, marks1), heard)"
    by (metis prod.exhaust)
  obtain rs' where rest: "deliverAll hooks tenant effect ds (db1, marks1) = (rs', db', marks')"
    and rs: "rs = (dv_event d, r) # rs'"
    using Cons.prems(1) step by (auto split: prod.splits)
  from deliver_step [OF step] Cons.prems(2) have ok: "appliedOnce effect d0 db1"
    and sub: "set (db_processed db) \<subseteq> set (db_processed db1)"
    and here: "r = Inr () \<or> r = Inl (Body AlreadyProcessed) \<longrightarrow> dv_event d \<in> fst ` set (db_processed db1)"
    by (auto simp: appliedOnce_def)
  from Cons.IH [OF rest ok] sub here rs show ?case by (auto simp: subset_iff image_iff)
qed simp

text \<open>
  C16. Redelivery is harmless. However often and in whatever order events are delivered, and whatever
  transactions fail, the Core's data is the result of applying the effect of each processed event
  exactly once, in the order they were first processed, and every delivery that was answered done or
  already processed is of such an event.
\<close>

theorem effects_apply_exactly_once:
  assumes "deliverAll hooks tenant effect ds (db, marks) = (rs, db', marks')" and "db_processed db = []"
  shows "\<exists>applied. distinct applied \<and> set applied = fst ` set (db_processed db')
     \<and> db_domain db' = fold effect applied (db_domain db)
     \<and> {event. (event, Inr ()) \<in> set rs \<or> (event, Inl (Body AlreadyProcessed)) \<in> set rs} \<subseteq> set applied"
proof (rule exI [of _ "rev (map fst (db_processed db'))"])
  have "appliedOnce effect (db_domain db) db" using assms(2) by (simp add: appliedOnce_def)
  from deliverAll_applied [OF assms(1) this]
  show "distinct (rev (map fst (db_processed db'))) \<and> set (rev (map fst (db_processed db'))) = fst ` set (db_processed db')
     \<and> db_domain db' = fold effect (rev (map fst (db_processed db'))) (db_domain db)
     \<and> {event. (event, Inr ()) \<in> set rs \<or> (event, Inl (Body AlreadyProcessed)) \<in> set rs}
         \<subseteq> set (rev (map fst (db_processed db')))"
    by (auto simp: appliedOnce_def)
qed

section \<open>Witnesses\<close>

definition sample_db :: "nat tenant_db" where
  "sample_db = \<lparr>db_rows = [], db_columns = True, db_processed = [], db_domain = 0\<rparr>"

definition sample_tx :: tx_env where
  "sample_tx = \<lparr>tx_id = 7, tx_begin = Inr (), tx_commit = Committed\<rparr>"

definition sample_gen :: row_gen where
  "sample_gen = \<lparr>ge_id = 1, ge_event = ''e-1'', ge_now = 0\<rparr>"

definition sample_meta :: meta where
  "sample_meta = \<lparr>me_Traceparent = [], me_Causation = None\<rparr>"

lemmas sample_store_defs = sample_db_def sample_tx_def sample_gen_def sample_meta_def


theorem InsertWith_never_wakes_witness:
  "\<exists>db' marks'. InTxFor 1 (Inr ()) sample_tx ''acme''
        (andStep (InsertWith Some (\<lambda>_. None) sample_gen (tx_id sample_tx) ''acme'' ''s'' ''{}'' sample_meta)
           (\<lambda>_ w. (Inr (), w))) (sample_db, {})
      = (Inr (), (db', marks'), []) \<and> db_rows db' \<noteq> []"
proof -
  obtain res db' marks' heard where r: "InTxFor 1 (Inr ()) sample_tx ''acme''
        (andStep (InsertWith Some (\<lambda>_. None) sample_gen (tx_id sample_tx) ''acme'' ''s'' ''{}'' sample_meta)
           (\<lambda>_ w. (Inr (), w))) (sample_db, {}) = (res, (db', marks'), heard)"
    by (metis prod.exhaust)
  then have "res = Inr ()"
    by (auto simp: InTxFor_def runTx_def andStep_def InsertWith_def sample_store_defs)
  with r InsertWith_never_wakes [of 1 "Inr ()" sample_tx "''acme''" Some "\<lambda>_. None" sample_gen "''s''" "''{}''"
      sample_meta sample_db "{}" db' marks' heard] show ?thesis by auto
qed

theorem effects_apply_exactly_once_witness:
  "db_domain (fst (snd (deliverAll 0 ''acme'' (\<lambda>_ n. n + 1)
      [\<lparr>dv_event = ''e-1'', dv_subject = ''s'', dv_env = sample_tx, dv_pool = Inr (), dv_fault = Inr ()\<rparr>,
       \<lparr>dv_event = ''e-1'', dv_subject = ''s'', dv_env = sample_tx, dv_pool = Inr (), dv_fault = Inr ()\<rparr>]
      (sample_db, {})))) = 1"
proof -
  let ?ds = "[\<lparr>dv_event = ''e-1'', dv_subject = ''s'', dv_env = sample_tx, dv_pool = Inr (), dv_fault = Inr ()\<rparr>,
       \<lparr>dv_event = ''e-1'', dv_subject = ''s'', dv_env = sample_tx, dv_pool = Inr (), dv_fault = Inr ()\<rparr>]"
  obtain rs db' marks' where r: "deliverAll 0 ''acme'' (\<lambda>_ n. n + 1) ?ds (sample_db, {}) = (rs, db', marks')"
    by (metis prod.exhaust)
  then have "fst ` set (db_processed db') = {''e-1''}"
    by (auto simp: InTxFor_def runTx_def applyOnce_def andStep_def MarkProcessed_def sample_store_defs)
  moreover from effects_apply_exactly_once [OF r] obtain applied where
    "distinct applied" "set applied = fst ` set (db_processed db')"
    "db_domain db' = fold (\<lambda>_ n. n + 1) applied (db_domain sample_db)"
    by (auto simp: sample_db_def)
  moreover have "xs = [x]" if "distinct xs" "set xs = {x}" for xs :: "string list" and x
    using that by (cases xs; cases "tl xs") auto
  ultimately have "applied = [''e-1''] \<and> db_domain db' = fold (\<lambda>_ n. n + 1) applied (0 :: nat)"
    by (simp add: sample_db_def)
  then show ?thesis using r by simp
qed

end
