(* ===== verification/Outbox_Schedule.thy ===== *)
theory Outbox_Schedule
  imports Tenant_Ctx
begin

text \<open>
  The relay's adaptive sweep schedule (\<open>src/outbox/schedule.go\<close>): one cadence per tenant, doubled
  by every empty sweep up to a bound, and the set of tenants a commit woke. Every method holds the
  mutex, so a concurrent use is a sequence of operations. The doubling is a 64-bit product.
\<close>

definition defaultIdleInterval :: duration where
  "defaultIdleInterval = 30 * Second"

record tenant_sweep =
  ts_interval :: duration
  ts_next :: time

record sweep_schedule =
  sc_base :: duration
  sc_idleMax :: duration
  sc_state :: "string \<rightharpoonup> tenant_sweep"
  sc_woken :: "string set"

definition newSweepSchedule :: "duration \<Rightarrow> duration \<Rightarrow> sweep_schedule" where
  "newSweepSchedule base idleMax =
     \<lparr>sc_base = base, sc_idleMax = idleMax, sc_state = Map.empty, sc_woken = {}\<rparr>"

definition due :: "sweep_schedule \<Rightarrow> string \<Rightarrow> time \<Rightarrow> bool" where
  "due s tenant now = (case sc_state s tenant of None \<Rightarrow> True | Some st \<Rightarrow> \<not> now < ts_next st)"

definition sweepDone :: "sweep_schedule \<Rightarrow> string \<Rightarrow> bool \<Rightarrow> time \<Rightarrow> sweep_schedule" where
  "sweepDone s tenant busy now =
     (let st = (case sc_state s tenant of None \<Rightarrow> \<lparr>ts_interval = sc_base s, ts_next = 0\<rparr> | Some st \<Rightarrow> st);
          interval = (if busy \<or> sc_idleMax s \<le> sc_base s then sc_base s
                      else min (wrap64 (ts_interval st * 2)) (sc_idleMax s))
      in s\<lparr>sc_state := (sc_state s)(tenant \<mapsto> \<lparr>ts_interval = interval, ts_next = now + interval\<rparr>)\<rparr>)"

definition wakeTenant :: "sweep_schedule \<Rightarrow> string \<Rightarrow> sweep_schedule" where
  "wakeTenant s tenant = s\<lparr>sc_woken := insert tenant (sc_woken s)\<rparr>"

definition takeWoken :: "sweep_schedule \<Rightarrow> string set \<times> sweep_schedule" where
  "takeWoken s = (sc_woken s, s\<lparr>sc_woken := {}\<rparr>)"

definition prune :: "sweep_schedule \<Rightarrow> string list \<Rightarrow> sweep_schedule" where
  "prune s active = s\<lparr>sc_state := sc_state s |` set active\<rparr>"

definition intervalOf :: "sweep_schedule \<Rightarrow> string \<Rightarrow> duration" where
  "intervalOf s tenant = (case sc_state s tenant of None \<Rightarrow> 0 | Some st \<Rightarrow> ts_interval st)"

lemmas schedule_defs = newSweepSchedule_def due_def sweepDone_def wakeTenant_def takeWoken_def
  prune_def intervalOf_def

section \<open>Sequences of operations\<close>

datatype sched_op = Done string bool time | Wake string | Take | Prune "string list"

fun schedStep :: "sweep_schedule \<Rightarrow> sched_op \<Rightarrow> sweep_schedule" where
  "schedStep s (Done t busy now) = sweepDone s t busy now"
| "schedStep s (Wake t) = wakeTenant s t"
| "schedStep s Take = snd (takeWoken s)"
| "schedStep s (Prune ts) = prune s ts"

definition schedRun :: "sweep_schedule \<Rightarrow> sched_op list \<Rightarrow> sweep_schedule" where
  "schedRun s ops = foldl schedStep s ops"

lemma schedRun_simps [simp]:
  "schedRun s [] = s" "schedRun s (op # ops) = schedRun (schedStep s op) ops"
  "schedRun s (xs @ ys) = schedRun (schedRun s xs) ys"
  by (simp_all add: schedRun_def)

text \<open>Every cadence kept lies between the base and the bound.\<close>

definition cadenceOK :: "sweep_schedule \<Rightarrow> bool" where
  "cadenceOK s \<longleftrightarrow> 0 < sc_base s \<and> sc_idleMax s < 4611686018427387904 \<and> sc_base s < 4611686018427387904
     \<and> (\<forall>st \<in> ran (sc_state s). sc_base s \<le> ts_interval st \<and> ts_interval st \<le> max (sc_base s) (sc_idleMax s))"

lemma sweepDone_shape [simp]:
  "sc_base (sweepDone s t busy u) = sc_base s" "sc_idleMax (sweepDone s t busy u) = sc_idleMax s"
  by (simp_all add: sweepDone_def Let_def)

lemma schedStep_shape [simp]:
  "sc_base (schedStep s op) = sc_base s" "sc_idleMax (schedStep s op) = sc_idleMax s"
  by (cases op; simp add: schedule_defs Let_def)+

lemma schedRun_shape [simp]:
  "sc_base (schedRun s ops) = sc_base s" "sc_idleMax (schedRun s ops) = sc_idleMax s"
  by (induction ops arbitrary: s) simp_all

lemma doubled:
  assumes "cadenceOK s" and "sc_state s t = Some st"
  shows "wrap64 (ts_interval st * 2) = ts_interval st * 2"
    and "sc_base s \<le> ts_interval st" and "ts_interval st \<le> max (sc_base s) (sc_idleMax s)"
  using assms by (auto simp: cadenceOK_def ran_def intro!: wrap64_id)

lemma sweepDone_interval:
  assumes "cadenceOK s"
  shows "\<exists>v. sc_state (sweepDone s t busy now) t = Some \<lparr>ts_interval = v, ts_next = now + v\<rparr>
     \<and> sc_base s \<le> v \<and> v \<le> max (sc_base s) (sc_idleMax s)"
proof (cases "sc_state s t")
  case None
  have "wrap64 (sc_base s * 2) = sc_base s * 2"
    using assms by (intro wrap64_id) (auto simp: cadenceOK_def)
  with None assms show ?thesis by (auto simp: sweepDone_def cadenceOK_def Let_def)
next
  case (Some st)
  from doubled [OF assms Some] assms Some show ?thesis
    by (auto simp: sweepDone_def cadenceOK_def Let_def)
qed

lemma schedStep_cadence: "cadenceOK s \<Longrightarrow> cadenceOK (schedStep s op)"
proof (cases op)
  case (Done t busy now)
  assume ok: "cadenceOK s"
  from sweepDone_interval [OF ok, of t busy now] obtain v where
    v: "sc_state (sweepDone s t busy now) t = Some \<lparr>ts_interval = v, ts_next = now + v\<rparr>"
    "sc_base s \<le> v" "v \<le> max (sc_base s) (sc_idleMax s)" by blast
  have "sc_state (sweepDone s t busy now) =
      (sc_state s)(t \<mapsto> the (sc_state (sweepDone s t busy now) t))"
    by (simp add: sweepDone_def Let_def)
  then have "ran (sc_state (sweepDone s t busy now)) \<subseteq>
      insert \<lparr>ts_interval = v, ts_next = now + v\<rparr> (ran (sc_state s))"
    using v(1) by (auto simp: ran_def split: if_splits)
  with v(2,3) ok Done schedStep_shape [of s op] show ?thesis
    by (auto simp: cadenceOK_def simp del: schedStep_shape)
next
  case (Prune ts)
  then show "cadenceOK s \<Longrightarrow> ?thesis" by (auto simp: cadenceOK_def prune_def ran_def restrict_map_def)
qed (auto simp: cadenceOK_def schedule_defs)

lemma schedRun_cadence: "cadenceOK s \<Longrightarrow> cadenceOK (schedRun s ops)"
  by (induction ops arbitrary: s) (auto simp: schedStep_cadence)

text \<open>A tenant not swept again keeps its entry or loses it to a prune.\<close>

lemma schedRun_frame:
  "\<forall>b u. Done t b u \<notin> set ops \<Longrightarrow>
     sc_state (schedRun s ops) t = None \<or> sc_state (schedRun s ops) t = sc_state s t"
proof (induction ops arbitrary: s)
  case (Cons op ops)
  have "sc_state (schedStep s op) t = None \<or> sc_state (schedStep s op) t = sc_state s t"
    using Cons.prems by (cases op) (auto simp: schedule_defs Let_def restrict_map_def)
  with Cons.IH [of "schedStep s op"] Cons.prems show ?case by auto
qed simp

text \<open>
  No tenant is forgotten and none is hammered. Whatever commits, prunes and sweeps of other
  tenants happen, a tenant last swept at \<open>u\<close> is due again at the latest at \<open>u\<close> plus the longer of
  the base and the idle bound, and it is not due before \<open>u\<close> plus the base unless it was pruned.
\<close>

theorem sweep_cadence_bounds:
  assumes "0 < base" and "base < 2 ^ 62" and "idleMax < 2 ^ 62"
    and "\<forall>b v. Done t b v \<notin> set after"
    and "s = schedRun (newSweepSchedule base idleMax) (before @ Done t busy u # after)"
  shows "(\<forall>now. u + max base idleMax \<le> now \<longrightarrow> due s t now)
     \<and> (\<forall>now. now < u + base \<longrightarrow> due s t now \<longrightarrow> sc_state s t = None)"
proof -
  let ?s0 = "newSweepSchedule base idleMax" and ?s1 = "schedRun (newSweepSchedule base idleMax) before"
  have "cadenceOK ?s0" using assms(1-3) by (simp add: cadenceOK_def newSweepSchedule_def)
  from sweepDone_interval [OF schedRun_cadence [OF this, of before], of t busy u]
  obtain v where v: "sc_state (sweepDone ?s1 t busy u) t = Some \<lparr>ts_interval = v, ts_next = u + v\<rparr>"
    "base \<le> v" "v \<le> max base idleMax"
    by (auto simp: newSweepSchedule_def)
  have "sc_state s t = None \<or> sc_state s t = Some \<lparr>ts_interval = v, ts_next = u + v\<rparr>"
    using schedRun_frame [OF assms(4), of "sweepDone ?s1 t busy u"] v(1) by (simp add: assms(5))
  with v(2,3) show ?thesis by (auto simp: due_def)
qed

text \<open>The doubling: empty sweeps after a busy one.\<close>

fun emptySweeps :: "string \<Rightarrow> time list \<Rightarrow> sched_op list" where
  "emptySweeps t [] = []"
| "emptySweeps t (u # us) = Done t False u # emptySweeps t us"

lemma emptySweeps_interval:
  assumes "cadenceOK s" and "sc_base s < sc_idleMax s"
    and "sc_state s t = Some \<lparr>ts_interval = min (sc_base s * 2 ^ k) (sc_idleMax s), ts_next = x\<rparr>"
  shows "intervalOf (schedRun s (emptySweeps t us)) t = min (sc_base s * 2 ^ (k + length us)) (sc_idleMax s)"
  using assms
proof (induction us arbitrary: s k x)
  case Nil
  then show ?case by (simp add: intervalOf_def)
next
  case (Cons u us)
  let ?s = "schedStep s (Done t False u)"
  from doubled(1) [OF Cons.prems(1,3)]
  have w: "wrap64 (min (sc_base s * 2 ^ k) (sc_idleMax s) * 2) = min (sc_base s * 2 ^ k) (sc_idleMax s) * 2"
    by simp
  have "min (min (sc_base s * 2 ^ k) (sc_idleMax s) * 2) (sc_idleMax s) = min (sc_base s * 2 ^ Suc k) (sc_idleMax s)"
    using Cons.prems(1,2) by (auto simp: cadenceOK_def min_def)
  with w Cons.prems(2,3) have "\<exists>x. sc_state ?s t = Some \<lparr>ts_interval = min (sc_base ?s * 2 ^ Suc k) (sc_idleMax ?s), ts_next = x\<rparr>"
    by (simp add: sweepDone_def Let_def)
  then obtain x' where st: "sc_state ?s t = Some \<lparr>ts_interval = min (sc_base ?s * 2 ^ Suc k) (sc_idleMax ?s), ts_next = x'\<rparr>" ..
  show ?case
    using Cons.IH [OF schedStep_cadence [OF Cons.prems(1)] _ st] Cons.prems(2) by simp
qed

text \<open>
  The backoff is exact: after a busy sweep, \<open>n\<close> empty ones leave the tenant waiting
  \<open>base * 2 ^ n\<close>, cut at the idle bound, and any busy sweep brings it back to the base.
\<close>

theorem backoff_doubles:
  assumes "0 < base" and "base < idleMax" and "idleMax < 2 ^ 62"
  shows "intervalOf (schedRun (newSweepSchedule base idleMax)
           (before @ Done t True u # emptySweeps t us)) t = min (base * 2 ^ length us) idleMax"
proof -
  let ?s = "schedRun (newSweepSchedule base idleMax) (before @ [Done t True u])"
  have ok: "cadenceOK (newSweepSchedule base idleMax)"
    using assms by (simp add: cadenceOK_def newSweepSchedule_def)
  have shape: "sc_base ?s = base" "sc_idleMax ?s = idleMax" by (simp_all add: newSweepSchedule_def sweepDone_def Let_def)
  have "\<exists>x. sc_state ?s t = Some \<lparr>ts_interval = base, ts_next = x\<rparr>"
    by (simp add: sweepDone_def newSweepSchedule_def Let_def)
  then obtain x where "sc_state ?s t = Some \<lparr>ts_interval = min (sc_base ?s * 2 ^ 0) (sc_idleMax ?s), ts_next = x\<rparr>"
    using shape assms(2) by auto
  from emptySweeps_interval [OF schedRun_cadence [OF ok] _ this, of us] shape assms(2)
  show ?thesis by simp
qed

theorem sweep_cadence_bounds_witness:
  "due (schedRun (newSweepSchedule (2 * Second) defaultIdleInterval)
      ([Done ''acme'' False 0] @ Done ''acme'' False (4 * Second) # [Wake ''beta''])) ''acme'' (40 * Second)"
  using sweep_cadence_bounds [where base = "2 * Second" and idleMax = defaultIdleInterval and t = "''acme''"
      and after = "[Wake ''beta'']" and before = "[Done ''acme'' False 0]" and busy = False and u = "4 * Second",
      OF _ _ _ _ refl]
  by (simp add: Second_def defaultIdleInterval_def)

theorem backoff_doubles_witness:
  "intervalOf (schedRun (newSweepSchedule (2 * Second) defaultIdleInterval)
      ([] @ Done ''acme'' True 0 # emptySweeps ''acme'' [Second, Second, Second, Second])) ''acme'' = 30 * Second"
  using backoff_doubles [where base = "2 * Second" and idleMax = defaultIdleInterval and before = "[]" and u = 0
      and t = "''acme''" and us = "[Second, Second, Second, Second]"]
  by (simp add: Second_def defaultIdleInterval_def)

end
