(* ===== verification/Outbox_Relay.thy ===== *)
theory Outbox_Relay
  imports Outbox_Store Outbox_Schedule
begin

text \<open>
  The relay (\<open>src/outbox/relay.go\<close>, \<open>src/outbox/discover.go\<close>): it drains each tenant's outbox to
  JetStream in id order, on a cadence or woken by a commit, over the tenants discovery finds. The
  broker is the list of messages it stored; a publish may fail after the message was stored. JSON and
  the time format are parameters. Only the goroutine of \<open>Run\<close> touches the relay's own state, so the
  sweep is a function of it; the schedule is shared with the commits, whose steps \<^theory_text>\<open>Outbox_Run\<close>
  interleaves, and the replicas' drains interleave in \<^theory_text>\<open>Outbox_Delivery\<close>.
\<close>

section \<open>Envelopes\<close>

record envelope =
  en_EventID :: string
  en_TenantID :: string
  en_Subject :: string
  en_OccurredAt :: string
  en_Data :: string
  en_Traceparent :: string
  en_Causation :: "causation option"

record codecs =
  co_time :: "time \<Rightarrow> string"
  co_parseCausation :: "string \<Rightarrow> causation option"
  co_marshal :: "envelope \<Rightarrow> string option"

definition envelopeFor :: "codecs \<Rightarrow> event_row \<Rightarrow> string option" where
  "envelopeFor co row =
     (let env = \<lparr>en_EventID = rw_EventID row, en_TenantID = rw_TenantID row, en_Subject = rw_Subject row,
                 en_OccurredAt = co_time co (rw_CreatedAt row), en_Data = rw_Payload row,
                 en_Traceparent = rw_Traceparent row, en_Causation = None\<rparr>
      in if length (rw_Causation row) > 0
         then (case co_parseCausation co (rw_Causation row) of
                 None \<Rightarrow> None
               | Some c \<Rightarrow> co_marshal co (env\<lparr>en_Causation := Some c\<rparr>))
         else co_marshal co env)"

record message =
  ms_subject :: string
  ms_data :: string
  ms_id :: string

text \<open>
  What happens to one row: whether the broker stores it, whether the acknowledgement arrives (only
  of a stored message), and the outcome of the statement after it.
\<close>

datatype publish_fate = NotStored | StoredUnacked | StoredAcked

record row_fate =
  rf_publish :: publish_fate
  rf_mark :: "string + time"
  rf_bump :: "string + unit"

definition publish :: "codecs \<Rightarrow> publish_fate \<Rightarrow> event_row \<Rightarrow> message list \<Rightarrow> bool \<times> message list" where
  "publish co fate row log = (case envelopeFor co row of
       None \<Rightarrow> (False, log)
     | Some data \<Rightarrow>
         let m = \<lparr>ms_subject = rw_Subject row, ms_data = data, ms_id = rw_EventID row\<rparr>
         in case fate of NotStored \<Rightarrow> (False, log)
            | StoredUnacked \<Rightarrow> (False, log @ [m])
            | StoredAcked \<Rightarrow> (True, log @ [m]))"

section \<open>Draining one tenant\<close>

text \<open>The loop of \<open>drain\<close>; the result says whether it stopped early.\<close>

fun drainRows ::
    "codecs \<Rightarrow> string \<Rightarrow> (event_row \<Rightarrow> row_fate) \<Rightarrow> event_row list \<Rightarrow> 'd tenant_db \<times> message list
       \<Rightarrow> bool \<times> 'd tenant_db \<times> message list" where
  "drainRows co tenant fate [] w = (False, w)"
| "drainRows co tenant fate (row # rows) (db, log) =
     (case publish co (rf_publish (fate row)) row log of (sent, log') \<Rightarrow>
        if \<not> sent then (True, snd (BumpAttempts (rf_bump (fate row)) tenant (rw_ID row) db), log')
        else (case MarkPublished (rf_mark (fate row)) tenant (rw_ID row) db of
            (Inl e, db') \<Rightarrow> (True, db', log')
          | (Inr _, db') \<Rightarrow> drainRows co tenant fate rows (db', log')))"

record relay_config =
  rc_StreamName :: string
  rc_SubjectPrefix :: string
  rc_ExtraTenants :: "string list"
  rc_Discover :: bool
  rc_DiscoverEvery :: duration
  rc_Interval :: duration
  rc_IdleInterval :: duration
  rc_Batch :: int
  rc_TraceColumns :: bool

text \<open>\<open>drain\<close>: busy or not, whether the fetch failed, and the world after it.\<close>

definition drain ::
    "relay_config \<Rightarrow> codecs \<Rightarrow> string \<Rightarrow> string + unit \<Rightarrow> (event_row \<Rightarrow> row_fate) \<Rightarrow> 'd tenant_db \<times> message list
       \<Rightarrow> bool \<times> bool \<times> 'd tenant_db \<times> message list" where
  "drain cfg co tenant fault fate w =
     (case fetchRows fault tenant (rc_Batch cfg) (rc_TraceColumns cfg) (fst w) of
        Inl e \<Rightarrow> (True, True, w)
      | Inr rows \<Rightarrow> (case drainRows co tenant fate rows w of
          (stopped, w') \<Rightarrow> (stopped \<or> length rows > 0, False, w')))"

section \<open>Discovery\<close>

record discovery =
  di_active :: "string list"
  di_ok :: bool
  di_lastTry :: "time option"
  di_soon :: bool
  di_warned :: bool
  di_suspect :: "string set"
  di_failing :: "string set"

definition noDiscovery :: discovery where
  "noDiscovery = \<lparr>di_active = [], di_ok = False, di_lastTry = None, di_soon = False, di_warned = False,
     di_suspect = {}, di_failing = {}\<rparr>"

definition defaultDiscoverEvery :: duration where "defaultDiscoverEvery = Minute"
definition earlyRefreshGap :: duration where "earlyRefreshGap = 10 * Second"

fun dedupe :: "string set \<Rightarrow> string list \<Rightarrow> string list" where
  "dedupe seen [] = []"
| "dedupe seen (t # ts) = (if t \<noteq> [] \<and> t \<notin> seen then t # dedupe (insert t seen) ts else dedupe seen ts)"

definition fallbackTenants :: "relay_config \<Rightarrow> string list \<Rightarrow> string list" where
  "fallbackTenants cfg known = dedupe {} (known @ rc_ExtraTenants cfg)"

definition adopt :: "discovery \<Rightarrow> string list \<Rightarrow> discovery" where
  "adopt d found = d\<lparr>
     di_failing := (di_failing d \<union> (di_suspect d \<inter> set found)) \<inter> set found,
     di_suspect := {}, di_active := found, di_ok := True\<rparr>"

definition refreshDue :: "relay_config \<Rightarrow> discovery \<Rightarrow> time \<Rightarrow> bool" where
  "refreshDue cfg d now =
     (let every = (if rc_DiscoverEvery cfg \<le> 0 then defaultDiscoverEvery else rc_DiscoverEvery cfg) in
      case di_lastTry d of
        None \<Rightarrow> True
      | Some prev \<Rightarrow> \<not> (now - prev < every \<and> \<not> (di_soon d \<and> now - prev \<ge> earlyRefreshGap)))"

definition refresh :: "relay_config \<Rightarrow> (string + string list) \<Rightarrow> time \<Rightarrow> discovery \<Rightarrow> discovery" where
  "refresh cfg found now d =
     (if \<not> refreshDue cfg d now then d
      else let d1 = d\<lparr>di_lastTry := Some now, di_soon := False\<rparr> in
        case found of
          Inl e \<Rightarrow> d1\<lparr>di_warned := True\<rparr>
        | Inr ts \<Rightarrow> adopt (d1\<lparr>di_warned := False\<rparr>) ts)"

definition sweepTenants ::
    "relay_config \<Rightarrow> string list \<Rightarrow> (string + string list) \<Rightarrow> time \<Rightarrow> discovery \<Rightarrow> string list \<times> discovery" where
  "sweepTenants cfg known found now d =
     (if \<not> rc_Discover cfg then (fallbackTenants cfg known, d)
      else let d' = refresh cfg found now d in
        if \<not> di_ok d' then (fallbackTenants cfg known, d') else (di_active d', d'))"

text \<open>\<open>fetchFailed\<close> with whether the failure is logged, and \<open>fetchOK\<close>.\<close>

definition fetchFailed :: "relay_config \<Rightarrow> string \<Rightarrow> discovery \<Rightarrow> bool \<times> discovery" where
  "fetchFailed cfg tenant d =
     (if \<not> rc_Discover cfg \<or> \<not> di_ok d \<or> tenant \<in> di_failing d then (True, d)
      else (False, d\<lparr>di_suspect := insert tenant (di_suspect d), di_soon := True\<rparr>))"

definition fetchOK :: "string \<Rightarrow> discovery \<Rightarrow> discovery" where
  "fetchOK tenant d = d\<lparr>di_suspect := di_suspect d - {tenant}, di_failing := di_failing d - {tenant}\<rparr>"

section \<open>The stream\<close>

text \<open>What the relay has written to its log about the stream, and what an attempt at creating it meets.\<close>

datatype relay_line = StreamNotReady string | StreamReady

datatype stream_answer = NotConnected | StreamFailed string | StreamCreated

record 'd relay =
  rl_sched :: sweep_schedule
  rl_disc :: discovery
  rl_streamReady :: bool
  rl_warned :: bool
  rl_wakeSignal :: bool
  rl_dbs :: "string \<Rightarrow> 'd tenant_db"
  rl_log :: "message list"
  rl_lines :: "relay_line list"

definition warnOnce :: "string \<Rightarrow> 'd relay \<Rightarrow> 'd relay" where
  "warnOnce reason r =
     (if rl_warned r then r else r\<lparr>rl_warned := True, rl_lines := rl_lines r @ [StreamNotReady reason]\<rparr>)"

definition ensureStream :: "stream_answer \<Rightarrow> 'd relay \<Rightarrow> bool \<times> 'd relay" where
  "ensureStream answer r =
     (if rl_streamReady r then (True, r)
      else case answer of
          NotConnected \<Rightarrow> (False, warnOnce ''broker not reachable yet'' r)
        | StreamFailed err \<Rightarrow> (False, warnOnce err r)
        | StreamCreated \<Rightarrow>
            (True, r\<lparr>rl_streamReady := True, rl_lines := rl_lines r @ (if rl_warned r then [StreamReady] else [])\<rparr>))"

section \<open>Sweeping\<close>

text \<open>
  The environment of a sweep: what the attempt at the stream meets, the tenants with a live pool, what
  discovery would find, the times it was asked and the sweep read, and per tenant the fate of its fetch and rows and
  the time its sweep ended.
\<close>

record sweep_env =
  se_stream :: stream_answer
  se_known :: "string list"
  se_found :: "string + string list"
  se_asked :: time
  se_now :: time
  se_fault :: "string \<Rightarrow> string + unit"
  se_fate :: "string \<Rightarrow> event_row \<Rightarrow> row_fate"
  se_end :: "string \<Rightarrow> time"

text \<open>\<open>sweepTenant\<close>: the drain with what it tells discovery, then the outcome told to the schedule.\<close>

definition drainTenant :: "relay_config \<Rightarrow> codecs \<Rightarrow> sweep_env \<Rightarrow> string \<Rightarrow> 'd relay \<Rightarrow> bool \<times> 'd relay" where
  "drainTenant cfg co e tenant r =
     (case drain cfg co tenant (se_fault e tenant) (se_fate e tenant) (rl_dbs r tenant, rl_log r) of
        (busy, failed, db, log) \<Rightarrow>
          (busy, r\<lparr>rl_disc := (if failed then snd (fetchFailed cfg tenant (rl_disc r)) else fetchOK tenant (rl_disc r)),
            rl_dbs := (rl_dbs r)(tenant := db), rl_log := log\<rparr>))"

definition finishTenant :: "string \<Rightarrow> bool \<Rightarrow> time \<Rightarrow> 'd relay \<Rightarrow> 'd relay" where
  "finishTenant tenant busy now r = r\<lparr>rl_sched := sweepDone (rl_sched r) tenant busy now\<rparr>"

definition sweepTenant :: "relay_config \<Rightarrow> codecs \<Rightarrow> sweep_env \<Rightarrow> string \<Rightarrow> 'd relay \<Rightarrow> 'd relay" where
  "sweepTenant cfg co e tenant r =
     (case drainTenant cfg co e tenant r of (busy, r') \<Rightarrow> finishTenant tenant busy (se_end e tenant) r')"

text \<open>
  \<open>sweep\<close>. The flagged tenants are ranged over as a map, in some order: \<open>order\<close>, a list of exactly
  the flagged tenants.
\<close>

definition takeFlags :: "'d relay \<Rightarrow> string set \<times> 'd relay" where
  "takeFlags r = (case takeWoken (rl_sched r) of (flagged, sched) \<Rightarrow> (flagged, r\<lparr>rl_sched := sched\<rparr>))"

definition listTenants :: "relay_config \<Rightarrow> sweep_env \<Rightarrow> 'd relay \<Rightarrow> string list \<times> 'd relay" where
  "listTenants cfg e r = (case sweepTenants cfg (se_known e) (se_found e) (se_asked e) (rl_disc r) of
     (tenants, disc) \<Rightarrow> (tenants, r\<lparr>rl_disc := disc, rl_sched := prune (rl_sched r) tenants\<rparr>))"

definition sweep ::
    "relay_config \<Rightarrow> codecs \<Rightarrow> sweep_env \<Rightarrow> string list \<Rightarrow> bool \<Rightarrow> 'd relay \<Rightarrow> 'd relay" where
  "sweep cfg co e order woken r = (case ensureStream (se_stream e) r of
       (False, r0) \<Rightarrow> r0
     | (True, r0) \<Rightarrow> (case takeFlags r0 of (flagged, r1) \<Rightarrow>
         if woken then foldl (\<lambda>r t. sweepTenant cfg co e t r) r1 order
         else (case listTenants cfg e r1 of (tenants, r2) \<Rightarrow>
           foldl (\<lambda>r t. if t \<in> flagged \<or> due (rl_sched r) t (se_now e) then sweepTenant cfg co e t r else r)
             r2 tenants)))"

text \<open>\<open>wake\<close>, the listener of the Base: the flag, then the signal, whose channel holds one.\<close>

definition flagTenant :: "string \<Rightarrow> 'd relay \<Rightarrow> 'd relay" where
  "flagTenant tenant r = r\<lparr>rl_sched := wakeTenant (rl_sched r) tenant\<rparr>"

definition sendWake :: "'d relay \<Rightarrow> 'd relay" where
  "sendWake r = r\<lparr>rl_wakeSignal := True\<rparr>"

definition relayWake :: "string \<Rightarrow> 'd relay \<Rightarrow> 'd relay" where
  "relayWake tenant r = sendWake (flagTenant tenant r)"

text \<open>The defaults of \<open>Connect\<close> and \<open>start\<close>.\<close>

definition idleIntervalFromEnv :: "(string \<Rightarrow> duration option) \<Rightarrow> string \<Rightarrow> duration" where
  "idleIntervalFromEnv parseDuration v =
     (if v = [] then defaultIdleInterval
      else case parseDuration v of None \<Rightarrow> defaultIdleInterval | Some d \<Rightarrow> d)"

definition withDefaults :: "(string \<Rightarrow> duration option) \<Rightarrow> string \<Rightarrow> relay_config \<Rightarrow> relay_config" where
  "withDefaults parseDuration idleEnv cfg =
     (let cfg1 = (if rc_Interval cfg = 0 then cfg\<lparr>rc_Interval := 2 * Second\<rparr> else cfg);
          cfg2 = (if rc_Batch cfg1 = 0 then cfg1\<lparr>rc_Batch := 100\<rparr> else cfg1)
      in if rc_IdleInterval cfg2 = 0
         then cfg2\<lparr>rc_IdleInterval := idleIntervalFromEnv parseDuration idleEnv\<rparr> else cfg2)"

definition startSchedule :: "(string \<Rightarrow> duration option) \<Rightarrow> string \<Rightarrow> relay_config \<Rightarrow> sweep_schedule" where
  "startSchedule parseDuration idleEnv cfg = newSweepSchedule (rc_Interval cfg)
     (if rc_IdleInterval cfg = 0 then idleIntervalFromEnv parseDuration idleEnv else rc_IdleInterval cfg)"

section \<open>Samples\<close>

definition sample_codecs :: codecs where
  "sample_codecs = \<lparr>co_time = (\<lambda>_. ''2026-10-08T00:00:00Z''), co_parseCausation = (\<lambda>_. Some \<lparr>ca_EventID = [], ca_PrincipalType = [],
     ca_PrincipalID = [], ca_Chain = []\<rparr>),
     co_marshal = (\<lambda>e. Some (en_Data e))\<rparr>"

definition sample_relay_config :: relay_config where
  "sample_relay_config = \<lparr>rc_StreamName = ''CORE'', rc_SubjectPrefix = ''core.>'', rc_ExtraTenants = [],
     rc_Discover = False, rc_DiscoverEvery = 0, rc_Interval = 2 * Second, rc_IdleInterval = 30 * Second,
     rc_Batch = 2, rc_TraceColumns = False\<rparr>"

end
