(* ===== verification/Outbox_Delivery.thy ===== *)
theory Outbox_Delivery
  imports Outbox_Relay
begin

text \<open>
  Delivery over several replicas. Every replica runs \<open>drain\<close> for the tenant, and their fetches,
  publishes and marks interleave with the commits of new events; a replica may stop anywhere. The
  steps are the statements of \<^theory_text>\<open>Outbox_Relay\<close>. The rows of the tenant are in the order in
  which their transactions committed. A row has its id since its \<open>INSERT\<close>, so transactions that overlap
  commit in any order of their ids; the database only keeps ids and event ids apart.
\<close>

datatype replica = Idle | AtPublish "event_row list" | AtMark event_row "event_row list"

record fleet =
  fl_db :: "unit tenant_db"
  fl_log :: "message list"
  fl_reps :: "nat \<Rightarrow> replica"

definition tenantRows :: "string \<Rightarrow> unit tenant_db \<Rightarrow> outbox_row list" where
  "tenantRows tenant db = filter (\<lambda>r. or_tenant r = tenant) (db_rows db)"

definition atRep :: "fleet \<Rightarrow> nat \<Rightarrow> replica \<Rightarrow> fleet" where
  "atRep s p ph = s\<lparr>fl_reps := (fl_reps s)(p := ph)\<rparr>"

inductive fstep :: "relay_config \<Rightarrow> codecs \<Rightarrow> string \<Rightarrow> fleet \<Rightarrow> fleet \<Rightarrow> bool"
  for cfg co tenant where
  commit: "\<forall>r \<in> set (tenantRows tenant (fl_db s)). or_id r \<noteq> or_id row \<and> or_event r \<noteq> or_event row \<Longrightarrow>
     or_tenant row = tenant \<Longrightarrow> or_published row = None \<Longrightarrow>
     fstep cfg co tenant s (s\<lparr>fl_db := (fl_db s)\<lparr>db_rows := db_rows (fl_db s) @ [row]\<rparr>\<rparr>)"
| fetch: "fl_reps s p = Idle \<Longrightarrow>
     fetchRows (Inr ()) tenant (rc_Batch cfg) (rc_TraceColumns cfg) (fl_db s) = Inr rows \<Longrightarrow>
     fstep cfg co tenant s (atRep s p (AtPublish rows))"
| publish: "fl_reps s p = AtPublish (row # rows) \<Longrightarrow> publish co fate row (fl_log s) = (sent, log) \<Longrightarrow>
     db = (if sent then fl_db s else snd (BumpAttempts bump tenant (rw_ID row) (fl_db s))) \<Longrightarrow>
     fstep cfg co tenant s
       (atRep (s\<lparr>fl_log := log, fl_db := db\<rparr>) p (if sent then AtMark row rows else Idle))"
| mark: "fl_reps s p = AtMark row rows \<Longrightarrow>
     MarkPublished fault tenant (rw_ID row) (fl_db s) = (res, db) \<Longrightarrow>
     fstep cfg co tenant s (atRep (s\<lparr>fl_db := db\<rparr>) p (if ok res then AtPublish rows else Idle))"
| stop: "fstep cfg co tenant s (atRep s p Idle)"

definition fleet0 :: fleet where
  "fleet0 = \<lparr>fl_db = \<lparr>db_rows = [], db_columns = True, db_processed = [], db_domain = ()\<rparr>,
     fl_log = [], fl_reps = (\<lambda>_. Idle)\<rparr>"

inductive fleetReach :: "relay_config \<Rightarrow> codecs \<Rightarrow> string \<Rightarrow> fleet \<Rightarrow> bool" for cfg co tenant where
  start: "fleetReach cfg co tenant fleet0"
| step: "fleetReach cfg co tenant s \<Longrightarrow> fstep cfg co tenant s s' \<Longrightarrow> fleetReach cfg co tenant s'"

section \<open>First occurrences\<close>

definition firsts :: "'a list \<Rightarrow> 'a list" where
  "firsts xs = rev (remdups (rev xs))"

lemma firsts_Nil [simp]: "firsts [] = []"
  by (simp add: firsts_def)

lemma firsts_snoc: "firsts (xs @ [x]) = (if x \<in> set xs then firsts xs else firsts xs @ [x])"
  by (simp add: firsts_def)

lemma set_firsts [simp]: "set (firsts xs) = set xs"
  by (simp add: firsts_def)

section \<open>The invariant\<close>

text \<open>The rows of the tenant as the relay reads them, in commit order.\<close>

definition wire :: "relay_config \<Rightarrow> string \<Rightarrow> unit tenant_db \<Rightarrow> event_row list" where
  "wire cfg tenant db = map (toRow (rc_TraceColumns cfg)) (tenantRows tenant db)"

definition messageOf :: "codecs \<Rightarrow> event_row \<Rightarrow> message" where
  "messageOf co row = \<lparr>ms_subject = rw_Subject row, ms_data = the (envelopeFor co row), ms_id = rw_EventID row\<rparr>"

text \<open>A row that committed before another and has the smaller id.\<close>

definition ahead :: "event_row list \<Rightarrow> event_row \<Rightarrow> event_row \<Rightarrow> bool" where
  "ahead w x y \<longleftrightarrow> (\<exists>i j. i < j \<and> j < length w \<and> w ! i = x \<and> w ! j = y \<and> rw_ID x < rw_ID y)"

text \<open>
  What a replica may still do with a batch, the messages \<open>sent\<close> being stored: every row ahead of one of
  the batch was sent, or comes before it in the batch. And every message of the log is of a row whose
  rows ahead are earlier in the log.
\<close>

fun batchOK :: "codecs \<Rightarrow> event_row list \<Rightarrow> message set \<Rightarrow> event_row list \<Rightarrow> bool" where
  "batchOK co w sent [] = True"
| "batchOK co w sent (y # ys) \<longleftrightarrow> y \<in> set w \<and> (\<forall>x. ahead w x y \<longrightarrow> messageOf co x \<in> sent)
     \<and> batchOK co w (insert (messageOf co y) sent) ys"

definition logOK :: "codecs \<Rightarrow> event_row list \<Rightarrow> message list \<Rightarrow> bool" where
  "logOK co w log \<longleftrightarrow> (\<forall>as m bs. log = as @ m # bs \<longrightarrow>
     (\<exists>y \<in> set w. m = messageOf co y \<and> envelopeFor co y \<noteq> None \<and> (\<forall>x. ahead w x y \<longrightarrow> messageOf co x \<in> set as)))"

fun replicaOK :: "codecs \<Rightarrow> event_row list \<Rightarrow> message set \<Rightarrow> replica \<Rightarrow> bool" where
  "replicaOK co w sent Idle = True"
| "replicaOK co w sent (AtPublish rows) = batchOK co w sent rows"
| "replicaOK co w sent (AtMark row rows) \<longleftrightarrow> row \<in> set w \<and> messageOf co row \<in> sent \<and> batchOK co w sent rows"

definition marksOK :: "relay_config \<Rightarrow> codecs \<Rightarrow> string \<Rightarrow> fleet \<Rightarrow> bool" where
  "marksOK cfg co tenant s \<longleftrightarrow> (\<forall>r \<in> set (tenantRows tenant (fl_db s)). or_published r \<noteq> None \<longrightarrow>
     messageOf co (toRow (rc_TraceColumns cfg) r) \<in> set (fl_log s))"

definition fleetInv :: "relay_config \<Rightarrow> codecs \<Rightarrow> string \<Rightarrow> fleet \<Rightarrow> bool" where
  "fleetInv cfg co tenant s \<longleftrightarrow> (let w = wire cfg tenant (fl_db s) in
     distinct (map rw_ID w) \<and> distinct (map rw_EventID w) \<and> logOK co w (fl_log s) \<and> marksOK cfg co tenant s
     \<and> (\<forall>p. replicaOK co w (set (fl_log s)) (fl_reps s p)))"

lemma fleetInvD:
  assumes "fleetInv cfg co tenant s"
  shows "distinct (map rw_ID (wire cfg tenant (fl_db s)))" "distinct (map rw_EventID (wire cfg tenant (fl_db s)))"
    "logOK co (wire cfg tenant (fl_db s)) (fl_log s)" "marksOK cfg co tenant s"
    "replicaOK co (wire cfg tenant (fl_db s)) (set (fl_log s)) (fl_reps s p)"
  using assms by (auto simp: fleetInv_def Let_def)

lemma fleetInvI:
  assumes "wire cfg tenant (fl_db s) = w" "distinct (map rw_ID w)" "distinct (map rw_EventID w)"
    "logOK co w (fl_log s)" "marksOK cfg co tenant s" "\<And>p. replicaOK co w (set (fl_log s)) (fl_reps s p)"
  shows "fleetInv cfg co tenant s"
  using assms by (simp add: fleetInv_def)

lemma toRow_update [simp]:
  "toRow b (r\<lparr>or_published := x\<rparr>) = toRow b r" "toRow b (r\<lparr>or_attempts := n\<rparr>) = toRow b r"
  by (simp_all add: toRow_def)

lemma rw_ID_toRow [simp]: "rw_ID (toRow b r) = or_id r" "rw_EventID (toRow b r) = or_event r"
  by (simp_all add: toRow_def)

lemma tenantRows_update:
  "(\<And>r. or_tenant (f r) = or_tenant r) \<Longrightarrow>
     tenantRows tenant (updateRows f tenant i db) = map (\<lambda>r. if or_id r = i then f r else r) (tenantRows tenant db)"
proof -
  assume f: "\<And>r. or_tenant (f r) = or_tenant r"
  have "filter (\<lambda>r. or_tenant r = tenant) (map (\<lambda>r. if or_id r = i \<and> or_tenant r = tenant then f r else r) rs)
      = map (\<lambda>r. if or_id r = i then f r else r) (filter (\<lambda>r. or_tenant r = tenant) rs)" for rs
    by (induction rs) (auto simp: f)
  then show ?thesis by (simp add: tenantRows_def updateRows_def)
qed

lemma wire_bump [simp]: "wire cfg tenant (snd (BumpAttempts fault tenant i db)) = wire cfg tenant db"
  by (auto simp: wire_def BumpAttempts_def tenantRows_update split: sum.split)

lemma wire_mark:
  "MarkPublished fault tenant i db = (res, db') \<Longrightarrow> wire cfg tenant db' = wire cfg tenant db"
  by (auto simp: wire_def MarkPublished_def tenantRows_update split: sum.splits)

lemma bump_marked:
  "r \<in> set (tenantRows tenant (snd (BumpAttempts fault tenant i db))) \<Longrightarrow> or_published r \<noteq> None \<Longrightarrow>
     \<exists>r0 \<in> set (tenantRows tenant db). or_published r0 \<noteq> None \<and> toRow b r0 = toRow b r"
  by (fastforce simp: BumpAttempts_def tenantRows_update split: sum.splits if_splits)

lemma mark_marked:
  "MarkPublished fault tenant i db = (res, db') \<Longrightarrow> r \<in> set (tenantRows tenant db') \<Longrightarrow> or_published r \<noteq> None \<Longrightarrow>
     or_id r = i \<or> (\<exists>r0 \<in> set (tenantRows tenant db). or_published r0 \<noteq> None \<and> toRow b r0 = toRow b r)"
  by (fastforce simp: MarkPublished_def tenantRows_update split: sum.splits if_splits)

lemma ahead_in: "ahead w x y \<Longrightarrow> x \<in> set w \<and> y \<in> set w \<and> rw_ID x < rw_ID y"
  by (auto simp: ahead_def)

lemma ahead_snoc: "ahead (w @ [z]) x y \<Longrightarrow> ahead w x y \<or> y = z"
  by (fastforce simp: ahead_def nth_append split: if_splits)

lemma batchOK_mono: "batchOK co w sent ys \<Longrightarrow> sent \<subseteq> sent' \<Longrightarrow> batchOK co w sent' ys"
proof (induction co w sent ys arbitrary: sent' rule: batchOK.induct)
  case (2 co w sent y ys)
  from 2(2) 2(1) [of "insert (messageOf co y) sent'"] 2(3) show ?case by auto
qed simp

lemma replicaOK_mono: "replicaOK co w sent ph \<Longrightarrow> sent \<subseteq> sent' \<Longrightarrow> replicaOK co w sent' ph"
  by (cases ph) (auto intro: batchOK_mono)

lemma batchOK_snoc: "batchOK co w sent ys \<Longrightarrow> z \<notin> set w \<Longrightarrow> batchOK co (w @ [z]) sent ys"
  by (induction co w sent ys rule: batchOK.induct) (auto dest: ahead_snoc)

lemma replicaOK_snoc: "replicaOK co w sent ph \<Longrightarrow> z \<notin> set w \<Longrightarrow> replicaOK co (w @ [z]) sent ph"
  by (cases ph) (auto intro: batchOK_snoc)

lemma logOK_snoc: "logOK co w log \<Longrightarrow> z \<notin> set w \<Longrightarrow> logOK co (w @ [z]) log"
  unfolding logOK_def by (fastforce dest: ahead_snoc)

text \<open>A batch in id order that holds whatever was not sent.\<close>

lemma batchOK_fetched:
  assumes "sorted_wrt (<) (map rw_ID ys)" and "set ys \<subseteq> set w"
    and "\<And>x. x \<in> set w \<Longrightarrow> messageOf co x \<in> sent \<or> x \<in> set ys"
  shows "batchOK co w sent (take n ys)"
  using assms
proof (induction ys arbitrary: sent n)
  case (Cons y ys)
  have "messageOf co x \<in> sent" if "ahead w x y" for x
    using ahead_in [OF that] Cons.prems(1) Cons.prems(3) [of x] by fastforce
  moreover have "batchOK co w (insert (messageOf co y) sent) (take m ys)" for m
    using Cons.prems by (intro Cons.IH) auto
  ultimately show ?case using Cons.prems(2) by (cases n) auto
qed simp

lemma unpublished_props:
  "set (unpublished tenant db) = {r \<in> set (tenantRows tenant db). or_published r = None}"
  "distinct (map or_id (tenantRows tenant db)) \<Longrightarrow> sorted_wrt (<) (map or_id (unpublished tenant db))"
proof -
  show "set (unpublished tenant db) = {r \<in> set (tenantRows tenant db). or_published r = None}"
    by (auto simp: unpublished_def tenantRows_def)
  assume "distinct (map or_id (tenantRows tenant db))"
  then have "distinct (map or_id (filter (\<lambda>r. or_published r = None) (tenantRows tenant db)))"
    by (simp add: distinct_map inj_on_def)
  also have "filter (\<lambda>r. or_published r = None) (tenantRows tenant db)
      = filter (\<lambda>r. or_published r = None \<and> or_tenant r = tenant) (db_rows db)"
    by (simp add: tenantRows_def conj_commute)
  finally have "distinct (map or_id (unpublished tenant db))"
    by (simp add: unpublished_def distinct_map)
  then show "sorted_wrt (<) (map or_id (unpublished tenant db))"
    by (simp add: strict_sorted_iff unpublished_def)
qed

lemma atRep_frame [simp]: "fl_db (atRep s p ph) = fl_db s" "fl_log (atRep s p ph) = fl_log s"
  by (simp_all add: atRep_def)

lemma atRep_reps: "fl_reps (atRep s p ph) q = (if q = p then ph else fl_reps s q)"
  by (simp add: atRep_def)

lemma publish_cases:
  assumes "publish co fate row log = (sent, log')"
  obtains (stored) "log' = log @ [messageOf co row]" "envelopeFor co row \<noteq> None" | (kept) "log' = log" "\<not> sent"
  using assms by (auto simp: publish_def messageOf_def Let_def split: option.splits publish_fate.splits)

lemma logOK_publish:
  assumes "logOK co w log" and "y \<in> set w" and "envelopeFor co y \<noteq> None"
    and "\<And>x. ahead w x y \<Longrightarrow> messageOf co x \<in> set log"
  shows "logOK co w (log @ [messageOf co y])"
  unfolding logOK_def
proof (intro allI impI)
  fix as m bs assume l: "log @ [messageOf co y] = as @ m # bs"
  show "\<exists>y \<in> set w. m = messageOf co y \<and> envelopeFor co y \<noteq> None \<and> (\<forall>x. ahead w x y \<longrightarrow> messageOf co x \<in> set as)"
  proof (cases bs rule: rev_cases)
    case Nil
    with l assms(2-4) show ?thesis by auto
  next
    case (snoc bs' b)
    with l have "log = as @ m # bs'" by simp
    with assms(1) show ?thesis unfolding logOK_def by blast
  qed
qed

lemma wire_commit:
  assumes "or_tenant row = tenant"
  shows "tenantRows tenant (db\<lparr>db_rows := db_rows db @ [row]\<rparr>) = tenantRows tenant db @ [row]"
    and "wire cfg tenant (db\<lparr>db_rows := db_rows db @ [row]\<rparr>) = wire cfg tenant db @ [toRow (rc_TraceColumns cfg) row]"
  using assms by (simp_all add: tenantRows_def wire_def)

lemma fleetInv_step:
  assumes inv: "fleetInv cfg co tenant s" and step: "fstep cfg co tenant s s'"
  shows "fleetInv cfg co tenant s'"
  using step
proof cases
  case (commit row)
  let ?w = "wire cfg tenant (fl_db s)" and ?z = "toRow (rc_TraceColumns cfg) row"
  have z: "?z \<notin> set ?w" using commit(2) by (force simp: wire_def dest: arg_cong [where f = rw_ID])
  show ?thesis
  proof (rule fleetInvI)
    show "wire cfg tenant (fl_db s') = ?w @ [?z]" using commit by (simp add: wire_commit)
    show "distinct (map rw_ID (?w @ [?z]))" "distinct (map rw_EventID (?w @ [?z]))"
      using fleetInvD(1,2) [OF inv] commit(2) by (auto simp: wire_def)
    show "logOK co (?w @ [?z]) (fl_log s')" using logOK_snoc [OF fleetInvD(3) [OF inv] z] commit by simp
    show "marksOK cfg co tenant s'" using fleetInvD(4) [OF inv] commit by (auto simp: marksOK_def wire_commit)
    show "replicaOK co (?w @ [?z]) (set (fl_log s')) (fl_reps s' p)" for p
      using replicaOK_snoc [OF fleetInvD(5) [OF inv] z, of p] commit by simp
  qed
next
  case (fetch p rows)
  let ?w = "wire cfg tenant (fl_db s)" and ?U = "unpublished tenant (fl_db s)" and ?b = "rc_TraceColumns cfg"
  have rows: "rows = take (nat (rc_Batch cfg)) (map (toRow ?b) ?U)"
    using fetch by (auto simp: fetchRows_def take_map split: if_splits)
  have ids: "distinct (map or_id (tenantRows tenant (fl_db s)))"
    using fleetInvD(1) [OF inv] by (simp add: wire_def comp_def)
  have "batchOK co ?w (set (fl_log s)) rows"
    unfolding rows
  proof (rule batchOK_fetched)
    show "sorted_wrt (<) (map rw_ID (map (toRow ?b) ?U))"
      using unpublished_props(2) [OF ids] by (simp add: comp_def)
    show "set (map (toRow ?b) ?U) \<subseteq> set ?w" by (auto simp: unpublished_props(1) wire_def)
    show "messageOf co x \<in> set (fl_log s) \<or> x \<in> set (map (toRow ?b) ?U)" if "x \<in> set ?w" for x
      using that fleetInvD(4) [OF inv] by (auto simp: marksOK_def wire_def unpublished_props(1))
  qed
  then have "replicaOK co ?w (set (fl_log s')) (fl_reps s' q)" for q
    using fleetInvD(5) [OF inv, of q] fetch(1) by (simp add: atRep_reps)
  moreover have "marksOK cfg co tenant s'" using fleetInvD(4) [OF inv] fetch(1) by (simp add: marksOK_def)
  ultimately show ?thesis using fleetInvD(1-3) [OF inv] fetch(1) by (intro fleetInvI [where w = ?w]) auto
next
  case (publish p row rows fate sent log db bump)
  let ?w = "wire cfg tenant (fl_db s)"
  have here: "row \<in> set ?w" "\<And>x. ahead ?w x row \<Longrightarrow> messageOf co x \<in> set (fl_log s)"
    "batchOK co ?w (insert (messageOf co row) (set (fl_log s))) rows"
    using fleetInvD(5) [OF inv, of p] publish(2) by auto
  have w: "wire cfg tenant (fl_db s') = ?w" using publish(1,4) by simp
  have log: "logOK co ?w log" and more: "set (fl_log s) \<subseteq> set log"
    and put: "sent \<Longrightarrow> set log = insert (messageOf co row) (set (fl_log s))"
    using publish(3) by (cases rule: publish_cases; use logOK_publish [OF fleetInvD(3) [OF inv] here(1) _ here(2)] fleetInvD(3) [OF inv] in auto)+
  have "replicaOK co ?w (set log) (fl_reps s' q)" for q
    using replicaOK_mono [OF fleetInvD(5) [OF inv, of q] more] publish(1) here(1,3) put
    by (auto simp: atRep_reps)
  moreover have "marksOK cfg co tenant s'"
    unfolding marksOK_def
  proof (intro ballI impI)
    fix r assume "r \<in> set (tenantRows tenant (fl_db s'))" "or_published r \<noteq> None"
    then have "\<exists>r0 \<in> set (tenantRows tenant (fl_db s)). or_published r0 \<noteq> None
        \<and> toRow (rc_TraceColumns cfg) r0 = toRow (rc_TraceColumns cfg) r"
      using publish(1,4) bump_marked [of r tenant bump "rw_ID row" "fl_db s"] by (cases sent) auto
    with fleetInvD(4) [OF inv] more publish(1) show "messageOf co (toRow (rc_TraceColumns cfg) r) \<in> set (fl_log s')"
      by (fastforce simp: marksOK_def)
  qed
  ultimately show ?thesis using fleetInvD(1,2) [OF inv] log publish(1) by (intro fleetInvI [OF w]) auto
next
  case (mark p row rows fault res db)
  let ?w = "wire cfg tenant (fl_db s)" and ?b = "rc_TraceColumns cfg"
  have here: "row \<in> set ?w" "messageOf co row \<in> set (fl_log s)" "batchOK co ?w (set (fl_log s)) rows"
    using fleetInvD(5) [OF inv, of p] mark(2) by auto
  have w: "wire cfg tenant (fl_db s') = ?w" using mark(1,3) by (simp add: wire_mark)
  have "replicaOK co ?w (set (fl_log s')) (fl_reps s' q)" for q
    using fleetInvD(5) [OF inv, of q] mark(1) here(3) by (auto simp: atRep_reps)
  moreover have "marksOK cfg co tenant s'"
    unfolding marksOK_def
  proof (intro ballI impI)
    fix r assume r: "r \<in> set (tenantRows tenant (fl_db s'))" "or_published r \<noteq> None"
    then have "or_id r = rw_ID row \<or> (\<exists>r0 \<in> set (tenantRows tenant (fl_db s)). or_published r0 \<noteq> None \<and> toRow ?b r0 = toRow ?b r)"
      using mark_marked [OF mark(3)] mark(1) by simp
    then have "messageOf co (toRow ?b r) \<in> set (fl_log s)"
    proof
      assume "or_id r = rw_ID row"
      moreover from r(1) w have "toRow ?b r \<in> set ?w" by (metis (no_types) imageI list.set_map wire_def)
      ultimately have "toRow ?b r = row"
        using fleetInvD(1) [OF inv] here(1) by (metis distinct_map inj_onD rw_ID_toRow(1))
      with here(2) show ?thesis by simp
    next
      assume "\<exists>r0 \<in> set (tenantRows tenant (fl_db s)). or_published r0 \<noteq> None \<and> toRow ?b r0 = toRow ?b r"
      with fleetInvD(4) [OF inv] show ?thesis by (fastforce simp: marksOK_def)
    qed
    with mark(1) show "messageOf co (toRow ?b r) \<in> set (fl_log s')" by simp
  qed
  ultimately show ?thesis using fleetInvD(1-3) [OF inv] mark(1) by (intro fleetInvI [OF w]) auto
next
  case (stop p)
  have "marksOK cfg co tenant s'" using fleetInvD(4) [OF inv] stop by (simp add: marksOK_def)
  with fleetInvD [OF inv] stop show ?thesis by (intro fleetInvI [OF refl]) (auto simp: atRep_reps)
qed

lemma fleetReach_inv: "fleetReach cfg co tenant s \<Longrightarrow> fleetInv cfg co tenant s"
proof (induction rule: fleetReach.induct)
  case start
  show ?case
    by (rule fleetInvI [OF refl]) (auto simp: fleet0_def wire_def tenantRows_def logOK_def marksOK_def)
next
  case (step s s')
  then show ?case using fleetInv_step by blast
qed

section \<open>Order and loss\<close>

text \<open>A list in which what stands before an element of another one comes before it, first heard, is its prefix.\<close>

lemma firsts_prefix:
  assumes "set xs \<subseteq> set ys" and "distinct ys"
    and "\<And>i j as bs. i < j \<Longrightarrow> j < length ys \<Longrightarrow> xs = as @ ys ! j # bs \<Longrightarrow> ys ! i \<in> set as"
  shows "\<exists>m \<le> length ys. firsts xs = take m ys"
  using assms
proof (induction xs rule: rev_induct)
  case (snoc x xs)
  have "\<exists>m \<le> length ys. firsts xs = take m ys"
    using snoc.prems(1,2) by (intro snoc.IH) (auto intro: snoc.prems(3))
  then obtain m where m: "m \<le> length ys" "firsts xs = take m ys" by blast
  show ?case
  proof (cases "x \<in> set xs")
    case True
    with m show ?thesis by (auto simp: firsts_snoc)
  next
    case False
    from snoc.prems(1) obtain j where j: "j < length ys" "ys ! j = x" by (auto simp: in_set_conv_nth)
    have set: "set xs = set (take m ys)" using arg_cong [OF m(2), of set] by simp
    have "\<not> j < m" using False j set by (auto simp: in_set_conv_nth)
    moreover have "\<not> m < j"
    proof
      assume "m < j"
      with snoc.prems(3) [of m j xs "[]"] j have "ys ! m \<in> set (take m ys)" by (simp add: set)
      with \<open>m < j\<close> j(1) snoc.prems(2) show False by (auto simp: in_set_conv_nth nth_eq_iff_index_eq)
    qed
    ultimately have "firsts (xs @ [x]) = take (Suc m) ys \<and> Suc m \<le> length ys"
      using False j m(2) by (simp add: firsts_snoc take_Suc_conv_app_nth)
    then show ?thesis by blast
  qed
qed (auto intro: exI [of _ 0])

lemma nth_wire: "i < length (tenantRows tenant db) \<Longrightarrow> wire cfg tenant db ! i = toRow (rc_TraceColumns cfg) (tenantRows tenant db ! i)"
  by (simp add: wire_def)

text \<open>What the invariant says of the log, over the rows of the table.\<close>

lemma fleetInv_log:
  assumes inv: "fleetInv cfg co tenant s" and T: "T = tenantRows tenant (fl_db s)"
    and msg: "msg = (\<lambda>r. messageOf co (toRow (rc_TraceColumns cfg) r))"
  shows "m \<in> set (fl_log s) \<Longrightarrow> \<exists>r \<in> set T. m = msg r \<and> envelopeFor co (toRow (rc_TraceColumns cfg) r) = Some (ms_data m)"
    and "r \<in> set T \<Longrightarrow> or_published r \<noteq> None \<Longrightarrow> msg r \<in> set (fl_log s)"
    and "i < j \<Longrightarrow> j < length T \<Longrightarrow> or_id (T ! i) < or_id (T ! j) \<Longrightarrow> fl_log s = as @ msg (T ! j) # bs \<Longrightarrow> msg (T ! i) \<in> set as"
    and "distinct (map msg T)"
proof -
  let ?w = "wire cfg tenant (fl_db s)"
  note log = fleetInvD(3) [OF inv, unfolded logOK_def, rule_format]
  show "\<exists>r \<in> set T. m = msg r \<and> envelopeFor co (toRow (rc_TraceColumns cfg) r) = Some (ms_data m)" if "m \<in> set (fl_log s)"
  proof -
    from split_list [OF that] log obtain y where "y \<in> set ?w" "m = messageOf co y" "envelopeFor co y \<noteq> None" by blast
    then show ?thesis by (auto simp: wire_def T msg messageOf_def)
  qed
  show "msg r \<in> set (fl_log s)" if "r \<in> set T" "or_published r \<noteq> None"
    using fleetInvD(4) [OF inv] that by (simp add: marksOK_def T msg)
  have "map msg T = map (messageOf co) ?w" by (simp add: wire_def T msg)
  moreover have "distinct (map (messageOf co) ?w)"
  proof -
    have "distinct (map ms_id (map (messageOf co) ?w))"
      using fleetInvD(2) [OF inv] by (simp add: comp_def messageOf_def)
    then show ?thesis by (simp only: distinct_map)
  qed
  ultimately show dist: "distinct (map msg T)" by simp
  show "msg (T ! i) \<in> set as" if ij: "i < j" "j < length T" "or_id (T ! i) < or_id (T ! j)" and l: "fl_log s = as @ msg (T ! j) # bs"
  proof -
    from log [OF l] obtain y where y: "y \<in> set ?w" "msg (T ! j) = messageOf co y" "\<And>x. ahead ?w x y \<Longrightarrow> messageOf co x \<in> set as"
      by blast
    have len: "length ?w = length T" by (simp add: wire_def T)
    have "messageOf co (?w ! j) = messageOf co y" using y(2) ij(2) nth_wire [of j] by (simp add: T msg)
    moreover have "inj_on (messageOf co) (set ?w)"
      using \<open>distinct (map (messageOf co) ?w)\<close> by (simp add: distinct_map)
    moreover have "?w ! j \<in> set ?w" using ij(2) len by simp
    ultimately have "?w ! j = y" using y(1) by (meson inj_onD)
    moreover have "ahead ?w (?w ! i) (?w ! j)"
      using ij len unfolding ahead_def T by (intro exI [of _ i] exI [of _ j]) (simp add: nth_wire)
    ultimately have "ahead ?w (?w ! i) y" by simp
    from y(3) [OF this] ij show ?thesis by (simp add: nth_wire T msg)
  qed
qed

text \<open>
  C8. No event is lost, and the relay never reorders what the ids order. Over any interleaving of
  replicas, failures, repetitions and commits, in which ids need not follow the commits: every message
  the broker stored is the envelope of an event that committed; every event marked published was
  stored; and whenever an event that committed earlier has the smaller id, the broker had stored it
  before any message of the later one. So where the ids follow the commits, as for writers that the
  domain serializes, the distinct messages are the oldest events of the tenant, in order and without a gap.
\<close>

theorem delivered_in_order_none_lost:
  assumes "fleetReach cfg co tenant s" and "T = tenantRows tenant (fl_db s)"
    and "msg = (\<lambda>r. messageOf co (toRow (rc_TraceColumns cfg) r))"
  shows "(\<forall>m \<in> set (fl_log s). \<exists>r \<in> set T. m = msg r \<and> envelopeFor co (toRow (rc_TraceColumns cfg) r) = Some (ms_data m))
     \<and> (\<forall>r \<in> set T. or_published r \<noteq> None \<longrightarrow> msg r \<in> set (fl_log s))
     \<and> (\<forall>i j as bs. i < j \<and> j < length T \<and> or_id (T ! i) < or_id (T ! j) \<and> fl_log s = as @ msg (T ! j) # bs
           \<longrightarrow> msg (T ! i) \<in> set as)
     \<and> (sorted_wrt (<) (map or_id T) \<longrightarrow> (\<exists>m \<le> length T. firsts (fl_log s) = map msg (take m T)))"
proof -
  note log = fleetInv_log [OF fleetReach_inv [OF assms(1)] assms(2,3)]
  have "\<exists>m \<le> length T. firsts (fl_log s) = map msg (take m T)" if sorted: "sorted_wrt (<) (map or_id T)"
  proof -
    have "map msg T ! i \<in> set as"
      if "i < j" "j < length (map msg T)" "fl_log s = as @ map msg T ! j # bs" for i j as bs
      using log(3) [of i j as bs] that sorted_wrt_nth_less [OF sorted, of i j] by simp
    with firsts_prefix [of "fl_log s" "map msg T"] log(1,4) show ?thesis by (fastforce simp: take_map)
  qed
  with log(1-3) show ?thesis by blast
qed

section \<open>One drain with a working broker\<close>

lemma sort_key_map:
  assumes "\<And>x. k (g x) = k x"
  shows "sort_key k (map g xs) = map g (sort_key k xs)"
proof -
  have "insort_key k (g x) (map g ys) = map g (insort_key k x ys)" for x ys
    by (induction ys) (simp_all add: assms)
  then show ?thesis by (induction xs) simp_all
qed

lemma unpublished_mark:
  assumes "MarkPublished (Inr now) tenant i db = (res, db')"
  shows "res = Inr ()" and "unpublished tenant db' = filter (\<lambda>r. or_id r \<noteq> i) (unpublished tenant db)"
proof -
  let ?P = "\<lambda>r. or_published r = None \<and> or_tenant r = tenant"
  let ?u = "\<lambda>r. if or_id r = i \<and> or_tenant r = tenant then r\<lparr>or_published := Some now\<rparr> else r"
  have kept: "filter ?P (map ?u rs) = filter (\<lambda>r. or_id r \<noteq> i) (filter ?P rs)" for rs
    by (induction rs) auto
  have "unpublished tenant db' = sort_key or_id (filter ?P (map ?u (db_rows db)))"
    using assms by (auto simp: MarkPublished_def unpublished_def updateRows_def)
  also have "\<dots> = sort_key or_id (filter (\<lambda>r. or_id r \<noteq> i) (filter ?P (db_rows db)))"
    by (simp only: kept)
  also have "\<dots> = filter (\<lambda>r. or_id r \<noteq> i) (unpublished tenant db)"
    by (simp only: filter_sort unpublished_def)
  finally show "unpublished tenant db' = filter (\<lambda>r. or_id r \<noteq> i) (unpublished tenant db)" .
  show "res = Inr ()" using assms by (auto simp: MarkPublished_def)
qed

text \<open>A failed publish counts an attempt of its row and leaves every row pending.\<close>

definition bumped :: "string + unit \<Rightarrow> int \<Rightarrow> outbox_row \<Rightarrow> outbox_row" where
  "bumped fault i r = (if ok fault \<and> or_id r = i then r\<lparr>or_attempts := or_attempts r + 1\<rparr> else r)"

lemma unpublished_bump:
  "unpublished tenant (snd (BumpAttempts fault tenant i db)) = map (bumped fault i) (unpublished tenant db)"
proof -
  let ?P = "\<lambda>r. or_published r = None \<and> or_tenant r = tenant"
  let ?u = "\<lambda>r. if or_id r = i \<and> or_tenant r = tenant then r\<lparr>or_attempts := Suc (or_attempts r)\<rparr> else r"
  have "filter ?P (map ?u rs) = map (bumped (Inr ()) i) (filter ?P rs)" for rs
    by (induction rs) (auto simp: bumped_def)
  then have "unpublished tenant (updateRows (\<lambda>r. r\<lparr>or_attempts := or_attempts r + 1\<rparr>) tenant i db)
      = sort_key or_id (map (bumped (Inr ()) i) (filter ?P (db_rows db)))"
    by (simp add: unpublished_def updateRows_def)
  also have "\<dots> = map (bumped (Inr ()) i) (unpublished tenant db)"
    by (simp add: unpublished_def sort_key_map bumped_def)
  moreover have "map (bumped (Inl e) i) rs = rs" for e rs by (simp add: bumped_def map_idI)
  ultimately show ?thesis by (cases fault) (simp_all add: BumpAttempts_def)
qed

abbreviation encodes :: "codecs \<Rightarrow> event_row \<Rightarrow> bool" where
  "encodes co row \<equiv> envelopeFor co row \<noteq> None"

text \<open>The first row of the batch that cannot be encoded, as its row of the table and its fate tell.\<close>

definition stoppedAt :: "codecs \<Rightarrow> (event_row \<Rightarrow> row_fate) \<Rightarrow> event_row list \<Rightarrow> outbox_row \<Rightarrow> outbox_row" where
  "stoppedAt co fate rows = (case dropWhile (encodes co) rows of
     [] \<Rightarrow> id | row # _ \<Rightarrow> bumped (rf_bump (fate row)) (rw_ID row))"

lemma drainRows_working:
  assumes "\<forall>row \<in> set rows. rf_publish (fate row) = StoredAcked \<and> ok (rf_mark (fate row))"
  shows "\<exists>db'. drainRows co tenant fate rows (db, log) =
       (\<not> list_all (encodes co) rows, db', log @ map (messageOf co) (takeWhile (encodes co) rows))
     \<and> unpublished tenant db' = map (stoppedAt co fate rows)
         (filter (\<lambda>r. or_id r \<notin> rw_ID ` set (takeWhile (encodes co) rows)) (unpublished tenant db))"
  using assms
proof (induction rows arbitrary: db log)
  case (Cons row rows)
  show ?case
  proof (cases "envelopeFor co row")
    case None
    then show ?thesis by (auto simp: publish_def unpublished_bump stoppedAt_def)
  next
    case (Some data)
    from Cons.prems obtain now where f: "rf_publish (fate row) = StoredAcked" "rf_mark (fate row) = Inr now"
      by (auto simp: ok_iff)
    obtain res db1 where m: "MarkPublished (Inr now) tenant (rw_ID row) db = (res, db1)" by (metis prod.exhaust)
    note um = unpublished_mark [OF m]
    from Cons.IH [of db1 "log @ [messageOf co row]"] Cons.prems obtain db' where
      "drainRows co tenant fate rows (db1, log @ [messageOf co row]) = (\<not> list_all (encodes co) rows, db',
         (log @ [messageOf co row]) @ map (messageOf co) (takeWhile (encodes co) rows))"
      "unpublished tenant db' = map (stoppedAt co fate rows)
         (filter (\<lambda>r. or_id r \<notin> rw_ID ` set (takeWhile (encodes co) rows)) (unpublished tenant db1))"
      by auto
    with f m um Some show ?thesis by (simp add: publish_def messageOf_def conj_commute stoppedAt_def)
  qed
qed (simp add: stoppedAt_def)

lemma filter_front:
  assumes "distinct (map f xs)" and "n \<le> length xs"
  shows "filter (\<lambda>x. f x \<notin> f ` set (take n xs)) xs = drop n xs"
proof -
  have "distinct (map f (take n xs @ drop n xs))" using assms(1) by simp
  then have "f ` set (take n xs) \<inter> f ` set (drop n xs) = {}" unfolding map_append distinct_append by simp
  then have "filter (\<lambda>x. f x \<notin> f ` set (take n xs)) (drop n xs) = drop n xs" by (auto simp: filter_id_conv)
  moreover have "filter (\<lambda>x. f x \<notin> f ` set (take n xs)) (take n xs) = []" by (auto simp: filter_empty_conv)
  ultimately show ?thesis by (metis append_Nil append_take_drop_id filter_append)
qed

text \<open>
  C15. One drain gets through the batch up to the first poison row. When the statements and the broker
  answer, a drain publishes the oldest pending events of the tenant, in id order, up to the size of the
  batch or to the first row whose envelope cannot be built; exactly these stop being pending. A row
  that cannot be encoded ends the drain: it and everything behind it stay pending as they were, and the
  attempt is counted on it. The tenant is busy exactly if it had anything pending in the batch. Only
  the rows of this batch are supposed to be answered, and nothing is supposed of their envelopes.
\<close>

theorem drain_delivers_up_to_the_poison_row:
  assumes "0 \<le> rc_Batch cfg" and "b = rc_TraceColumns cfg" and "b \<longrightarrow> db_columns db"
    and "U = unpublished tenant db" and "distinct (map or_id U)" and "batch = take (nat (rc_Batch cfg)) U"
    and "\<forall>r \<in> set batch. rf_publish (fate (toRow b r)) = StoredAcked \<and> ok (rf_mark (fate (toRow b r)))"
    and "good = takeWhile (\<lambda>r. envelopeFor co (toRow b r) \<noteq> None) batch"
  shows "\<exists>db'. drain cfg co tenant (Inr ()) fate (db, log) =
       (batch \<noteq> [], False, db', log @ map (\<lambda>r. messageOf co (toRow b r)) good)
     \<and> unpublished tenant db' = (if good = batch then drop (length batch) U
         else bumped (rf_bump (fate (toRow b (U ! length good)))) (or_id (U ! length good)) (U ! length good)
              # drop (Suc (length good)) U)"
proof -
  let ?rows = "map (toRow b) batch" and ?n = "length good"
  have good: "takeWhile (encodes co) ?rows = map (toRow b) good" by (simp add: takeWhile_map comp_def assms(8))
  have all: "list_all (encodes co) ?rows \<longleftrightarrow> good = batch"
    by (auto simp: assms(8) list_all_iff takeWhile_eq_all_conv)
  have in_batch: "good = take ?n batch" "?n \<le> length batch"
    unfolding assms(8) by (rule takeWhile_eq_take, rule length_takeWhile_le)
  then have "?n \<le> nat (rc_Batch cfg)" and front: "?n \<le> length U" by (simp_all add: assms(6))
  with in_batch(1) have front: "good = take ?n U" "?n \<le> length U" by (simp_all add: assms(6) min_absorb1)
  from drainRows_working [of ?rows fate co tenant db log] assms(7) obtain db' where
    d: "drainRows co tenant fate ?rows (db, log) = (good \<noteq> batch, db', log @ map (messageOf co) (map (toRow b) good))"
    "unpublished tenant db' = map (stoppedAt co fate ?rows) (filter (\<lambda>r. or_id r \<notin> rw_ID ` set (map (toRow b) good)) U)"
    unfolding good all assms(4) [symmetric] by auto
  have "filter (\<lambda>r. or_id r \<notin> rw_ID ` set (map (toRow b) good)) U = drop ?n U"
    using filter_front [OF assms(5) front(2)] front(1) by (simp add: image_image)
  with d(2) have left: "unpublished tenant db' = map (stoppedAt co fate ?rows) (drop ?n U)" by simp
  have "unpublished tenant db' = (if good = batch then drop (length batch) U
      else bumped (rf_bump (fate (toRow b (U ! ?n)))) (or_id (U ! ?n)) (U ! ?n) # drop (Suc ?n) U)"
  proof (cases "good = batch")
    case True
    with all have "dropWhile (encodes co) ?rows = []" by (simp add: dropWhile_eq_Nil_conv list_all_iff)
    then have "stoppedAt co fate ?rows = id" by (simp only: stoppedAt_def list.case)
    with True left show ?thesis by simp
  next
    case False
    have "?n < length batch"
      using False takeWhile_eq_take [of "\<lambda>r. encodes co (toRow b r)" batch] unfolding assms(8)
      by (metis linorder_not_le take_all)
    then have n: "?n < length U" and nth: "batch ! ?n = U ! ?n" by (auto simp: assms(6))
    have "dropWhile (encodes co) ?rows = map (toRow b) (drop ?n batch)"
      by (simp only: dropWhile_eq_drop good length_map drop_map)
    also have "\<dots> = toRow b (U ! ?n) # map (toRow b) (drop (Suc ?n) batch)"
      using \<open>?n < length batch\<close> by (simp add: Cons_nth_drop_Suc [symmetric] nth)
    finally have st: "stoppedAt co fate ?rows = bumped (rf_bump (fate (toRow b (U ! ?n)))) (or_id (U ! ?n))"
      by (simp add: stoppedAt_def)
    have "distinct (map or_id (drop ?n U))" using assms(5) by (simp add: drop_map [symmetric])
    with n have "or_id (U ! ?n) \<notin> or_id ` set (drop (Suc ?n) U)"
      by (simp add: Cons_nth_drop_Suc [symmetric])
    then have "\<forall>r \<in> set (drop (Suc ?n) U). or_id r \<noteq> or_id (U ! ?n)" by (metis image_eqI)
    then have "map (bumped fault (or_id (U ! ?n))) (drop (Suc ?n) U) = drop (Suc ?n) U" for fault
      by (intro map_idI) (auto simp: bumped_def)
    with False left st n show ?thesis by (simp add: Cons_nth_drop_Suc [symmetric])
  qed
  moreover have "drain cfg co tenant (Inr ()) fate (db, log) = (batch \<noteq> [], False, db', log @ map (\<lambda>r. messageOf co (toRow b r)) good)"
  proof -
    have "fetchRows (Inr ()) tenant (rc_Batch cfg) (rc_TraceColumns cfg) db = Inr ?rows"
      using assms(1-3) by (simp add: fetchRows_def assms(4,6))
    moreover have "good \<noteq> batch \<or> 0 < length ?rows \<longleftrightarrow> batch \<noteq> []" using in_batch(2) by auto
    ultimately show ?thesis using d(1) by (simp add: drain_def comp_def)
  qed
  ultimately show ?thesis by blast
qed

section \<open>A commit that comes late\<close>

definition sample_outbox_row :: "int \<Rightarrow> string \<Rightarrow> outbox_row" where
  "sample_outbox_row i event = \<lparr>or_id = i, or_event = event, or_tenant = ''acme'', or_subject = ''core.x'',
     or_payload = ''{}'', or_created = 0, or_traceparent = None, or_causation = None,
     or_published = None, or_attempts = 0\<rparr>"

definition fleetOf :: "outbox_row list \<Rightarrow> message list \<Rightarrow> replica \<Rightarrow> fleet" where
  "fleetOf rows log ph = \<lparr>fl_db = \<lparr>db_rows = rows, db_columns = True, db_processed = [], db_domain = ()\<rparr>,
     fl_log = log, fl_reps = (\<lambda>p. if p = 0 then ph else Idle)\<rparr>"

lemma fleetOf_simps [simp]:
  "fl_db (fleetOf rows log ph) = \<lparr>db_rows = rows, db_columns = True, db_processed = [], db_domain = ()\<rparr>"
  "fl_log (fleetOf rows log ph) = log" "fl_reps (fleetOf rows log ph) 0 = ph"
  "atRep (fleetOf rows log ph) 0 ph' = fleetOf rows log ph'"
  "(fleetOf rows log ph)\<lparr>fl_db := \<lparr>db_rows = rows', db_columns = True, db_processed = [], db_domain = ()\<rparr>\<rparr> = fleetOf rows' log ph"
  "(fleetOf rows log ph)\<lparr>fl_log := log'\<rparr> = fleetOf rows log' ph"
  by (auto simp: fleetOf_def atRep_def)

lemma fleet_starts: "fleetReach cfg co tenant (fleetOf [] [] Idle)"
proof -
  have "fleetOf [] [] Idle = fleet0" by (simp add: fleetOf_def fleet0_def)
  then show ?thesis by (simp add: fleetReach.start)
qed

lemma fleet_commits:
  "fleetReach cfg co tenant (fleetOf rows log ph) \<Longrightarrow>
     \<forall>r \<in> set rows. or_tenant r = tenant \<longrightarrow> or_id r \<noteq> or_id row \<and> or_event r \<noteq> or_event row \<Longrightarrow>
     or_tenant row = tenant \<Longrightarrow> or_published row = None \<Longrightarrow> fleetReach cfg co tenant (fleetOf (rows @ [row]) log ph)"
  using fleetReach.step [OF _ fstep.commit [of tenant "fleetOf rows log ph" row cfg co]]
  by (simp add: tenantRows_def)

lemma fleet_fetches:
  "fleetReach cfg co tenant (fleetOf rows log Idle) \<Longrightarrow>
     fetchRows (Inr ()) tenant (rc_Batch cfg) (rc_TraceColumns cfg) (fl_db (fleetOf rows log Idle)) = Inr batch \<Longrightarrow>
     fleetReach cfg co tenant (fleetOf rows log (AtPublish batch))"
  using fleetReach.step [OF _ fstep.fetch [of "fleetOf rows log Idle" 0 tenant cfg batch co]] by simp

lemma fleet_publishes:
  "fleetReach cfg co tenant (fleetOf rows log (AtPublish (row # batch))) \<Longrightarrow> publish co StoredAcked row log = (True, log') \<Longrightarrow>
     fleetReach cfg co tenant (fleetOf rows log' (AtMark row batch))"
  using fleetReach.step [OF _ fstep.publish [of "fleetOf rows log (AtPublish (row # batch))" 0 row batch co StoredAcked True log'
      "fl_db (fleetOf rows log Idle)" "Inr ()" tenant cfg]]
  by simp

lemma fleet_marks:
  "fleetReach cfg co tenant (fleetOf rows log (AtMark row batch)) \<Longrightarrow>
     MarkPublished (Inr now) tenant (rw_ID row) (fl_db (fleetOf rows log Idle)) = (Inr (), fl_db (fleetOf rows' log Idle)) \<Longrightarrow>
     fleetReach cfg co tenant (fleetOf rows' log (AtPublish batch))"
  using fleetReach.step [OF _ fstep.mark [of "fleetOf rows log (AtMark row batch)" 0 row batch "Inr now" tenant "Inr ()"
      "fl_db (fleetOf rows' log Idle)" cfg co]]
  by simp

lemma fleet_rests: "fleetReach cfg co tenant (fleetOf rows log ph) \<Longrightarrow> fleetReach cfg co tenant (fleetOf rows log Idle)"
  using fleetReach.step [OF _ fstep.stop [of cfg co tenant "fleetOf rows log ph" 0]] by simp

abbreviation sample_message :: "string \<Rightarrow> message" where
  "sample_message event \<equiv> \<lparr>ms_subject = ''core.x'', ms_data = ''{}'', ms_id = event\<rparr>"

lemma sample_publish:
  "publish sample_codecs StoredAcked (toRow False (sample_outbox_row i event)) log = (True, log @ [sample_message event])"
  by (simp add: publish_def envelopeFor_def sample_codecs_def sample_outbox_row_def toRow_def)

lemma one_delivered:
  assumes "publish co StoredAcked (toRow False (sample_outbox_row 2 ''e-2'')) [] = (True, log)"
  shows "fleetReach sample_relay_config co ''acme'' (fleetOf [(sample_outbox_row 2 ''e-2'')\<lparr>or_published := Some 5\<rparr>] log Idle)"
proof -
  let ?reach = "fleetReach sample_relay_config co ''acme''" and ?r = "sample_outbox_row 2 ''e-2''"
  have "?reach (fleetOf [?r] [] Idle)"
    using fleet_commits [OF fleet_starts [of sample_relay_config co "''acme''"], of ?r] by (simp add: sample_outbox_row_def)
  then have "?reach (fleetOf [?r] [] (AtPublish [toRow False ?r]))"
    by (rule fleet_fetches) (simp add: fetchRows_def unpublished_def sample_outbox_row_def sample_relay_config_def)
  then have "?reach (fleetOf [?r] log (AtMark (toRow False ?r) []))"
    by (rule fleet_publishes) (rule assms)
  then have "?reach (fleetOf [?r\<lparr>or_published := Some 5\<rparr>] log (AtPublish []))"
    by (rule fleet_marks [where now = 5]) (simp add: MarkPublished_def updateRows_def sample_outbox_row_def)
  then show ?thesis by (rule fleet_rests)
qed

lemma sample_delivered:
  "fleetReach sample_relay_config sample_codecs ''acme''
     (fleetOf [(sample_outbox_row 2 ''e-2'')\<lparr>or_published := Some 5\<rparr>] [sample_message ''e-2''] Idle)"
  by (rule one_delivered) (simp add: sample_publish)

text \<open>
  The ids are not the order of the commits. Two transactions overlap: the one that took the greater id
  commits first, and a relay that reads between the two commits delivers its event; the event with the
  smaller id is delivered after it.
\<close>

theorem a_late_commit_is_delivered_late:
  "\<exists>s. fleetReach sample_relay_config sample_codecs ''acme'' s
     \<and> map or_id (tenantRows ''acme'' (fl_db s)) = [2, 1] \<and> map ms_id (fl_log s) = [''e-2'', ''e-1'']"
proof -
  let ?reach = "fleetReach sample_relay_config sample_codecs ''acme''" and ?r = "sample_outbox_row 1 ''e-1''"
  let ?r2 = "(sample_outbox_row 2 ''e-2'')\<lparr>or_published := Some 5\<rparr>"
  have "?reach (fleetOf [?r2, ?r] [sample_message ''e-2''] Idle)"
    using fleet_commits [OF sample_delivered, of ?r] by (simp add: sample_outbox_row_def)
  then have "?reach (fleetOf [?r2, ?r] [sample_message ''e-2''] (AtPublish [toRow False ?r]))"
    by (rule fleet_fetches) (simp add: fetchRows_def unpublished_def sample_outbox_row_def sample_relay_config_def)
  then have "?reach (fleetOf [?r2, ?r] [sample_message ''e-2'', sample_message ''e-1''] (AtMark (toRow False ?r) []))"
    by (rule fleet_publishes) (simp add: sample_publish)
  then show ?thesis
    by (rule_tac x = "fleetOf [?r2, ?r] [sample_message ''e-2'', sample_message ''e-1''] (AtMark (toRow False ?r) [])" in exI)
      (simp add: tenantRows_def sample_outbox_row_def)
qed

section \<open>Witnesses\<close>

text \<open>One event delivered and marked, and another that has just committed.\<close>

theorem delivered_in_order_none_lost_witness:
  "\<exists>s. fleetReach sample_relay_config sample_codecs ''acme'' s \<and> length (tenantRows ''acme'' (fl_db s)) = 2
     \<and> (\<exists>m \<le> 2. firsts (fl_log s) = map (\<lambda>r. messageOf sample_codecs (toRow False r)) (take m (tenantRows ''acme'' (fl_db s))))
     \<and> fl_log s = [sample_message ''e-2'']"
proof -
  let ?r2 = "(sample_outbox_row 2 ''e-2'')\<lparr>or_published := Some 5\<rparr>" and ?r3 = "sample_outbox_row 3 ''e-3''"
  let ?s = "fleetOf [?r2, ?r3] [sample_message ''e-2''] Idle"
  have r: "fleetReach sample_relay_config sample_codecs ''acme'' ?s"
    using fleet_commits [OF sample_delivered, of ?r3] by (simp add: sample_outbox_row_def)
  have "tenantRows ''acme'' (fl_db ?s) = [?r2, ?r3]" by (simp add: tenantRows_def sample_outbox_row_def)
  with delivered_in_order_none_lost [OF r refl refl] r show ?thesis
    by (intro exI [of _ ?s]) (simp add: sample_relay_config_def sample_outbox_row_def numeral_2_eq_2)
qed

text \<open>Three events, the second of which has a cause that cannot be read.\<close>

definition poison_codecs :: codecs where
  "poison_codecs = sample_codecs\<lparr>co_parseCausation := (\<lambda>_. None)\<rparr>"

definition sample_outbox :: "nat tenant_db" where
  "sample_outbox = sample_db\<lparr>db_rows := [sample_outbox_row 1 ''e-1'',
     (sample_outbox_row 2 ''e-2'')\<lparr>or_causation := Some ''x''\<rparr>, sample_outbox_row 3 ''e-3'']\<rparr>"

theorem drain_delivers_up_to_the_poison_row_witness:
  "\<exists>db'. drain (sample_relay_config\<lparr>rc_TraceColumns := True, rc_Batch := 100\<rparr>) poison_codecs ''acme'' (Inr ())
       (\<lambda>_. \<lparr>rf_publish = StoredAcked, rf_mark = Inr 5, rf_bump = Inr ()\<rparr>) (sample_outbox, [])
     = (True, False, db', [sample_message ''e-1''])
     \<and> map (\<lambda>r. (or_id r, or_attempts r)) (unpublished ''acme'' db') = [(2, 1), (3, 0)]"
proof -
  let ?cfg = "sample_relay_config\<lparr>rc_TraceColumns := True, rc_Batch := 100\<rparr>"
  let ?f = "\<lambda>_ :: event_row. \<lparr>rf_publish = StoredAcked, rf_mark = Inr 5, rf_bump = Inr ()\<rparr>"
  let ?r2 = "(sample_outbox_row 2 ''e-2'')\<lparr>or_causation := Some ''x''\<rparr>"
  have u: "unpublished ''acme'' sample_outbox = [sample_outbox_row 1 ''e-1'', ?r2, sample_outbox_row 3 ''e-3'']"
    by (simp add: unpublished_def sample_outbox_def sample_outbox_row_def)
  have e: "envelopeFor poison_codecs (toRow True (sample_outbox_row i e)) = Some ''{}''"
    "envelopeFor poison_codecs (toRow True ?r2) = None" for i e
    by (simp_all add: envelopeFor_def poison_codecs_def sample_codecs_def toRow_def sample_outbox_row_def)
  have sub: "rc_Batch ?cfg = 100" "rc_TraceColumns ?cfg = True" "db_columns sample_outbox"
    by (simp_all add: sample_outbox_def sample_db_def)
  let ?r1 = "sample_outbox_row 1 ''e-1''" and ?r3 = "sample_outbox_row 3 ''e-3''"
  have "\<exists>db'. drain ?cfg poison_codecs ''acme'' (Inr ()) ?f (sample_outbox, []) =
       ([?r1, ?r2, ?r3] \<noteq> [], False, db', [] @ map (\<lambda>r. messageOf poison_codecs (toRow True r)) [?r1])
     \<and> unpublished ''acme'' db' = (if [?r1] = [?r1, ?r2, ?r3] then drop (length [?r1, ?r2, ?r3]) [?r1, ?r2, ?r3]
         else bumped (rf_bump (?f (toRow True ([?r1, ?r2, ?r3] ! length [?r1])))) (or_id ([?r1, ?r2, ?r3] ! length [?r1]))
           ([?r1, ?r2, ?r3] ! length [?r1]) # drop (Suc (length [?r1])) [?r1, ?r2, ?r3])"
  proof (rule drain_delivers_up_to_the_poison_row)
    show "distinct (map or_id [?r1, ?r2, ?r3])" by (simp add: sample_outbox_row_def)
    show "[?r1] = takeWhile (\<lambda>r. envelopeFor poison_codecs (toRow True r) \<noteq> None) [?r1, ?r2, ?r3]" by (simp add: e)
  qed (use u sub in simp_all)
  moreover have "messageOf poison_codecs (toRow True ?r1) = sample_message ''e-1''"
    by (simp add: messageOf_def e) (simp add: toRow_def sample_outbox_row_def)
  moreover have "bumped (Inr ()) 2 ?r2 = ?r2\<lparr>or_attempts := 1\<rparr>" "or_id ?r2 = 2" "or_attempts ?r3 = 0" "or_id ?r3 = 3"
    by (simp_all add: bumped_def sample_outbox_row_def)
  ultimately show ?thesis by auto
qed

end
