(* ===== verification/Decimal_Lib.thy ===== *)
theory Decimal_Lib
  imports Kit_Prelude Complex_Main
begin

text \<open>
  \<open>github.com/shopspring/decimal\<close> is third-party code: its operations are a record of functions every
  definition that computes with decimals takes, and what the kit relies on is the locale
  \<open>decimal_laws\<close>, the documented arithmetic over the exact value of a decimal. The last section is a
  decimal of coefficient and exponent that meets the laws, so they can be met.
\<close>

section \<open>The operations the kit uses\<close>

text \<open>
  \<open>dc_DivRound\<close> panics on a zero divisor, which is \<^term>\<open>None\<close>; so do \<open>dc_Div\<close> and \<open>dc_QuoRem\<close>.
\<close>

record 'd decimal_lib =
  dc_Add :: "'d \<Rightarrow> 'd \<Rightarrow> 'd"
  dc_Sub :: "'d \<Rightarrow> 'd \<Rightarrow> 'd"
  dc_Mul :: "'d \<Rightarrow> 'd \<Rightarrow> 'd"
  dc_Cmp :: "'d \<Rightarrow> 'd \<Rightarrow> int"
  dc_DivRound :: "'d \<Rightarrow> 'd \<Rightarrow> int \<Rightarrow> 'd option"
  dc_Div :: "'d \<Rightarrow> 'd \<Rightarrow> 'd option"
  dc_QuoRem :: "'d \<Rightarrow> 'd \<Rightarrow> int \<Rightarrow> ('d \<times> 'd) option"
  dc_Floor :: "'d \<Rightarrow> 'd"
  dc_IsInteger :: "'d \<Rightarrow> bool"
  dc_IntPart :: "'d \<Rightarrow> int"
  dc_NewFromInt :: "int \<Rightarrow> 'd"
  dc_NewFromString :: "string \<Rightarrow> 'd option"
  dc_String :: "'d \<Rightarrow> string"
  dc_NumDigits :: "'d \<Rightarrow> int"
  dc_Exponent :: "'d \<Rightarrow> int"

text \<open>The comparisons of the package, by its \<open>Cmp\<close>.\<close>

definition dLess :: "'d decimal_lib \<Rightarrow> 'd \<Rightarrow> 'd \<Rightarrow> bool" where
  "dLess D a b \<longleftrightarrow> dc_Cmp D a b < 0"

definition dLessEq :: "'d decimal_lib \<Rightarrow> 'd \<Rightarrow> 'd \<Rightarrow> bool" where
  "dLessEq D a b \<longleftrightarrow> dc_Cmp D a b \<le> 0"

definition dEqual :: "'d decimal_lib \<Rightarrow> 'd \<Rightarrow> 'd \<Rightarrow> bool" where
  "dEqual D a b \<longleftrightarrow> dc_Cmp D a b = 0"

definition dZero :: "'d decimal_lib \<Rightarrow> 'd" where
  "dZero D = dc_NewFromInt D 0"

definition IsNegative :: "'d decimal_lib \<Rightarrow> 'd \<Rightarrow> bool" where
  "IsNegative D a \<longleftrightarrow> dLess D a (dZero D)"

definition IsPositive :: "'d decimal_lib \<Rightarrow> 'd \<Rightarrow> bool" where
  "IsPositive D a \<longleftrightarrow> dLess D (dZero D) a"

definition IsZero :: "'d decimal_lib \<Rightarrow> 'd \<Rightarrow> bool" where
  "IsZero D a \<longleftrightarrow> dEqual D a (dZero D)"

lemmas decimal_cmp_defs = dLess_def dLessEq_def dEqual_def IsNegative_def IsPositive_def IsZero_def dZero_def

section \<open>Documented arithmetic\<close>

text \<open>Rounding to a multiple of \<open>10 ^ - p\<close>, halves away from zero; truncation.\<close>

definition roundAway :: "rat \<Rightarrow> int" where
  "roundAway x = (if 0 \<le> x then \<lfloor>x + 1 / 2\<rfloor> else - \<lfloor>- x + 1 / 2\<rfloor>)"

definition truncRat :: "rat \<Rightarrow> int" where
  "truncRat x = (if 0 \<le> x then \<lfloor>x\<rfloor> else \<lceil>x\<rceil>)"

definition DivisionPrecision :: nat where
  "DivisionPrecision = 16"

locale decimal_laws =
  fixes D :: "'d decimal_lib" and val :: "'d \<Rightarrow> rat"
  assumes val_Add: "val (dc_Add D a b) = val a + val b"
    and val_Sub: "val (dc_Sub D a b) = val a - val b"
    and val_Mul: "val (dc_Mul D a b) = val a * val b"
    and cmp_less: "dc_Cmp D a b < 0 \<longleftrightarrow> val a < val b"
    and cmp_equal: "dc_Cmp D a b = 0 \<longleftrightarrow> val a = val b"
    and DivRound_zero: "val b = 0 \<Longrightarrow> dc_DivRound D a b (int p) = None"
    and val_DivRound: "val b \<noteq> 0 \<Longrightarrow> \<exists>q. dc_DivRound D a b (int p) = Some q
          \<and> val q = of_int (roundAway (val a / val b * 10 ^ p)) / 10 ^ p"
    and Div_DivRound: "dc_Div D a b = dc_DivRound D a b (int DivisionPrecision)"
    and QuoRem_zero: "val b = 0 \<Longrightarrow> dc_QuoRem D a b 0 = None"
    and val_QuoRem: "val b \<noteq> 0 \<Longrightarrow> \<exists>q r. dc_QuoRem D a b 0 = Some (q, r)
          \<and> val q = of_int (truncRat (val a / val b)) \<and> val r = val a - val b * val q"
    and val_Floor: "val (dc_Floor D a) = of_int \<lfloor>val a\<rfloor>"
    and IsInteger_iff: "dc_IsInteger D a \<longleftrightarrow> val a \<in> \<int>"
    and val_IntPart: "- (2 ^ 63) \<le> truncRat (val a) \<Longrightarrow> truncRat (val a) < 2 ^ 63 \<Longrightarrow>
          dc_IntPart D a = truncRat (val a)"
    and val_NewFromInt: "val (dc_NewFromInt D i) = of_int i"
    and String_integers: "val a \<in> \<int> \<Longrightarrow> val b \<in> \<int> \<Longrightarrow> dc_String D a = dc_String D b \<longleftrightarrow> val a = val b"
begin

lemma val_cmp:
  "dLess D a b \<longleftrightarrow> val a < val b"
  "dLessEq D a b \<longleftrightarrow> val a \<le> val b"
  "dEqual D a b \<longleftrightarrow> val a = val b"
  "val (dZero D) = 0"
  "IsNegative D a \<longleftrightarrow> val a < 0"
  "IsPositive D a \<longleftrightarrow> 0 < val a"
  "IsZero D a \<longleftrightarrow> val a = 0"
  using cmp_less cmp_equal
  by (auto simp: decimal_cmp_defs val_NewFromInt order_le_less)

lemmas vals = val_Add val_Sub val_Mul val_Floor val_NewFromInt val_cmp

lemma DivRound_None: "dc_DivRound D a b (int p) = None \<longleftrightarrow> val b = 0"
  using DivRound_zero [of b a p] val_DivRound [of b a p] by (cases "val b = 0") auto

lemma DivRound_Some:
  "dc_DivRound D a b (int p) = Some q \<Longrightarrow> val b \<noteq> 0 \<and> val q = of_int (roundAway (val a / val b * 10 ^ p)) / 10 ^ p"
  using DivRound_zero [of b a p] val_DivRound [of b a p] by auto

end

section \<open>Rounding\<close>

lemma roundAway_int [simp]: "roundAway (of_int n) = n"
proof -
  have "\<lfloor>of_int n + 1 / 2 :: rat\<rfloor> = n" "\<lfloor>- of_int n + 1 / 2 :: rat\<rfloor> = - n" by linarith+
  then show ?thesis by (simp add: roundAway_def)
qed

lemma roundAway_error: "\<bar>of_int (roundAway x) - x\<bar> \<le> 1 / 2"
proof (cases "0 \<le> x")
  case True
  then show ?thesis unfolding roundAway_def by (simp only: if_True) linarith
next
  case False
  then show ?thesis unfolding roundAway_def by (simp only: if_False) linarith
qed

lemma roundAway_mono: "x \<le> y \<Longrightarrow> roundAway x \<le> roundAway y"
proof -
  assume xy: "x \<le> y"
  show ?thesis
  proof (cases "0 \<le> x")
    case True
    with xy show ?thesis by (auto simp: roundAway_def intro: floor_mono)
  next
    case False
    then have "- \<lfloor>- x + 1 / 2\<rfloor> \<le> 0" by linarith
    moreover have "0 \<le> y \<Longrightarrow> 0 \<le> \<lfloor>y + 1 / 2\<rfloor>" by linarith
    moreover have "\<lfloor>- y + 1 / 2\<rfloor> \<le> \<lfloor>- x + 1 / 2\<rfloor>" using xy by (intro floor_mono) simp
    ultimately show ?thesis using False by (cases "0 \<le> y") (simp_all only: roundAway_def if_True if_False, linarith)
  qed
qed

lemma truncRat_int [simp]: "truncRat (of_int n) = n"
  by (simp add: truncRat_def)

section \<open>Coefficient and exponent\<close>

text \<open>
  A decimal as its coefficient and exponent of ten, with every operation by integer arithmetic on
  them. It meets the laws, and the properties about decimals are evaluated on it.
\<close>

datatype dec = Dec (coef: int) (expo: int)

definition dvalue :: "dec \<Rightarrow> rat" where
  "dvalue d = of_int (coef d) * 10 powi expo d"

definition rescaled :: "dec \<Rightarrow> int \<Rightarrow> int" where
  "rescaled d e = coef d * 10 ^ nat (expo d - e)"

definition decAdd :: "dec \<Rightarrow> dec \<Rightarrow> dec" where
  "decAdd a b = (let e = min (expo a) (expo b) in Dec (rescaled a e + rescaled b e) e)"

definition decSub :: "dec \<Rightarrow> dec \<Rightarrow> dec" where
  "decSub a b = (let e = min (expo a) (expo b) in Dec (rescaled a e - rescaled b e) e)"

definition decMul :: "dec \<Rightarrow> dec \<Rightarrow> dec" where
  "decMul a b = Dec (coef a * coef b) (expo a + expo b)"

definition decCmp :: "dec \<Rightarrow> dec \<Rightarrow> int" where
  "decCmp a b = (let e = min (expo a) (expo b) in sgn (rescaled a e - rescaled b e))"

definition decDivRound :: "dec \<Rightarrow> dec \<Rightarrow> int \<Rightarrow> dec option" where
  "decDivRound a b p = (if coef b = 0 then None
     else Some (Dec (roundAway (dvalue a / dvalue b * 10 powi p)) (- p)))"

definition decQuoRem :: "dec \<Rightarrow> dec \<Rightarrow> int \<Rightarrow> (dec \<times> dec) option" where
  "decQuoRem a b p = (if coef b = 0 then None
     else let q = Dec (truncRat (dvalue a / dvalue b * 10 powi p)) (- p) in Some (q, decSub a (decMul b q)))"

definition decFloor :: "dec \<Rightarrow> dec" where
  "decFloor a = Dec \<lfloor>dvalue a\<rfloor> 0"

definition decIsInteger :: "dec \<Rightarrow> bool" where
  "decIsInteger a \<longleftrightarrow> of_int \<lfloor>dvalue a\<rfloor> = dvalue a"

definition decIntPart :: "dec \<Rightarrow> int" where
  "decIntPart a = (truncRat (dvalue a) + 2 ^ 63) mod 2 ^ 64 - 2 ^ 63"

definition showInt :: "int \<Rightarrow> string" where
  "showInt i = (if i < 0 then CHR ''-'' # itoa (nat (- i)) else itoa (nat i))"

definition decString :: "dec \<Rightarrow> string" where
  "decString a = (if decIsInteger a then showInt \<lfloor>dvalue a\<rfloor>
     else showInt (coef a) @ CHR ''e'' # showInt (expo a))"

text \<open>Reading optional sign, digits, and digits after a point.\<close>

definition isNumeral :: "string \<Rightarrow> bool" where
  "isNumeral s \<longleftrightarrow> s \<noteq> [] \<and> list_all (\<lambda>c. 48 \<le> byte c \<and> byte c \<le> 57) s"

definition decOfString :: "string \<Rightarrow> dec option" where
  "decOfString s =
     (let neg = (case s of c # _ \<Rightarrow> c = CHR ''-'' | [] \<Rightarrow> False);
          t = (if neg then tl s else s);
          sign = (if neg then - 1 else 1)
      in case splitOn CHR ''.'' t of
           [a] \<Rightarrow> if isNumeral a then Some (Dec (sign * int (atoi a)) 0) else None
         | [a, b] \<Rightarrow> if isNumeral a \<and> isNumeral b
                    then Some (Dec (sign * int (atoi (a @ b))) (- int (length b))) else None
         | _ \<Rightarrow> None)"

definition decLib :: "dec decimal_lib" where
  "decLib = \<lparr>dc_Add = decAdd, dc_Sub = decSub, dc_Mul = decMul, dc_Cmp = decCmp,
     dc_DivRound = decDivRound, dc_Div = (\<lambda>a b. decDivRound a b (int DivisionPrecision)),
     dc_QuoRem = decQuoRem, dc_Floor = decFloor, dc_IsInteger = decIsInteger, dc_IntPart = decIntPart,
     dc_NewFromInt = (\<lambda>i. Dec i 0), dc_NewFromString = decOfString, dc_String = decString,
     dc_NumDigits = (\<lambda>a. int (length (itoa (nat \<bar>coef a\<bar>)))), dc_Exponent = expo\<rparr>"

lemma rescaled_value: "e \<le> expo d \<Longrightarrow> of_int (rescaled d e) * 10 powi e = dvalue d"
proof -
  assume e: "e \<le> expo d"
  have "(10 :: rat) ^ nat (expo d - e) * 10 powi e = 10 powi (expo d - e) * 10 powi e"
    using e by (simp add: power_int_def)
  also have "\<dots> = 10 powi expo d" by (simp add: power_int_add [symmetric])
  finally show ?thesis by (simp add: rescaled_def dvalue_def mult.assoc)
qed

lemma dvalue_aligned:
  "dvalue (Dec (rescaled a (min (expo a) (expo b)) + rescaled b (min (expo a) (expo b))) (min (expo a) (expo b))) = dvalue a + dvalue b"
  "dvalue (Dec (rescaled a (min (expo a) (expo b)) - rescaled b (min (expo a) (expo b))) (min (expo a) (expo b))) = dvalue a - dvalue b"
  using rescaled_value [of "min (expo a) (expo b)" a] rescaled_value [of "min (expo a) (expo b)" b]
  by (simp_all add: dvalue_def [of "Dec _ _"] distrib_right left_diff_distrib)

lemma decCmp_value:
  "decCmp a b < 0 \<longleftrightarrow> dvalue a < dvalue b" "decCmp a b = 0 \<longleftrightarrow> dvalue a = dvalue b"
proof -
  let ?e = "min (expo a) (expo b)"
  have p: "(0 :: rat) < 10 powi ?e" by (simp add: zero_less_power_int)
  have v: "dvalue a = of_int (rescaled a ?e) * 10 powi ?e" "dvalue b = of_int (rescaled b ?e) * 10 powi ?e"
    by (simp_all add: rescaled_value)
  show "decCmp a b < 0 \<longleftrightarrow> dvalue a < dvalue b"
    unfolding v using p by (simp add: decCmp_def Let_def sgn_if)
  show "decCmp a b = 0 \<longleftrightarrow> dvalue a = dvalue b"
    unfolding v using p by (auto simp: decCmp_def Let_def sgn_if split: if_splits)
qed

lemma dvalue_int [simp]: "dvalue (Dec i 0) = of_int i"
  by (simp add: dvalue_def)

lemma dvalue_zero: "dvalue b = 0 \<longleftrightarrow> coef b = 0"
  by (simp add: dvalue_def)

lemma showInt_inject: "showInt i = showInt j \<longleftrightarrow> i = j"
proof -
  have no_minus: "itoa n \<noteq> CHR ''-'' # s" for n s
  proof
    assume e: "itoa n = CHR ''-'' # s"
    have "hd (itoa n) \<noteq> CHR ''-'' \<and> itoa n \<noteq> []"
    proof (induction n rule: itoa.induct)
      case (1 n)
      have "char_of (48 + n) \<noteq> CHR ''-''" if "n < 10"
      proof
        assume "char_of (48 + n) = CHR ''-''"
        then have "byte (char_of (48 + n)) = byte (CHR ''-'')" by simp
        with that show False by simp
      qed
      with 1 show ?case by (auto simp: itoa.simps [of n])
    qed
    with e show False by simp
  qed
  show ?thesis
    using no_minus no_minus [symmetric] by (auto simp: showInt_def eq_nat_nat_iff)
qed

interpretation dec: decimal_laws decLib dvalue
proof
  show "dvalue (dc_Add decLib a b) = dvalue a + dvalue b" for a b
    by (simp add: decLib_def decAdd_def Let_def dvalue_aligned)
  show "dvalue (dc_Sub decLib a b) = dvalue a - dvalue b" for a b
    by (simp add: decLib_def decSub_def Let_def dvalue_aligned)
  show "dvalue (dc_Mul decLib a b) = dvalue a * dvalue b" for a b
    by (simp add: decLib_def decMul_def dvalue_def power_int_add)
  show "dc_Cmp decLib a b < 0 \<longleftrightarrow> dvalue a < dvalue b" for a b
    by (simp add: decLib_def decCmp_value)
  show "dc_Cmp decLib a b = 0 \<longleftrightarrow> dvalue a = dvalue b" for a b
    by (simp add: decLib_def decCmp_value)
  show "dvalue b = 0 \<Longrightarrow> dc_DivRound decLib a b (int p) = None" for a b p
    by (simp add: decLib_def decDivRound_def dvalue_zero)
  show "dvalue b \<noteq> 0 \<Longrightarrow> \<exists>q. dc_DivRound decLib a b (int p) = Some q
      \<and> dvalue q = of_int (roundAway (dvalue a / dvalue b * 10 ^ p)) / 10 ^ p" for a b p
    by (simp add: decLib_def decDivRound_def dvalue_zero dvalue_def [of "Dec _ _"] power_int_minus divide_inverse)
  show "dc_Div decLib a b = dc_DivRound decLib a b (int DivisionPrecision)" for a b
    by (simp add: decLib_def)
  show "dvalue b = 0 \<Longrightarrow> dc_QuoRem decLib a b 0 = None" for a b
    by (simp add: decLib_def decQuoRem_def dvalue_zero)
  show "dvalue b \<noteq> 0 \<Longrightarrow> \<exists>q r. dc_QuoRem decLib a b 0 = Some (q, r)
      \<and> dvalue q = of_int (truncRat (dvalue a / dvalue b)) \<and> dvalue r = dvalue a - dvalue b * dvalue q" for a b
    by (simp add: decLib_def decQuoRem_def dvalue_zero decSub_def Let_def dvalue_aligned)
      (simp add: decMul_def dvalue_def power_int_add)
  show "dvalue (dc_Floor decLib a) = of_int \<lfloor>dvalue a\<rfloor>" for a
    by (simp add: decLib_def decFloor_def)
  show "dc_IsInteger decLib a \<longleftrightarrow> dvalue a \<in> \<int>" for a
    by (simp add: decLib_def decIsInteger_def) (metis Ints_cases Ints_of_int floor_of_int)
  show "- (2 ^ 63) \<le> truncRat (dvalue a) \<Longrightarrow> truncRat (dvalue a) < 2 ^ 63 \<Longrightarrow>
      dc_IntPart decLib a = truncRat (dvalue a)" for a
    by (simp add: decLib_def decIntPart_def)
  show "dvalue (dc_NewFromInt decLib i) = of_int i" for i
    by (simp add: decLib_def)
  show "dvalue a \<in> \<int> \<Longrightarrow> dvalue b \<in> \<int> \<Longrightarrow>
      dc_String decLib a = dc_String decLib b \<longleftrightarrow> dvalue a = dvalue b" for a b
    by (auto simp: decLib_def decString_def decIsInteger_def showInt_inject elim!: Ints_cases)
qed

end
