(* ===== verification/Hcm_Values.thy ===== *)
theory Hcm_Values
  imports Decimal_Lib
begin

text \<open>
  The bounds on user numbers (\<open>src/decimals/decimals.go\<close>) and how the HCM rules read coefficients and
  facts (\<open>src/hcmrules/values.go\<close>): every value that a formula needs is fetched by name, and a missing
  or malformed one is an error, never a default.
\<close>

section \<open>Limits\<close>

record limits =
  li_MaxDigits :: int
  li_MinExponent :: int

definition Money :: limits where "Money = \<lparr>li_MaxDigits = 15, li_MinExponent = - 6\<rparr>"
definition Factor :: limits where "Factor = \<lparr>li_MaxDigits = 15, li_MinExponent = - 12\<rparr>"

datatype number_error = NotANumber string string | TooManyDecimals string int | TooLarge string int

text \<open>\<open>NumDigits\<close> and \<open>Exponent\<close> are 32-bit; their sum is taken at the width of \<open>int\<close>.\<close>

definition CheckWith :: "'d decimal_lib \<Rightarrow> 'd \<Rightarrow> string \<Rightarrow> limits \<Rightarrow> number_error + unit" where
  "CheckWith D d field l =
     (if dc_Exponent D d < li_MinExponent l then Inl (TooManyDecimals field (- li_MinExponent l))
      else if dc_NumDigits D d + dc_Exponent D d > li_MaxDigits l then Inl (TooLarge field (li_MaxDigits l))
      else Inr ())"

definition CheckMoney :: "'d decimal_lib \<Rightarrow> 'd \<Rightarrow> string \<Rightarrow> number_error + unit" where
  "CheckMoney D d field = CheckWith D d field Money"

definition ParseWith :: "'d decimal_lib \<Rightarrow> string \<Rightarrow> string \<Rightarrow> limits \<Rightarrow> number_error + 'd" where
  "ParseWith D s field l = (case dc_NewFromString D s of
       None \<Rightarrow> Inl (NotANumber field s)
     | Some d \<Rightarrow> (case CheckWith D d field l of Inl err \<Rightarrow> Inl err | Inr _ \<Rightarrow> Inr d))"

definition ParseMoney :: "'d decimal_lib \<Rightarrow> string \<Rightarrow> string \<Rightarrow> number_error + 'd" where
  "ParseMoney D s field = ParseWith D s field Money"

section \<open>Values by name\<close>

datatype hcm_error =
    MissingValue string string
  | NotACount string string
  | NotAFlag string string
  | BadFact string string
  | UnknownKind string
  | NoTiers
  | NegativeBase
  | AfterBelowBefore
  | NoTierContains
  | NothingCovers string
  | DivisionByZero
  | IndexOutOfRange
  | DecodeFailed string
  | NotNumeric string
  | BadDate string
  | EndBeforeStart

type_synonym 'd value_map = "string \<rightharpoonup> 'd"

definition internalScale :: int where "internalScale = 16"
definition maxCount :: int where "maxCount = 100"

definition requireValue :: "'d value_map \<Rightarrow> string \<Rightarrow> string \<Rightarrow> hcm_error + 'd" where
  "requireValue vs key kind = (case vs key of None \<Rightarrow> Inl (MissingValue kind key) | Some v \<Rightarrow> Inr v)"

definition requireCount ::
    "'d decimal_lib \<Rightarrow> 'd value_map \<Rightarrow> string \<Rightarrow> string \<Rightarrow> int \<Rightarrow> hcm_error + nat" where
  "requireCount D vs key kind least = and_then (requireValue vs key kind) (\<lambda>v.
     if \<not> dc_IsInteger D v \<or> dLess D v (dc_NewFromInt D least) \<or> dLess D (dc_NewFromInt D maxCount) v
     then Inl (NotACount kind key)
     else Inr (nat (dc_IntPart D v)))"

definition flagValue :: "'d decimal_lib \<Rightarrow> 'd \<Rightarrow> string \<Rightarrow> string \<Rightarrow> hcm_error + bool" where
  "flagValue D v key kind =
     (if dEqual D v (dZero D) then Inr False
      else if dEqual D v (dc_NewFromInt D 1) then Inr True
      else Inl (NotAFlag kind key))"

definition requireFlag :: "'d decimal_lib \<Rightarrow> 'd value_map \<Rightarrow> string \<Rightarrow> string \<Rightarrow> hcm_error + bool" where
  "requireFlag D vs key kind = and_then (requireValue vs key kind) (\<lambda>v. flagValue D v key kind)"

definition optionalFlag :: "'d decimal_lib \<Rightarrow> 'd value_map \<Rightarrow> string \<Rightarrow> string \<Rightarrow> hcm_error + bool" where
  "optionalFlag D vs key kind = (case vs key of None \<Rightarrow> Inr False | Some v \<Rightarrow> flagValue D v key kind)"

text \<open>
  \<open>DecodeValues\<close>. The JSON decoder yields the fields of the first value of the input, \<open>null\<close> being no
  fields; the map is ranged over in some order, here that of the list.
\<close>

datatype json_value = JNumber string | JString string | JOther

definition fieldText :: "string \<times> json_value \<Rightarrow> hcm_error + string \<times> string" where
  "fieldText kv = (case snd kv of
       JNumber s \<Rightarrow> Inr (fst kv, s)
     | JString s \<Rightarrow> Inr (fst kv, s)
     | JOther \<Rightarrow> Inl (NotNumeric (fst kv)))"

definition DecodeValues ::
    "'d decimal_lib \<Rightarrow> (string \<Rightarrow> string + (string \<times> json_value) list) \<Rightarrow> string \<Rightarrow> hcm_error + 'd value_map" where
  "DecodeValues D decode raw =
     (if TrimSpace raw = [] then Inr Map.empty
      else (case decode raw of
          Inl e \<Rightarrow> Inl (DecodeFailed e)
        | Inr fs \<Rightarrow> and_then (mapE (\<lambda>kv. and_then (fieldText kv) (\<lambda>(key, text).
              case dc_NewFromString D text of None \<Rightarrow> Inl (NotNumeric key) | Some n \<Rightarrow> Inr (key, n))) fs)
            (\<lambda>kvs. Inr (map_of (rev kvs)))))"

section \<open>What the readers accept\<close>

lemma requireValue_Inr: "requireValue vs key kind = Inr v \<longleftrightarrow> vs key = Some v"
  by (auto simp: requireValue_def split: option.split)

context decimal_laws
begin

lemma requireCount_Inr:
  assumes "0 \<le> lo"
  shows "requireCount D vs key kind lo = Inr n \<longleftrightarrow>
     (\<exists>v. vs key = Some v \<and> val v = of_nat n \<and> lo \<le> int n \<and> n \<le> 100)"
proof
  assume "requireCount D vs key kind lo = Inr n"
  then obtain v where v: "vs key = Some v" "dc_IsInteger D v" "\<not> val v < of_int lo" "\<not> of_int 100 < val v"
    "n = nat (dc_IntPart D v)"
    by (auto simp: requireCount_def and_then_eq_Inr requireValue_Inr vals maxCount_def split: if_splits)
  from v(2) obtain i where i: "val v = of_int i" by (auto simp: IsInteger_iff elim: Ints_cases)
  with v(3,4) have "lo \<le> i" "i \<le> 100" by auto
  moreover from this i assms have "dc_IntPart D v = i" by (subst val_IntPart) auto
  ultimately show "\<exists>v. vs key = Some v \<and> val v = of_nat n \<and> lo \<le> int n \<and> n \<le> 100"
    using v(1,5) i assms by (intro exI [of _ v]) (auto simp: nat_le_iff)
next
  assume "\<exists>v. vs key = Some v \<and> val v = of_nat n \<and> lo \<le> int n \<and> n \<le> 100"
  then obtain v where v: "vs key = Some v" "val v = of_nat n" "lo \<le> int n" "n \<le> 100" by blast
  have t: "truncRat (val v) = int n" using v(2) truncRat_int [of "int n"] by simp
  then have "dc_IntPart D v = int n" using v(4) by (subst val_IntPart) auto
  moreover have "\<not> rat_of_nat n < of_int lo" using v(3) by (simp add: not_less)
  ultimately show "requireCount D vs key kind lo = Inr n"
    using v(1,2,4) by (simp add: requireCount_def requireValue_def IsInteger_iff vals maxCount_def)
qed

lemma flagValue_Inr: "flagValue D v key kind = Inr b \<longleftrightarrow> val v = (if b then 1 else 0)"
  by (auto simp: flagValue_def vals)

lemma requireFlag_Inr:
  "requireFlag D vs key kind = Inr b \<longleftrightarrow> (\<exists>v. vs key = Some v \<and> val v = (if b then 1 else 0))"
  by (auto simp: requireFlag_def and_then_eq_Inr requireValue_Inr flagValue_Inr)

end

text \<open>
  A count coefficient is read only when it is a whole number between the least count allowed and
  100, and then it is read exactly: no fraction, negative number or number that wraps at 64 bits is
  ever taken for a count.
\<close>

theorem requireCount_exact:
  assumes "decimal_laws D val" and "0 \<le> lo"
  shows "requireCount D vs key kind lo = Inr n \<longleftrightarrow>
     (\<exists>v. vs key = Some v \<and> val v = of_nat n \<and> lo \<le> int n \<and> n \<le> 100)"
  by (rule decimal_laws.requireCount_Inr [OF assms])

theorem requireCount_exact_witness:
  "requireCount decLib [''row_count'' \<mapsto> Dec 130 (- 1)] ''row_count'' ''cesantia_cr_art29'' 1 = Inr 13"
proof -
  have "dvalue (Dec 130 (- 1)) = of_nat 13" by (simp add: dvalue_def power_int_minus)
  with requireCount_exact [OF dec.decimal_laws_axioms, of 1 "[''row_count'' \<mapsto> Dec 130 (- 1)]" "''row_count''"
      "''cesantia_cr_art29''" 13]
  show ?thesis by auto
qed

end
