(* ===== verification/Hcm_Bracket.thy ===== *)
theory Hcm_Bracket
  imports Hcm_Values "HOL-Library.Multiset"
begin

text \<open>
  Progressive bracket tables (\<open>src/hcmrules/bracket.go\<close>): the marginal accumulation, the quick
  deduction it must agree with, and the increments of a month's payments.
\<close>

record 'd tier =
  ti_Seq :: int
  ti_LowerBound :: 'd
  ti_UpperBound :: "'d option"
  ti_Rate :: 'd
  ti_QuickDeduction :: 'd

definition sortedByLowerBound :: "'d decimal_lib \<Rightarrow> 'd tier list \<Rightarrow> 'd tier list" where
  "sortedByLowerBound D tiers = sortStable (\<lambda>a b. dLess D (ti_LowerBound a) (ti_LowerBound b)) tiers"

fun marginalFrom :: "'d decimal_lib \<Rightarrow> 'd \<Rightarrow> 'd \<Rightarrow> 'd tier list \<Rightarrow> 'd" where
  "marginalFrom D base acc [] = acc"
| "marginalFrom D base acc (t # ts) =
     (if dLessEq D base (ti_LowerBound t) then marginalFrom D base acc ts
      else
        let upper = (case ti_UpperBound t of
                       None \<Rightarrow> base
                     | Some u \<Rightarrow> if dLess D u base then u else base);
            portion = dc_Sub D upper (ti_LowerBound t)
        in marginalFrom D base (dc_Add D acc (dc_Mul D portion (ti_Rate t))) ts)"

definition evalBracketMarginal :: "'d decimal_lib \<Rightarrow> 'd tier list \<Rightarrow> 'd \<Rightarrow> 'd" where
  "evalBracketMarginal D tiers base = marginalFrom D base (dZero D) tiers"

fun evalBracketQuickDeduction :: "'d decimal_lib \<Rightarrow> 'd tier list \<Rightarrow> 'd \<Rightarrow> hcm_error + 'd" where
  "evalBracketQuickDeduction D [] base = Inl NoTierContains"
| "evalBracketQuickDeduction D (t # ts) base =
     (let inLower = dLessEq D (ti_LowerBound t) base;
          inUpper = (case ti_UpperBound t of None \<Rightarrow> True | Some u \<Rightarrow> dLessEq D base u)
      in if inLower \<and> inUpper
         then Inr (dc_Sub D (dc_Mul D base (ti_Rate t)) (ti_QuickDeduction t))
         else evalBracketQuickDeduction D ts base)"

definition EvalBracket :: "'d decimal_lib \<Rightarrow> 'd tier list \<Rightarrow> 'd \<Rightarrow> hcm_error + 'd" where
  "EvalBracket D tiers base =
     (if tiers = [] then Inl NoTiers
      else if IsNegative D base then Inl NegativeBase
      else Inr (evalBracketMarginal D (sortedByLowerBound D tiers) base))"

definition EvalBracketIncremental :: "'d decimal_lib \<Rightarrow> 'd tier list \<Rightarrow> 'd \<Rightarrow> 'd \<Rightarrow> hcm_error + 'd" where
  "EvalBracketIncremental D tiers before after =
     (if dLess D after before then Inl AfterBelowBefore
      else and_then (EvalBracket D tiers after) (\<lambda>hi.
           and_then (EvalBracket D tiers before) (\<lambda>lo. Inr (dc_Sub D hi lo))))"

section \<open>The tax of a table\<close>

text \<open>What one tier takes of a base, and the table's total, over exact values.\<close>

definition tierTax :: "('d \<Rightarrow> rat) \<Rightarrow> rat \<Rightarrow> 'd tier \<Rightarrow> rat" where
  "tierTax val base t =
     (if base \<le> val (ti_LowerBound t) then 0
      else ((case ti_UpperBound t of None \<Rightarrow> base | Some u \<Rightarrow> min (val u) base) - val (ti_LowerBound t))
           * val (ti_Rate t))"

definition tableTax :: "('d \<Rightarrow> rat) \<Rightarrow> 'd tier list \<Rightarrow> rat \<Rightarrow> rat" where
  "tableTax val tiers base = sum_list (map (tierTax val base) tiers)"

context decimal_laws
begin

lemma marginalFrom_val: "val (marginalFrom D base acc tiers) = val acc + tableTax val tiers (val base)"
  by (induction tiers arbitrary: acc)
    (auto simp: tableTax_def tierTax_def Let_def vals min_def split: option.split)

lemma sortedByLowerBound_key:
  "sortedByLowerBound D tiers = sort_key (\<lambda>t. val (ti_LowerBound t)) tiers"
  unfolding sortedByLowerBound_def by (rule sortStable_key) (simp add: vals)

lemma tableTax_sorted: "tableTax val (sortedByLowerBound D tiers) base = tableTax val tiers base"
proof -
  have "mset (map (tierTax val base) (sortedByLowerBound D tiers)) = mset (map (tierTax val base) tiers)"
    by (simp add: sortedByLowerBound_key)
  then show ?thesis unfolding tableTax_def by (metis sum_mset_sum_list)
qed

lemma EvalBracket_Inr:
  "EvalBracket D tiers base = Inr r \<Longrightarrow> tiers \<noteq> [] \<and> 0 \<le> val base \<and> val r = tableTax val tiers (val base)"
  by (auto simp: EvalBracket_def evalBracketMarginal_def marginalFrom_val tableTax_sorted vals split: if_splits)

lemma EvalBracket_total: "tiers \<noteq> [] \<Longrightarrow> 0 \<le> val base \<Longrightarrow> \<exists>r. EvalBracket D tiers base = Inr r"
  by (auto simp: EvalBracket_def vals)

end

text \<open>
  A table published with quick deductions is well formed: each tier ends where the next begins, and
  each deduction is what makes the shortcut continuous.
\<close>

fun chained :: "('d \<Rightarrow> rat) \<Rightarrow> 'd tier list \<Rightarrow> bool" where
  "chained val (t # t' # ts) \<longleftrightarrow>
     map_option val (ti_UpperBound t) = Some (val (ti_LowerBound t'))
     \<and> val (ti_LowerBound t) < val (ti_LowerBound t')
     \<and> val (ti_QuickDeduction t') = val (ti_QuickDeduction t) + val (ti_LowerBound t') * (val (ti_Rate t') - val (ti_Rate t))
     \<and> chained val (t' # ts)"
| "chained val ts = True"

definition wellFormed :: "('d \<Rightarrow> rat) \<Rightarrow> 'd tier list \<Rightarrow> bool" where
  "wellFormed val ts \<longleftrightarrow> chained val ts
     \<and> (case ts of [] \<Rightarrow> True | t # _ \<Rightarrow> val (ti_QuickDeduction t) = val (ti_LowerBound t) * val (ti_Rate t))"

lemma chained_above:
  "chained val (t # ts) \<Longrightarrow> t' \<in> set ts \<Longrightarrow> val (ti_LowerBound t) < val (ti_LowerBound t')
     \<and> (\<exists>u. ti_UpperBound t = Some u \<and> val u \<le> val (ti_LowerBound t'))"
proof (induction ts arbitrary: t)
  case (Cons s ts)
  then show ?case by (cases "t' = s") (auto dest!: Cons.IH)
qed simp

lemma chained_sorted: "chained val ts \<Longrightarrow> sorted (map (\<lambda>t. val (ti_LowerBound t)) ts)"
proof (induction ts)
  case (Cons t ts)
  then have "chained val ts" by (cases ts) auto
  with Cons chained_above [OF Cons.prems] show ?case by (auto intro: less_imp_le)
qed simp

lemma tableTax_below:
  "(\<And>t. t \<in> set ts \<Longrightarrow> base \<le> val (ti_LowerBound t)) \<Longrightarrow> tableTax val ts base = 0"
  by (induction ts) (auto simp: tableTax_def tierTax_def)

context decimal_laws
begin

lemma quick_none:
  "(\<And>t. t \<in> set ts \<Longrightarrow> val base < val (ti_LowerBound t)) \<Longrightarrow> evalBracketQuickDeduction D ts base = Inl NoTierContains"
proof (induction ts)
  case (Cons t ts)
  then have "\<not> val (ti_LowerBound t) \<le> val base" using Cons.prems [of t] by (simp add: not_le)
  with Cons show ?case by (simp add: vals)
qed simp

lemma quick_chained:
  assumes "chained val (t # ts)" and "val (ti_LowerBound t) \<le> val base"
    and "evalBracketQuickDeduction D (t # ts) base = Inr q"
  shows "val q = tableTax val (t # ts) (val base) + (val (ti_LowerBound t) * val (ti_Rate t) - val (ti_QuickDeduction t))"
  using assms
proof (induction ts arbitrary: t)
  case Nil
  then show ?case
    by (auto simp: tableTax_def tierTax_def Let_def vals min_def algebra_simps split: if_splits option.splits)
next
  case (Cons s ts)
  obtain u where u: "ti_UpperBound t = Some u" "val u = val (ti_LowerBound s)" using Cons.prems(1) by auto
  show ?case
  proof (cases "val base \<le> val u")
    case True
    then have "val q = val base * val (ti_Rate t) - val (ti_QuickDeduction t)"
      using Cons.prems(2,3) u by (auto simp: Let_def vals)
    moreover have "tableTax val (s # ts) (val base) = 0"
      using True chained_above [OF Cons.prems(1)] u by (intro tableTax_below) fastforce
    ultimately show ?thesis
      using True Cons.prems(2) u(1) by (auto simp: tableTax_def tierTax_def min_def algebra_simps)
  next
    case False
    then have "evalBracketQuickDeduction D (s # ts) base = Inr q"
      using Cons.prems(3) u by (simp add: Let_def vals)
    with Cons.IH [of s] Cons.prems(1) False u(2)
    have "val q = tableTax val (s # ts) (val base) + (val (ti_LowerBound s) * val (ti_Rate s) - val (ti_QuickDeduction s))"
      by simp
    moreover have "tierTax val (val base) t = (val (ti_LowerBound s) - val (ti_LowerBound t)) * val (ti_Rate t)"
      using False u Cons.prems(1,2) by (auto simp: tierTax_def min_def)
    ultimately show ?thesis using Cons.prems(1) by (simp add: tableTax_def algebra_simps)
  qed
qed

end

text \<open>
  C24. The two algorithms for a progressive table agree: on a well-formed table, given in any order,
  whenever the published quick deduction answers for a base, the marginal accumulation answers the
  same amount.
\<close>

theorem marginal_equals_quick_deduction:
  assumes "decimal_laws D val" and "wellFormed val (sortedByLowerBound D tiers)"
    and "evalBracketQuickDeduction D (sortedByLowerBound D tiers) base = Inr q" and "0 \<le> val base"
  shows "\<exists>r. EvalBracket D tiers base = Inr r \<and> val r = val q"
proof -
  note laws = decimal_laws.EvalBracket_Inr [OF assms(1)] decimal_laws.EvalBracket_total [OF assms(1)]
    and quick = decimal_laws.quick_chained [OF assms(1)]
    and sortedTax = decimal_laws.tableTax_sorted [OF assms(1)]
  from assms(3) obtain t ts where s: "sortedByLowerBound D tiers = t # ts"
    by (cases "sortedByLowerBound D tiers") auto
  then have ne: "tiers \<noteq> []" by (auto simp: sortedByLowerBound_def sortStable_def)
  have low: "val (ti_LowerBound t) \<le> val base"
  proof (rule ccontr)
    assume "\<not> ?thesis"
    then have "val base < val (ti_LowerBound t')" if "t' \<in> set (t # ts)" for t'
      using chained_above [of val t ts t'] assms(2) s that by (fastforce simp: wellFormed_def)
    with decimal_laws.quick_none [OF assms(1), of "t # ts" base] assms(3) s show False by simp
  qed
  from quick [of t ts base q] low assms(2,3) s have "val q = tableTax val (t # ts) (val base)"
    by (simp add: wellFormed_def)
  moreover obtain r where "EvalBracket D tiers base = Inr r" using laws(2) [OF ne assms(4)] by blast
  ultimately show ?thesis using laws(1) sortedTax [of tiers "val base"] s by auto
qed

section \<open>Withholding over the payments of a month\<close>

fun withholdings :: "'d decimal_lib \<Rightarrow> 'd tier list \<Rightarrow> 'd \<Rightarrow> 'd list \<Rightarrow> hcm_error + 'd list" where
  "withholdings D tiers before [] = Inr []"
| "withholdings D tiers before (p # ps) =
     and_then (EvalBracketIncremental D tiers before (dc_Add D before p)) (\<lambda>x.
       and_then (withholdings D tiers (dc_Add D before p) ps) (\<lambda>xs. Inr (x # xs)))"

definition saneTier :: "('d \<Rightarrow> rat) \<Rightarrow> 'd tier \<Rightarrow> bool" where
  "saneTier val t \<longleftrightarrow> 0 \<le> val (ti_Rate t)
     \<and> (case ti_UpperBound t of None \<Rightarrow> True | Some u \<Rightarrow> val (ti_LowerBound t) \<le> val u)"

lemma tierTax_mono:
  assumes "saneTier val t" and "b \<le> b'"
  shows "tierTax val b t \<le> tierTax val b' t"
proof -
  have "(case ti_UpperBound t of None \<Rightarrow> b | Some u \<Rightarrow> min (val u) b) - val (ti_LowerBound t)
      \<le> (case ti_UpperBound t of None \<Rightarrow> b' | Some u \<Rightarrow> min (val u) b') - val (ti_LowerBound t)"
    using assms(2) by (auto split: option.split)
  moreover have "val (ti_LowerBound t) \<le> b' \<Longrightarrow>
      0 \<le> (case ti_UpperBound t of None \<Rightarrow> b' | Some u \<Rightarrow> min (val u) b') - val (ti_LowerBound t)"
    using assms(1) by (auto simp: saneTier_def split: option.splits)
  ultimately show ?thesis
    using assms by (auto simp: tierTax_def saneTier_def intro!: mult_right_mono mult_nonneg_nonneg)
qed

lemma tableTax_mono:
  "list_all (saneTier val) ts \<Longrightarrow> b \<le> b' \<Longrightarrow> tableTax val ts b \<le> tableTax val ts b'"
  unfolding tableTax_def by (intro sum_list_mono) (auto simp: list_all_iff intro: tierTax_mono)

context decimal_laws
begin

lemma EvalBracketIncremental_ok:
  assumes "tiers \<noteq> []" and "0 \<le> val before" and "val before \<le> val after"
  shows "\<exists>x. EvalBracketIncremental D tiers before after = Inr x
     \<and> val x = tableTax val tiers (val after) - tableTax val tiers (val before)"
proof -
  obtain hi lo where e: "EvalBracket D tiers after = Inr hi" "EvalBracket D tiers before = Inr lo"
    using EvalBracket_total [OF assms(1), of after] EvalBracket_total [OF assms(1), of before] assms(2,3) by auto
  with EvalBracket_Inr [OF e(1)] EvalBracket_Inr [OF e(2)] assms(3) show ?thesis
    by (simp add: EvalBracketIncremental_def vals)
qed

lemma withholdings_ok:
  assumes "tiers \<noteq> []" and "0 \<le> val before" and "\<forall>p \<in> set ps. 0 \<le> val p"
  shows "\<exists>xs. withholdings D tiers before ps = Inr xs
     \<and> sum_list (map val xs) = tableTax val tiers (val before + sum_list (map val ps)) - tableTax val tiers (val before)
     \<and> (list_all (saneTier val) tiers \<longrightarrow> (\<forall>x \<in> set xs. 0 \<le> val x))"
  using assms(2,3)
proof (induction ps arbitrary: before)
  case (Cons p ps)
  let ?after = "dc_Add D before p"
  have after: "val ?after = val before + val p" by (simp add: val_Add)
  obtain x where x: "EvalBracketIncremental D tiers before ?after = Inr x"
    "val x = tableTax val tiers (val ?after) - tableTax val tiers (val before)"
    using EvalBracketIncremental_ok [OF assms(1), of before ?after] Cons.prems after by auto
  moreover obtain xs where "withholdings D tiers ?after ps = Inr xs"
     "sum_list (map val xs) = tableTax val tiers (val ?after + sum_list (map val ps)) - tableTax val tiers (val ?after)"
     "list_all (saneTier val) tiers \<longrightarrow> (\<forall>x \<in> set xs. 0 \<le> val x)"
    using Cons.IH [of ?after] Cons.prems after by auto
  moreover have "list_all (saneTier val) tiers \<Longrightarrow> 0 \<le> val x"
    using tableTax_mono [of val tiers "val before" "val ?after"] Cons.prems after x(2) by simp
  ultimately show ?case by (auto simp: after add.assoc)
qed simp

end

text \<open>
  C25. The increments withheld on the payments of a month add up to the tax of the month: whatever
  the payments (none negative) and however the tiers are ordered, withholding on each one succeeds,
  the sum is the bracket of the month's total less the bracket of what was paid before, and on a table
  of non-negative rates and ordered bounds no single increment is negative.
\<close>

theorem withholdings_add_up:
  assumes "decimal_laws D val" and "tiers \<noteq> []" and "0 \<le> val before" and "\<forall>p \<in> set ps. 0 \<le> val p"
  shows "\<exists>xs hi lo. withholdings D tiers before ps = Inr xs
     \<and> EvalBracket D tiers (foldl (dc_Add D) before ps) = Inr hi \<and> EvalBracket D tiers before = Inr lo
     \<and> sum_list (map val xs) = val hi - val lo
     \<and> (list_all (saneTier val) tiers \<longrightarrow> list_all (\<lambda>x. 0 \<le> val x) xs)"
proof -
  have month: "val (foldl (dc_Add D) before ps) = val before + sum_list (map val ps)"
    by (induction ps arbitrary: before) (simp_all add: decimal_laws.val_Add [OF assms(1)] add.assoc)
  have "0 \<le> sum_list (map val ps)" using assms(4) by (induction ps) auto
  then obtain hi lo where e: "EvalBracket D tiers (foldl (dc_Add D) before ps) = Inr hi" "EvalBracket D tiers before = Inr lo"
    using decimal_laws.EvalBracket_total [OF assms(1,2)] assms(3) month by (metis add_nonneg_nonneg)
  from decimal_laws.EvalBracket_Inr [OF assms(1) e(1)] decimal_laws.EvalBracket_Inr [OF assms(1) e(2)]
    decimal_laws.withholdings_ok [OF assms] e month show ?thesis by (auto simp: list_all_iff)
qed

section \<open>Witnesses\<close>

definition sample_tiers :: "dec tier list" where
  "sample_tiers =
     [\<lparr>ti_Seq = 2, ti_LowerBound = Dec 1000 0, ti_UpperBound = None, ti_Rate = Dec 1 (- 1), ti_QuickDeduction = Dec 100 0\<rparr>,
      \<lparr>ti_Seq = 1, ti_LowerBound = Dec 0 0, ti_UpperBound = Some (Dec 1000 0), ti_Rate = Dec 0 0, ti_QuickDeduction = Dec 0 0\<rparr>]"

lemma sample_tiers_sorted: "sortedByLowerBound decLib sample_tiers = rev sample_tiers"
  by (simp add: sortedByLowerBound_def sortStable_def sample_tiers_def dec.vals)

theorem marginal_equals_quick_deduction_witness:
  "\<exists>r. EvalBracket decLib sample_tiers (Dec 1500 0) = Inr r \<and> dvalue r = 50"
proof -
  have "wellFormed dvalue (sortedByLowerBound decLib sample_tiers)"
    by (simp add: sample_tiers_sorted wellFormed_def) (simp add: sample_tiers_def dvalue_def power_int_minus)
  moreover have "evalBracketQuickDeduction decLib (sortedByLowerBound decLib sample_tiers) (Dec 1500 0)
      = Inr (dc_Sub decLib (dc_Mul decLib (Dec 1500 0) (Dec 1 (- 1))) (Dec 100 0))"
    unfolding sample_tiers_sorted by (simp add: sample_tiers_def dec.vals)
  ultimately obtain r where "EvalBracket decLib sample_tiers (Dec 1500 0) = Inr r"
    "dvalue r = dvalue (dc_Sub decLib (dc_Mul decLib (Dec 1500 0) (Dec 1 (- 1))) (Dec 100 0))"
    using marginal_equals_quick_deduction [OF dec.decimal_laws_axioms] by fastforce
  then show ?thesis by (simp add: dec.vals) (simp add: dvalue_def power_int_minus)
qed

theorem withholdings_add_up_witness:
  "\<exists>xs hi lo. withholdings decLib sample_tiers (Dec 800 0) [Dec 300 0, Dec 400 0] = Inr xs
     \<and> EvalBracket decLib sample_tiers (foldl (dc_Add decLib) (Dec 800 0) [Dec 300 0, Dec 400 0]) = Inr hi
     \<and> EvalBracket decLib sample_tiers (Dec 800 0) = Inr lo
     \<and> sum_list (map dvalue xs) = dvalue hi - dvalue lo"
  using withholdings_add_up [OF dec.decimal_laws_axioms, of sample_tiers "Dec 800 0" "[Dec 300 0, Dec 400 0]"]
  by (auto simp: sample_tiers_def)

end
