(* ===== verification/Hcm_Formula.thy ===== *)
theory Hcm_Formula
  imports Hcm_Values "HOL-Library.Multiset"
begin

text \<open>
  The formula kinds of the HCM rules engine (\<open>src/hcmrules/formula.go\<close>), one definition per registered
  function, and \<open>EvalFormula\<close>, the registry. A division by zero and an index out of
  range, which panic, are the errors \<open>DivisionByZero\<close> and \<open>IndexOutOfRange\<close>. Where the source ranges over a map the keys come in some order, an argument.
\<close>

section \<open>Step bands\<close>

record 'd step_band =
  sb_min :: 'd
  sb_exclusive :: bool
  sb_value :: 'd

definition metBy :: "'d decimal_lib \<Rightarrow> 'd step_band \<Rightarrow> 'd \<Rightarrow> bool" where
  "metBy D b x = (if sb_exclusive b then dLess D (sb_min b) x else dLessEq D (sb_min b) x)"

definition outranks :: "'d decimal_lib \<Rightarrow> 'd step_band \<Rightarrow> 'd step_band \<Rightarrow> bool" where
  "outranks D b best = (if dc_Cmp D (sb_min b) (sb_min best) \<noteq> 0 then dc_Cmp D (sb_min b) (sb_min best) > 0
     else sb_exclusive b \<and> \<not> sb_exclusive best)"

fun bestMet :: "'d decimal_lib \<Rightarrow> 'd \<Rightarrow> 'd step_band option \<Rightarrow> 'd step_band list \<Rightarrow> 'd step_band option" where
  "bestMet D x best [] = best"
| "bestMet D x best (b # bs) =
     bestMet D x (if metBy D b x \<and> (case best of None \<Rightarrow> True | Some o' \<Rightarrow> outranks D b o') then Some b else best) bs"

definition highestMet :: "'d decimal_lib \<Rightarrow> 'd step_band list \<Rightarrow> 'd \<Rightarrow> 'd option" where
  "highestMet D bands x = map_option sb_value (bestMet D x None bands)"

definition numbered :: "string \<Rightarrow> nat \<Rightarrow> string \<Rightarrow> string" where
  "numbered pre i suf = pre @ itoa i @ suf"

section \<open>Proportions and rates\<close>

definition divRound :: "'d decimal_lib \<Rightarrow> 'd \<Rightarrow> 'd \<Rightarrow> hcm_error + 'd" where
  "divRound D a b = (case dc_DivRound D a b internalScale of None \<Rightarrow> Inl DivisionByZero | Some q \<Rightarrow> Inr q)"

definition evalAguinaldoCR :: "'d decimal_lib \<Rightarrow> 'd value_map \<Rightarrow> 'd value_map \<Rightarrow> hcm_error + 'd" where
  "evalAguinaldoCR D cs ins =
     and_then (requireValue ins ''total_annual_salary'' ''aguinaldo_cr'') (\<lambda>salaries.
     and_then (requireValue cs ''divisor'' ''aguinaldo_cr'') (\<lambda>divisor.
       divRound D salaries divisor))"

definition evalThirteenthBR :: "'d decimal_lib \<Rightarrow> 'd value_map \<Rightarrow> 'd value_map \<Rightarrow> hcm_error + 'd" where
  "evalThirteenthBR D cs ins =
     and_then (requireValue ins ''monthly_salary'' ''thirteenth_br'') (\<lambda>monthlySalary.
     and_then (requireValue ins ''months_worked'' ''thirteenth_br'') (\<lambda>monthsWorked.
     and_then (requireValue cs ''divisor'' ''thirteenth_br'') (\<lambda>divisor.
     and_then (divRound D monthlySalary divisor) (\<lambda>q. Inr (dc_Mul D q monthsWorked)))))"

definition evalFGTSBR :: "'d decimal_lib \<Rightarrow> 'd value_map \<Rightarrow> 'd value_map \<Rightarrow> hcm_error + 'd" where
  "evalFGTSBR D cs ins =
     and_then (requireValue ins ''base'' ''fgts_br'') (\<lambda>base.
     and_then (requireValue cs ''rate'' ''fgts_br'') (\<lambda>rate. Inr (dc_Mul D base rate)))"

definition evalOvertime :: "'d decimal_lib \<Rightarrow> 'd value_map \<Rightarrow> 'd value_map \<Rightarrow> hcm_error + 'd" where
  "evalOvertime D cs ins =
     and_then (requireValue ins ''ordinary_hourly_rate'' ''overtime'') (\<lambda>hourlyRate.
     and_then (requireValue ins ''overtime_hours'' ''overtime'') (\<lambda>hours.
     and_then (requireValue cs ''multiplier'' ''overtime'') (\<lambda>multiplier.
       Inr (dc_Mul D (dc_Mul D hourlyRate multiplier) hours))))"

definition evalAvisoPrevioBR :: "'d decimal_lib \<Rightarrow> 'd value_map \<Rightarrow> 'd value_map \<Rightarrow> hcm_error + 'd" where
  "evalAvisoPrevioBR D cs ins =
     and_then (requireValue ins ''years_of_service'' ''aviso_previo_br'') (\<lambda>years.
     and_then (requireValue cs ''base_days'' ''aviso_previo_br'') (\<lambda>baseDays.
     and_then (requireValue cs ''per_year_days'' ''aviso_previo_br'') (\<lambda>perYearDays.
     and_then (requireValue cs ''cap_days'' ''aviso_previo_br'') (\<lambda>capDays.
       let days = dc_Add D baseDays (dc_Mul D perYearDays years)
       in Inr (if dLess D capDays days then capDays else days)))))"

definition vacationProportional ::
    "string \<Rightarrow> 'd decimal_lib \<Rightarrow> 'd value_map \<Rightarrow> 'd value_map \<Rightarrow> hcm_error + 'd" where
  "vacationProportional kind D cs ins =
     and_then (requireValue ins ''weeks_worked'' kind) (\<lambda>weeksWorked.
     and_then (requireValue cs ''entitlement_days'' kind) (\<lambda>entitlementDays.
     and_then (requireValue cs ''weeks_base'' kind) (\<lambda>weeksBase.
       if \<not> IsPositive D weeksBase then Inl (BadFact kind ''weeks_base'')
       else divRound D (dc_Mul D entitlementDays weeksWorked) weeksBase)))"

definition evalVacationPeriodVesting :: "'d decimal_lib \<Rightarrow> 'd value_map \<Rightarrow> 'd value_map \<Rightarrow> hcm_error + 'd" where
  "evalVacationPeriodVesting D cs ins =
     and_then (requireValue ins ''months_of_service'' ''vacation_period_vesting'') (\<lambda>months.
     and_then (requireValue cs ''days_per_period'' ''vacation_period_vesting'') (\<lambda>daysPerPeriod.
     and_then (requireValue cs ''period_months'' ''vacation_period_vesting'') (\<lambda>periodMonths.
       if \<not> IsPositive D periodMonths then Inl (BadFact ''vacation_period_vesting'' ''period_months'')
       else if IsNegative D months then Inl (BadFact ''vacation_period_vesting'' ''months_of_service'')
       else (case dc_Div D months periodMonths of
           None \<Rightarrow> Inl DivisionByZero
         | Some q \<Rightarrow> Inr (dc_Mul D daysPerPeriod (dc_Floor D q))))))"

text \<open>\<open>for _, v := range inputs\<close>, over the keys in the order of the range.\<close>

fun highestOf :: "'d decimal_lib \<Rightarrow> 'd option \<Rightarrow> 'd list \<Rightarrow> 'd option" where
  "highestOf D best [] = best"
| "highestOf D best (v # vs) =
     highestOf D (case best of None \<Rightarrow> Some v | Some h \<Rightarrow> if dLess D h v then Some v else Some h) vs"

definition evalMinWageHigherOfUS ::
    "string list \<Rightarrow> 'd decimal_lib \<Rightarrow> 'd value_map \<Rightarrow> 'd value_map \<Rightarrow> hcm_error + 'd" where
  "evalMinWageHigherOfUS order D cs ins =
     (case highestOf D None (List.map_filter ins order) of
        None \<Rightarrow> Inl (BadFact ''min_wage_higher_of_us'' ''inputs'')
      | Some v \<Rightarrow> Inr v)"

section \<open>Severance, notice and indemnity\<close>

text \<open>The loop of \<open>cesantia_cr\<close> over the bands \<open>i .. n\<close>; it stops at the first band above the years.\<close>

function cesantiaFrom ::
    "'d decimal_lib \<Rightarrow> 'd value_map \<Rightarrow> 'd \<Rightarrow> int \<Rightarrow> int \<Rightarrow> 'd \<Rightarrow> 'd \<Rightarrow> hcm_error + 'd" where
  "cesantiaFrom D cs years i n previousBound totalDays =
     (if i > n \<or> \<not> dLess D previousBound years then Inr totalDays
      else and_then (requireValue cs (numbered ''band'' (nat i) ''_upto_years'') ''cesantia_cr'') (\<lambda>upto.
           and_then (requireValue cs (numbered ''band'' (nat i) ''_days_per_year'') ''cesantia_cr'') (\<lambda>daysPerYear.
             let bandTop = (if dLess D years upto then years else upto);
                 span = dc_Sub D bandTop previousBound
             in cesantiaFrom D cs years (i + 1) n upto
                  (if IsPositive D span then dc_Add D totalDays (dc_Mul D span daysPerYear) else totalDays))))"
  by pat_completeness auto
termination
  by (relation "measure (\<lambda>(D, cs, years, i, n, p, t). nat (n + 1 - i))") auto

declare cesantiaFrom.simps [simp del]

definition evalCesantiaCR :: "'d decimal_lib \<Rightarrow> 'd value_map \<Rightarrow> 'd value_map \<Rightarrow> hcm_error + 'd" where
  "evalCesantiaCR D cs ins =
     and_then (requireValue ins ''years_of_service'' ''cesantia_cr'') (\<lambda>years.
     and_then (requireValue cs ''cap_years'' ''cesantia_cr'') (\<lambda>capYears.
     and_then (requireValue cs ''band_count'' ''cesantia_cr'') (\<lambda>bandCountValue.
       let effectiveYears = (if dLess D capYears years then capYears else years)
       in cesantiaFrom D cs effectiveYears 1 (dc_IntPart D bandCountValue) (dZero D) (dZero D))))"

definition preavisoBand :: "'d decimal_lib \<Rightarrow> 'd value_map \<Rightarrow> nat \<Rightarrow> hcm_error + 'd step_band" where
  "preavisoBand D cs i =
     and_then (requireValue cs (numbered ''band'' i ''_min_years'') ''preaviso_cr'') (\<lambda>minYears.
     and_then (requireValue cs (numbered ''band'' i ''_notice_days'') ''preaviso_cr'') (\<lambda>days.
     and_then (optionalFlag D cs (numbered ''band'' i ''_exclusive'') ''preaviso_cr'') (\<lambda>exclusive.
       Inr \<lparr>sb_min = minYears, sb_exclusive = exclusive, sb_value = days\<rparr>)))"

definition evalPreavisoCR :: "'d decimal_lib \<Rightarrow> 'd value_map \<Rightarrow> 'd value_map \<Rightarrow> hcm_error + 'd" where
  "evalPreavisoCR D cs ins =
     and_then (requireValue ins ''years_of_service'' ''preaviso_cr'') (\<lambda>years.
     and_then (requireCount D cs ''band_count'' ''preaviso_cr'' 0) (\<lambda>bandCount.
     and_then (mapE (preavisoBand D cs) [1..<bandCount + 1]) (\<lambda>bands.
       Inr (case highestMet D bands years of Some days \<Rightarrow> days | None \<Rightarrow> dZero D))))"

definition subYearBand :: "'d decimal_lib \<Rightarrow> 'd value_map \<Rightarrow> nat \<Rightarrow> hcm_error + 'd step_band" where
  "subYearBand D cs i =
     and_then (requireValue cs (numbered ''sub_year_band'' i ''_min_months'') ''cesantia_cr_art29'') (\<lambda>minMonths.
     and_then (requireFlag D cs (numbered ''sub_year_band'' i ''_inclusive'') ''cesantia_cr_art29'') (\<lambda>inclusive.
     and_then (requireValue cs (numbered ''sub_year_band'' i ''_days'') ''cesantia_cr_art29'') (\<lambda>days.
       Inr \<lparr>sb_min = minMonths, sb_exclusive = \<not> inclusive, sb_value = days\<rparr>)))"

text \<open>The coefficients of a row of article 29, all read before anything is computed.\<close>

record 'd art29 =
  a29_subYear :: "'d step_band list"
  a29_rows :: "'d list"
  a29_cap :: 'd
  a29_fraction :: "'d step_band"

definition readArt29 :: "'d decimal_lib \<Rightarrow> 'd value_map \<Rightarrow> hcm_error + 'd art29" where
  "readArt29 D cs =
     and_then (requireCount D cs ''sub_year_band_count'' ''cesantia_cr_art29'' 0) (\<lambda>subYearCount.
     and_then (mapE (subYearBand D cs) [1..<subYearCount + 1]) (\<lambda>subYear.
     and_then (requireCount D cs ''row_count'' ''cesantia_cr_art29'' 1) (\<lambda>rowCount.
     and_then (mapE (\<lambda>i. requireValue cs (numbered ''row'' i ''_days_per_year'') ''cesantia_cr_art29'')
                 [1..<rowCount + 1]) (\<lambda>rows.
     and_then (requireValue cs ''cap_years'' ''cesantia_cr_art29'') (\<lambda>capYears.
     and_then (guardE (IsPositive D capYears) (BadFact ''cesantia_cr_art29'' ''cap_years'')) (\<lambda>_.
     and_then (requireValue cs ''fraction_min_months'' ''cesantia_cr_art29'') (\<lambda>fractionMin.
     and_then (requireFlag D cs ''fraction_inclusive'' ''cesantia_cr_art29'') (\<lambda>fractionInclusive.
       Inr \<lparr>a29_subYear = subYear, a29_rows = rows, a29_cap = capYears,
            a29_fraction = \<lparr>sb_min = fractionMin, sb_exclusive = \<not> fractionInclusive, sb_value = dZero D\<rparr>\<rparr>))))))))"

definition owedArt29 :: "'d decimal_lib \<Rightarrow> 'd art29 \<Rightarrow> 'd \<Rightarrow> 'd \<Rightarrow> hcm_error + 'd" where
  "owedArt29 D a years months =
     (if IsZero D years then Inr (case highestMet D (a29_subYear a) months of Some days \<Rightarrow> days | None \<Rightarrow> dZero D)
      else
        let rowCount = int (length (a29_rows a));
            row = (if dLess D years (dc_NewFromInt D rowCount) then dc_IntPart D years else rowCount);
            counted = (if metBy D (a29_fraction a) months then dc_Add D years (dc_NewFromInt D 1) else years);
            capped = (if dLess D (a29_cap a) counted then a29_cap a else counted)
        in if 0 \<le> row - 1 \<and> row - 1 < rowCount then Inr (dc_Mul D (a29_rows a ! nat (row - 1)) capped)
           else Inl IndexOutOfRange)"

definition evalCesantiaCRArt29 :: "'d decimal_lib \<Rightarrow> 'd value_map \<Rightarrow> 'd value_map \<Rightarrow> hcm_error + 'd" where
  "evalCesantiaCRArt29 D cs ins =
     and_then (requireValue ins ''completed_years'' ''cesantia_cr_art29'') (\<lambda>years.
     and_then (guardE (dc_IsInteger D years \<and> \<not> IsNegative D years)
                 (BadFact ''cesantia_cr_art29'' ''completed_years'')) (\<lambda>_.
     and_then (requireValue ins ''remainder_months'' ''cesantia_cr_art29'') (\<lambda>months.
     and_then (guardE (\<not> IsNegative D months \<and> dLess D months (dc_NewFromInt D 12))
                 (BadFact ''cesantia_cr_art29'' ''remainder_months'')) (\<lambda>_.
     and_then (readArt29 D cs) (\<lambda>a. owedArt29 D a years months)))))"

definition evalFixedTermIndemnityCR :: "'d decimal_lib \<Rightarrow> 'd value_map \<Rightarrow> 'd value_map \<Rightarrow> hcm_error + 'd" where
  "evalFixedTermIndemnityCR D cs ins = (let kind = ''fixed_term_indemnity_cr'' in
     and_then (requireValue ins ''days_worked'' kind) (\<lambda>daysWorked.
     and_then (requireValue ins ''contract_months'' kind) (\<lambda>contractMonths.
     and_then (guardE (\<not> (IsNegative D daysWorked \<or> IsNegative D contractMonths)) (BadFact kind ''days_worked'')) (\<lambda>_.
     and_then (requireValue cs ''block_days'' kind) (\<lambda>blockDays.
     and_then (guardE (IsPositive D blockDays) (BadFact kind ''block_days'')) (\<lambda>_.
     and_then (requireValue cs ''days_per_block'' kind) (\<lambda>daysPerBlock.
     and_then (requireValue cs ''min_days'' kind) (\<lambda>minDays.
     and_then (requireValue cs ''min_days_long'' kind) (\<lambda>minDaysLong.
     and_then (requireValue cs ''long_contract_months'' kind) (\<lambda>longContractMonths.
     (case dc_QuoRem D daysWorked blockDays 0 of
        None \<Rightarrow> Inl DivisionByZero
      | Some (quo, rest) \<Rightarrow>
          let blocks = (if IsPositive D rest then dc_Add D quo (dc_NewFromInt D 1) else quo);
              owed = dc_Mul D blocks daysPerBlock;
              floor = (if dLessEq D longContractMonths contractMonths then minDaysLong else minDays)
          in Inr (if dLess D owed floor then floor else owed))))))))))))"

text \<open>\<open>seen\<close> holds the texts of the days read so far; two bands on one day are an error.\<close>

fun shareBands ::
    "'d decimal_lib \<Rightarrow> 'd value_map \<Rightarrow> string set \<Rightarrow> nat list \<Rightarrow> hcm_error + 'd step_band list" where
  "shareBands D cs seen [] = Inr []"
| "shareBands D cs seen (i # is) =
     and_then (requireValue cs (numbered ''band'' i ''_from_day'') ''absence_employer_share'') (\<lambda>fromDay.
     and_then (guardE (dc_IsInteger D fromDay \<and> \<not> dLess D fromDay (dc_NewFromInt D 1))
                 (BadFact ''absence_employer_share'' (numbered ''band'' i ''_from_day''))) (\<lambda>_.
     and_then (guardE (dc_String D fromDay \<notin> seen)
                 (BadFact ''absence_employer_share'' (dc_String D fromDay))) (\<lambda>_.
     and_then (requireValue cs (numbered ''band'' i ''_rate'') ''absence_employer_share'') (\<lambda>rate.
     and_then (shareBands D cs (insert (dc_String D fromDay) seen) is) (\<lambda>bands.
       Inr (\<lparr>sb_min = fromDay, sb_exclusive = False, sb_value = rate\<rparr> # bands))))))"

definition evalAbsenceEmployerShare :: "'d decimal_lib \<Rightarrow> 'd value_map \<Rightarrow> 'd value_map \<Rightarrow> hcm_error + 'd" where
  "evalAbsenceEmployerShare D cs ins =
     and_then (requireValue ins ''absence_day_index'' ''absence_employer_share'') (\<lambda>index.
     and_then (guardE (dc_IsInteger D index \<and> \<not> dLess D index (dc_NewFromInt D 1))
                 (BadFact ''absence_employer_share'' ''absence_day_index'')) (\<lambda>_.
     and_then (requireCount D cs ''band_count'' ''absence_employer_share'' 1) (\<lambda>bandCount.
     and_then (shareBands D cs {} [1..<bandCount + 1]) (\<lambda>bands.
       (case highestMet D bands index of
          None \<Rightarrow> Inl (NothingCovers ''absence_employer_share'')
        | Some rate \<Rightarrow> Inr rate)))))"

section \<open>The registry\<close>

definition formulaRegistry ::
    "string list \<Rightarrow> 'd decimal_lib \<Rightarrow> (string \<times> ('d value_map \<Rightarrow> 'd value_map \<Rightarrow> hcm_error + 'd)) list" where
  "formulaRegistry order D =
     [(''aguinaldo_cr'', evalAguinaldoCR D),
      (''thirteenth_br'', evalThirteenthBR D),
      (''cesantia_cr'', evalCesantiaCR D),
      (''cesantia_cr_art29'', evalCesantiaCRArt29 D),
      (''preaviso_cr'', evalPreavisoCR D),
      (''fixed_term_indemnity_cr'', evalFixedTermIndemnityCR D),
      (''absence_employer_share'', evalAbsenceEmployerShare D),
      (''aviso_previo_br'', evalAvisoPrevioBR D),
      (''fgts_br'', evalFGTSBR D),
      (''overtime'', evalOvertime D),
      (''min_wage_higher_of_us'', evalMinWageHigherOfUS order D),
      (''vacation_accrual_cr'', vacationProportional ''vacation_accrual_cr'' D),
      (''vacation_proportional'', vacationProportional ''vacation_proportional'' D),
      (''vacation_period_vesting'', evalVacationPeriodVesting D)]"

definition EvalFormula ::
    "string list \<Rightarrow> 'd decimal_lib \<Rightarrow> string \<Rightarrow> 'd value_map \<Rightarrow> 'd value_map \<Rightarrow> hcm_error + 'd" where
  "EvalFormula order D kind cs ins = (case map_of (formulaRegistry order D) kind of
       None \<Rightarrow> Inl (UnknownKind kind)
     | Some fn \<Rightarrow> fn cs ins)"

end
