(* ===== verification/Hcm_Laws.thy ===== *)
theory Hcm_Laws
  imports Hcm_Formula "HOL-Library.Product_Lexorder"
begin

text \<open>
  What the formulas of \<^theory_text>\<open>Hcm_Formula\<close> compute, over the exact values of the decimals: the step
  lookup, cesantia by article 29, the fixed-term indemnity, vesting, the highest wage floor, and where
  a formula can panic.
\<close>

section \<open>The highest band met\<close>

text \<open>The rank of a threshold: its value first, and being crossed strictly breaks a tie.\<close>

definition rank :: "('d \<Rightarrow> rat) \<Rightarrow> 'd step_band \<Rightarrow> rat \<times> bool" where
  "rank val b = (val (sb_min b), sb_exclusive b)"

definition met :: "('d \<Rightarrow> rat) \<Rightarrow> rat \<Rightarrow> 'd step_band \<Rightarrow> bool" where
  "met val x b \<longleftrightarrow> (if sb_exclusive b then val (sb_min b) < x else val (sb_min b) \<le> x)"

context decimal_laws
begin

lemma metBy_met: "metBy D b x = met val (val x) b"
  by (simp add: metBy_def met_def vals)

lemma outranks_rank: "outranks D b b' \<longleftrightarrow> rank val b' < rank val b"
  using cmp_less [of "sb_min b" "sb_min b'"] cmp_equal [of "sb_min b" "sb_min b'"]
  by (auto simp: outranks_def rank_def less_prod_def)

lemma bestMet_Some:
  "\<exists>m. bestMet D x (Some b0) bs = Some m \<and> rank val b0 \<le> rank val m
     \<and> (m = b0 \<or> (m \<in> set bs \<and> met val (val x) m))
     \<and> (\<forall>b \<in> set bs. met val (val x) b \<longrightarrow> rank val b \<le> rank val m)"
proof (induction bs arbitrary: b0)
  case (Cons b bs)
  show ?case
  proof (cases "met val (val x) b \<and> rank val b0 < rank val b")
    case True
    with Cons.IH [of b] show ?thesis by (fastforce simp: metBy_met outranks_rank)
  next
    case False
    with Cons.IH [of b0] show ?thesis by (fastforce simp: metBy_met outranks_rank not_less)
  qed
qed simp

lemma bestMet_None_spec:
  "(case bestMet D x None bs of
      None \<Rightarrow> \<forall>b \<in> set bs. \<not> met val (val x) b
    | Some m \<Rightarrow> m \<in> set bs \<and> met val (val x) m \<and> (\<forall>b \<in> set bs. met val (val x) b \<longrightarrow> rank val b \<le> rank val m))"
proof (induction bs)
  case (Cons b bs)
  show ?case
  proof (cases "met val (val x) b")
    case True
    with bestMet_Some [of x b bs] show ?thesis by (auto simp: metBy_met)
  next
    case False
    with Cons.IH show ?thesis by (auto simp: metBy_met split: option.splits)
  qed
qed simp

lemma highestMet_None: "highestMet D bands x = None \<longleftrightarrow> (\<forall>b \<in> set bands. \<not> met val (val x) b)"
  using bestMet_None_spec [where x = x and bs = bands] by (auto simp: highestMet_def split: option.splits)

lemma highestMet_Some:
  assumes "highestMet D bands x = Some v"
  shows "\<exists>m \<in> set bands. sb_value m = v \<and> met val (val x) m
     \<and> (\<forall>b \<in> set bands. met val (val x) b \<longrightarrow> rank val b \<le> rank val m)"
  using bestMet_None_spec [where x = x and bs = bands] assms by (auto simp: highestMet_def)

end

text \<open>
  A step lookup pays the single highest band reached, in whatever order the bands come: two
  tables with the same bands and no two thresholds of the same rank give the same answer, which is
  the value of the band that is met and outranks every other band that is met; nothing is answered
  exactly when no band is met.
\<close>

theorem highestMet_ignores_order:
  assumes "decimal_laws D val" and "set bands = set bands'"
    and "inj_on (rank val) (set bands)"
  shows "highestMet D bands x = highestMet D bands' x
     \<and> (highestMet D bands x = Some v \<longleftrightarrow>
          (\<exists>m \<in> set bands. sb_value m = v \<and> met val (val x) m
             \<and> {b \<in> set bands. met val (val x) b} \<subseteq> {b. b = m \<or> rank val b < rank val m}))"
proof -
  let ?top = "\<lambda>m. m \<in> set bands \<and> met val (val x) m
     \<and> (\<forall>b \<in> set bands. met val (val x) b \<longrightarrow> rank val b \<le> rank val m)"
  have below: "b = m \<or> rank val b < rank val m" if "?top m" "b \<in> set bands" "met val (val x) b" for m b
    using that inj_onD [OF assms(3), of b m] by (metis order_le_less)
  have unique: "m = m'" if "?top m" "?top m'" for m m'
    using inj_onD [OF assms(3), of m m'] that by (meson order_antisym)
  have spec: "highestMet D bs x = Some v \<longleftrightarrow> (\<exists>m. ?top m \<and> sb_value m = v)" if "set bs = set bands" for bs v
  proof
    assume "highestMet D bs x = Some v"
    from decimal_laws.highestMet_Some [OF assms(1) this] that show "\<exists>m. ?top m \<and> sb_value m = v" by auto
  next
    assume "\<exists>m. ?top m \<and> sb_value m = v"
    then obtain m where m: "?top m" "sb_value m = v" by blast
    then have "highestMet D bs x \<noteq> None" using decimal_laws.highestMet_None [OF assms(1)] that by auto
    then obtain w where w: "highestMet D bs x = Some w" by blast
    from decimal_laws.highestMet_Some [OF assms(1) w] that obtain m' where "?top m'" "sb_value m' = w" by auto
    with unique [OF m(1)] m(2) w show "highestMet D bs x = Some v" by auto
  qed
  have "highestMet D bands x = highestMet D bands' x"
    using spec [of bands] spec [of bands'] assms(2) by (metis not_Some_eq)
  moreover have "(\<exists>m. ?top m \<and> sb_value m = v) \<longleftrightarrow> (\<exists>m \<in> set bands. sb_value m = v \<and> met val (val x) m
             \<and> {b \<in> set bands. met val (val x) b} \<subseteq> {b. b = m \<or> rank val b < rank val m})"
  proof
    assume "\<exists>m. ?top m \<and> sb_value m = v"
    then obtain m where "?top m" "sb_value m = v" by blast
    with below [of m] show "\<exists>m \<in> set bands. sb_value m = v \<and> met val (val x) m
             \<and> {b \<in> set bands. met val (val x) b} \<subseteq> {b. b = m \<or> rank val b < rank val m}" by blast
  qed (auto intro: less_imp_le)
  ultimately show ?thesis using spec [of bands v] by simp
qed

section \<open>Cesantia by article 29\<close>

definition validTenure :: "'d decimal_lib \<Rightarrow> 'd value_map \<Rightarrow> bool" where
  "validTenure D ins \<longleftrightarrow> (\<exists>y m. ins ''completed_years'' = Some y \<and> ins ''remainder_months'' = Some m
     \<and> dc_IsInteger D y \<and> \<not> IsNegative D y \<and> \<not> IsNegative D m \<and> dLess D m (dc_NewFromInt D 12))"

lemma evalCesantiaCRArt29_Inr:
  "evalCesantiaCRArt29 D cs ins = Inr r \<longleftrightarrow> validTenure D ins
     \<and> (\<exists>a. readArt29 D cs = Inr a
          \<and> owedArt29 D a (the (ins ''completed_years'')) (the (ins ''remainder_months'')) = Inr r)"
  by (auto simp: evalCesantiaCRArt29_def validTenure_def and_then_eq_Inr requireValue_Inr guardE_Inr)

context decimal_laws
begin

lemma readArt29_Inr:
  assumes "readArt29 D cs = Inr a"
  shows "\<exists>rc cap fm fi. cs ''row_count'' = Some rc \<and> val rc = of_nat (length (a29_rows a))
     \<and> 1 \<le> length (a29_rows a) \<and> length (a29_rows a) \<le> 100
     \<and> (\<forall>i < length (a29_rows a). cs (numbered ''row'' (i + 1) ''_days_per_year'') = Some (a29_rows a ! i))
     \<and> cs ''cap_years'' = Some cap \<and> 0 < val cap \<and> a29_cap a = cap
     \<and> cs ''fraction_min_months'' = Some fm \<and> sb_min (a29_fraction a) = fm
     \<and> cs ''fraction_inclusive'' = Some fi \<and> val fi = (if sb_exclusive (a29_fraction a) then 0 else 1)"
proof -
  from assms obtain n rows cap fm fi where
    n: "requireCount D cs ''row_count'' ''cesantia_cr_art29'' 1 = Inr n"
    and rows: "mapE (\<lambda>i. requireValue cs (numbered ''row'' i ''_days_per_year'') ''cesantia_cr_art29'') [1..<n + 1] = Inr rows"
    and cap: "cs ''cap_years'' = Some cap" "IsPositive D cap"
    and fm: "cs ''fraction_min_months'' = Some fm"
    and fi: "requireFlag D cs ''fraction_inclusive'' ''cesantia_cr_art29'' = Inr fi"
    and a: "a29_rows a = rows" "a29_cap a = cap" "a29_fraction a = \<lparr>sb_min = fm, sb_exclusive = \<not> fi, sb_value = dZero D\<rparr>"
    by (auto simp: readArt29_def and_then_eq_Inr requireValue_Inr guardE_Inr)
  have len: "length rows = n"
    using list_all2_lengthD [OF rows [unfolded mapE_Inr]] by (simp del: upt_Suc)
  have at: "cs (numbered ''row'' (i + 1) ''_days_per_year'') = Some (rows ! i)" if "i < n" for i
    using list_all2_nthD [OF rows [unfolded mapE_Inr], of i] that
    by (simp add: requireValue_Inr del: upt_Suc)
  from requireCount_Inr [of 1 cs "''row_count''" "''cesantia_cr_art29''" n] n
  obtain rc where "cs ''row_count'' = Some rc" "val rc = of_nat n" "1 \<le> n" "n \<le> 100" by auto
  moreover from fi [unfolded requireFlag_Inr] obtain f where
    "cs ''fraction_inclusive'' = Some f" "val f = (if fi then 1 else 0)" by blast
  ultimately show ?thesis using len at cap fm a by (auto simp: vals)
qed

lemma owedArt29_years:
  assumes "val y = of_nat n" and "1 \<le> n" and "1 \<le> length (a29_rows a)" and "length (a29_rows a) \<le> 100"
  shows "\<exists>r. owedArt29 D a y m = Inr r \<and> val r = val (a29_rows a ! (min n (length (a29_rows a)) - 1))
     * min (val (a29_cap a)) (of_nat n + (if met val (val m) (a29_fraction a) then 1 else 0))"
proof -
  have "\<not> IsZero D y" using assms(1,2) by (simp add: vals)
  moreover have "n < length (a29_rows a) \<Longrightarrow> dc_IntPart D y = int n"
    using assms(1,4) truncRat_int [of "int n"] by (subst val_IntPart) auto
  moreover have "val y < of_int (int (length (a29_rows a))) \<longleftrightarrow> n < length (a29_rows a)"
    using assms(1) by simp
  ultimately show ?thesis
    using assms(2,3)
    by (auto simp: owedArt29_def Let_def metBy_met vals assms(1) min_def not_less nat_diff_distrib)
qed

end

text \<open>
  C26. Cesantia by article 29 pays what the article says. For \<open>n \<ge> 1\<close> completed years the answer is
  the days of the row of the completed years (the last row above its table; a fraction never moves
  the worker to another row) times the years counted, which are \<open>n\<close>, plus one when the remaining
  months reach the fraction, and at most the cap.
\<close>

theorem art29_pays_the_law:
  assumes "decimal_laws D val" and "EvalFormula order D ''cesantia_cr_art29'' cs ins = Inr r"
    and "ins ''completed_years'' = Some y" and "val y = of_nat n" and "1 \<le> n"
    and "ins ''remainder_months'' = Some m"
  shows "\<exists>rc days cap fm fi. cs ''row_count'' = Some rc
     \<and> cs (''row'' @ itoa (min n (nat \<lfloor>val rc\<rfloor>)) @ ''_days_per_year'') = Some days
     \<and> cs ''cap_years'' = Some cap \<and> cs ''fraction_min_months'' = Some fm \<and> cs ''fraction_inclusive'' = Some fi
     \<and> val r = val days * min (val cap)
         (of_nat n + (if val fm < val m \<or> (val fm = val m \<and> val fi = 1) then 1 else 0))"
proof -
  from assms(2) obtain a where a: "readArt29 D cs = Inr a" "owedArt29 D a y m = Inr r"
    using assms(3,6) evalCesantiaCRArt29_Inr [of D cs ins r]
    by (auto simp: EvalFormula_def formulaRegistry_def)
  from decimal_laws.readArt29_Inr [OF assms(1) a(1)] obtain rc cap fm fi where c:
    "cs ''row_count'' = Some rc" "val rc = of_nat (length (a29_rows a))"
    "1 \<le> length (a29_rows a)" "length (a29_rows a) \<le> 100"
    "\<forall>i < length (a29_rows a). cs (numbered ''row'' (i + 1) ''_days_per_year'') = Some (a29_rows a ! i)"
    "cs ''cap_years'' = Some cap" "a29_cap a = cap"
    "cs ''fraction_min_months'' = Some fm" "sb_min (a29_fraction a) = fm"
    "cs ''fraction_inclusive'' = Some fi" "val fi = (if sb_exclusive (a29_fraction a) then 0 else 1)" by blast
  let ?i = "min n (length (a29_rows a)) - 1"
  have "?i < length (a29_rows a)" "?i + 1 = min n (length (a29_rows a))" using c(3) assms(5) by auto
  with c(5) have "cs (numbered ''row'' (min n (length (a29_rows a))) ''_days_per_year'') = Some (a29_rows a ! ?i)"
    by metis
  moreover have "met val (val m) (a29_fraction a) \<longleftrightarrow> val fm < val m \<or> (val fm = val m \<and> val fi = 1)"
    using c(9,11) by (auto simp: met_def)
  ultimately show ?thesis
    using decimal_laws.owedArt29_years [OF assms(1,4,5) c(3,4), of m] a(2) c
    by (simp add: numbered_def)
qed

section \<open>The fixed-term indemnity\<close>

lemma blocks_ceiling:
  fixes d b :: rat
  assumes "0 \<le> d" and "0 < b"
  shows "(if 0 < d - b * of_int (truncRat (d / b)) then truncRat (d / b) + 1 else truncRat (d / b)) = \<lceil>d / b\<rceil>"
proof -
  let ?f = "\<lfloor>d / b\<rfloor>"
  have t: "truncRat (d / b) = ?f" using assms by (simp add: truncRat_def)
  have "0 < d - b * of_int ?f \<longleftrightarrow> of_int ?f < d / b"
    using assms(2) by (simp add: pos_less_divide_eq mult.commute)
  moreover have "of_int ?f < d / b \<or> d / b = of_int ?f"
    using of_int_floor_le [of "d / b"] by linarith
  ultimately show ?thesis unfolding t ceiling_altdef by auto
qed

text \<open>
  The indemnity of a fixed-term contract is one allotment per block of days or fraction of one,
  never below the floor of its length: the blocks are the exact ceiling of the quotient, not a rounded
  quotient, and whenever the formula answers, the answer is the larger of the two.
\<close>

theorem fixed_term_blocks_are_exact:
  assumes "decimal_laws D val" and "EvalFormula order D ''fixed_term_indemnity_cr'' cs ins = Inr r"
  shows "\<exists>d c b per low long months.
       ins ''days_worked'' = Some d \<and> ins ''contract_months'' = Some c \<and> cs ''block_days'' = Some b
     \<and> cs ''days_per_block'' = Some per \<and> cs ''min_days'' = Some low \<and> cs ''min_days_long'' = Some long
     \<and> cs ''long_contract_months'' = Some months \<and> 0 \<le> val d \<and> 0 < val b
     \<and> val r = max (of_int \<lceil>val d / val b\<rceil> * val per) (if val months \<le> val c then val long else val low)"
proof -
  note vals = decimal_laws.vals [OF assms(1)]
  from assms(2) obtain d c b per low long months where c:
    "ins ''days_worked'' = Some d" "ins ''contract_months'' = Some c" "cs ''block_days'' = Some b"
    "cs ''days_per_block'' = Some per" "cs ''min_days'' = Some low" "cs ''min_days_long'' = Some long"
    "cs ''long_contract_months'' = Some months" "0 \<le> val d" "0 < val b"
    and r: "(case dc_QuoRem D d b 0 of None \<Rightarrow> Inl DivisionByZero
      | Some (quo, rest) \<Rightarrow>
          let blocks = (if IsPositive D rest then dc_Add D quo (dc_NewFromInt D 1) else quo);
              owed = dc_Mul D blocks per;
              floor = (if dLessEq D months c then long else low)
          in Inr (if dLess D owed floor then floor else owed)) = (Inr r :: hcm_error + 'a)"
    by (auto simp: EvalFormula_def formulaRegistry_def evalFixedTermIndemnityCR_def Let_def
        and_then_eq_Inr requireValue_Inr guardE_Inr vals not_less)
  obtain q rest where q: "dc_QuoRem D d b 0 = Some (q, rest)" "val q = of_int (truncRat (val d / val b))"
    "val rest = val d - val b * val q"
    using decimal_laws.val_QuoRem [OF assms(1), of b d] c(9) by auto
  let ?blocks = "if IsPositive D rest then dc_Add D q (dc_NewFromInt D 1) else q"
  have blocks: "val ?blocks = of_int \<lceil>val d / val b\<rceil>"
    unfolding blocks_ceiling [OF c(8,9), symmetric] using q(2,3) by (simp add: vals)
  have "val r = max (val ?blocks * val per) (if val months \<le> val c then val long else val low)"
    using r q(1) by (simp only: option.case prod.case Let_def sum.inject)
      (auto simp: vals max_def)
  with c blocks show ?thesis by auto
qed

section \<open>Vesting by completed periods\<close>

context decimal_laws
begin

lemma Div_floor:
  assumes "val a = of_int m" and "val b = of_int p" and "0 < p" and "p \<le> 10 ^ 16"
  shows "\<exists>q. dc_Div D a b = Some q \<and> \<lfloor>val q\<rfloor> = m div p"
proof -
  let ?s = "10 ^ 16 :: rat" and ?x = "of_int m / of_int p :: rat"
  obtain q where q: "dc_Div D a b = Some q" "val q = of_int (roundAway (?x * ?s)) / ?s"
    using val_DivRound [of b a DivisionPrecision] assms by (auto simp: Div_DivRound DivisionPrecision_def)
  have low: "(m div p) * 10 ^ 16 \<le> roundAway (?x * ?s)"
  proof -
    have "rat_of_int (m div p) \<le> ?x" 
      using of_int_floor_le [of ?x] by (simp only: floor_divide_of_int_eq)
    then have "rat_of_int (m div p) * ?s \<le> ?x * ?s" by (rule mult_right_mono) simp
    then have "of_int ((m div p) * 10 ^ 16) \<le> ?x * ?s"
      by (simp only: of_int_mult of_int_power of_int_numeral)
    from roundAway_mono [OF this] show ?thesis by (simp only: roundAway_int)
  qed
  have up: "roundAway (?x * ?s) \<le> (m div p + 1) * 10 ^ 16 - 1"
  proof -
    have "m \<le> (m div p + 1) * p - 1"
    proof -
      have "m - m div p * p < p" unfolding minus_div_mult_eq_mod by (rule pos_mod_bound [OF assms(3)])
      then show ?thesis by (simp add: distrib_right)
    qed
    then have "rat_of_int m \<le> (of_int (m div p) + 1) * of_int p - 1" by (metis of_int_1 of_int_add of_int_diff of_int_le_iff of_int_mult)
    then have "?x \<le> ((of_int (m div p) + 1) * of_int p - 1) / of_int p"
      using assms(3) by (simp add: divide_right_mono)
    also have "\<dots> = of_int (m div p) + 1 - 1 / of_int p" using assms(3) by (simp add: diff_divide_distrib)
    finally have "?x * ?s \<le> (of_int (m div p) + 1 - 1 / of_int p) * ?s" by (rule mult_right_mono) simp
    also have "\<dots> = (of_int (m div p) + 1) * ?s - ?s / of_int p" by (simp add: algebra_simps)
    also have "\<dots> \<le> (of_int (m div p) + 1) * ?s - 1"
    proof -
      have "rat_of_int p \<le> ?s" using assms(4) by (metis of_int_le_iff of_int_numeral of_int_power)
      then show ?thesis using assms(3) by (simp add: pos_le_divide_eq)
    qed
    finally have "?x * ?s \<le> of_int ((m div p + 1) * 10 ^ 16 - 1)" by simp
    from roundAway_mono [OF this] show ?thesis by (simp only: roundAway_int)
  qed
  have "\<lfloor>val q\<rfloor> = m div p"
  proof (rule floor_unique)
    show "of_int (m div p) \<le> val q"
      using low unfolding q(2) by (simp add: pos_le_divide_eq)
    have "rat_of_int (roundAway (?x * ?s)) < (of_int (m div p) + 1) * ?s"
    proof -
      from up have "roundAway (?x * ?s) < (m div p + 1) * 10 ^ 16" by simp
      then have "rat_of_int (roundAway (?x * ?s)) < of_int ((m div p + 1) * 10 ^ 16)" by (simp only: of_int_less_iff)
      then show ?thesis by simp
    qed
    then show "val q < of_int (m div p) + 1" unfolding q(2) by (simp add: pos_divide_less_eq)
  qed
  with q(1) show ?thesis by blast
qed

end

text \<open>
  Vacation in whole blocks vests for completed periods only: for whole months and a whole period
  of at most \<open>10 ^ 16\<close> months, the days are those of \<open>months div period\<close> periods, although the
  quotient is rounded at 16 decimals before it is cut.
\<close>

theorem vesting_counts_completed_periods:
  assumes "decimal_laws D val" and "EvalFormula order D ''vacation_period_vesting'' cs ins = Inr r"
    and "ins ''months_of_service'' = Some a" and "val a = of_int m"
    and "cs ''period_months'' = Some b" and "val b = of_int p" and "p \<le> 10 ^ 16"
  shows "\<exists>days. cs ''days_per_period'' = Some days \<and> 0 \<le> m \<and> 0 < p \<and> val r = val days * of_int (m div p)"
proof -
  note vals = decimal_laws.vals [OF assms(1)]
  from assms(2,3,5) obtain days q where d: "cs ''days_per_period'' = Some days" "0 < val b" "0 \<le> val a"
    "dc_Div D a b = Some q" "r = dc_Mul D days (dc_Floor D q)"
    by (auto simp: EvalFormula_def formulaRegistry_def evalVacationPeriodVesting_def and_then_eq_Inr
        requireValue_Inr vals not_less split: if_splits option.splits)
  then have "0 < p" "0 \<le> m" using assms(4,6) by auto
  with decimal_laws.Div_floor [OF assms(1,4,6) this(1) assms(7)] d show ?thesis by (auto simp: vals)
qed

text \<open>
  The rounding shows beyond that: a fraction of a month short of a full period by less than half of
  the last decimal kept vests the period.
\<close>

lemma vesting_can_round_up:
  "\<exists>r. EvalFormula [] decLib ''vacation_period_vesting''
        [''days_per_period'' \<mapsto> Dec 30 0, ''period_months'' \<mapsto> Dec 12 0]
        [''months_of_service'' \<mapsto> Dec 1199999999999999999999 (- 20)] = Inr r
     \<and> dvalue (Dec 1199999999999999999999 (- 20)) < 12 \<and> dvalue r = 30"
proof -
  let ?a = "Dec 1199999999999999999999 (- 20)"
  have a: "dvalue ?a = 1199999999999999999999 / 10 ^ 20" by (simp add: dvalue_def power_int_minus)
  have q: "dc_Div decLib ?a (Dec 12 0) = Some (Dec (10 ^ 16) (- 16))"
  proof -
    have "roundAway (dvalue ?a / dvalue (Dec 12 0) * 10 powi int DivisionPrecision) = 10 ^ 16"
      unfolding a by (simp add: roundAway_def floor_eq_iff DivisionPrecision_def)
    then show ?thesis by (simp only: decLib_def decDivRound_def decimal_lib.select_convs)
        (simp add: DivisionPrecision_def)
  qed
  have "dvalue (Dec (10 ^ 16) (- 16)) = 1" by (simp add: dvalue_def power_int_minus)
  with q a show ?thesis
    by (simp add: EvalFormula_def formulaRegistry_def evalVacationPeriodVesting_def requireValue_def dec.vals)
qed

section \<open>Where a formula can panic\<close>

lemma requireValue_no_panic [simp]:
  "requireValue vs key kind \<noteq> Inl DivisionByZero" "requireValue vs key kind \<noteq> Inl IndexOutOfRange"
  by (simp_all add: requireValue_def split: option.split)

lemma requireCount_no_panic [simp]:
  "requireCount D vs key kind lo \<noteq> Inl DivisionByZero" "requireCount D vs key kind lo \<noteq> Inl IndexOutOfRange"
  by (auto simp: requireCount_def and_then_eq_Inl)

lemma flags_no_panic [simp]:
  "requireFlag D vs key kind \<noteq> Inl DivisionByZero" "optionalFlag D vs key kind \<noteq> Inl DivisionByZero"
  "requireFlag D vs key kind \<noteq> Inl IndexOutOfRange" "optionalFlag D vs key kind \<noteq> Inl IndexOutOfRange"
  by (auto simp: requireFlag_def optionalFlag_def flagValue_def and_then_eq_Inl split: option.splits if_splits)

lemma mapE_Inl: "mapE f xs = Inl e \<Longrightarrow> \<exists>x \<in> set xs. f x = Inl e"
  by (induction xs) (auto simp: and_then_eq_Inl)

lemma bands_no_panic [simp]:
  "mapE (preavisoBand D cs) is \<noteq> Inl DivisionByZero" "mapE (subYearBand D cs) is \<noteq> Inl DivisionByZero"
  "mapE (\<lambda>i. requireValue cs (f i) kind) is \<noteq> Inl DivisionByZero"
  "mapE (preavisoBand D cs) is \<noteq> Inl IndexOutOfRange" "mapE (subYearBand D cs) is \<noteq> Inl IndexOutOfRange"
  "mapE (\<lambda>i. requireValue cs (f i) kind) is \<noteq> Inl IndexOutOfRange"
  by (auto dest!: mapE_Inl simp: preavisoBand_def subYearBand_def and_then_eq_Inl)

lemma cesantiaFrom_errors:
  "e \<in> {DivisionByZero, IndexOutOfRange} \<Longrightarrow> cesantiaFrom D cs years i n p t \<noteq> Inl e"
  by (induction D cs years i n p t rule: cesantiaFrom.induct)
    (subst cesantiaFrom.simps, auto simp: and_then_eq_Inl Let_def)

lemmas cesantiaFrom_no_panic [simp] = cesantiaFrom_errors [of DivisionByZero, simplified]
  cesantiaFrom_errors [of IndexOutOfRange, simplified]

lemma shareBands_no_panic [simp]:
  "shareBands D cs seen is \<noteq> Inl DivisionByZero" "shareBands D cs seen is \<noteq> Inl IndexOutOfRange"
  by (induction D cs seen "is" rule: shareBands.induct) (auto simp: and_then_eq_Inl guardE_Inl)

lemma divRound_index [simp]: "divRound D a b \<noteq> Inl IndexOutOfRange"
  by (simp add: divRound_def split: option.split)

text \<open>The row of article 29 is always there: the years are whole and not zero, and there is a row.\<close>

lemma art29_row_exists: "decimal_laws D val \<Longrightarrow> evalCesantiaCRArt29 D cs ins \<noteq> Inl IndexOutOfRange"
proof
  assume laws: "decimal_laws D val" and "evalCesantiaCRArt29 D cs ins = Inl IndexOutOfRange"
  then obtain y m a where y: "dc_IsInteger D y" "\<not> IsNegative D y" and a: "readArt29 D cs = Inr a"
    and out: "owedArt29 D a y m = Inl IndexOutOfRange"
    by (auto simp: evalCesantiaCRArt29_def readArt29_def and_then_eq_Inl guardE_Inl guardE_Inr requireValue_Inr)
  note vals = decimal_laws.vals [OF laws]
  from y obtain k where k: "val y = of_int k" "0 \<le> k"
    by (auto simp: decimal_laws.IsInteger_iff [OF laws] vals not_less elim!: Ints_cases)
  have "k \<noteq> 0" using out k(1) by (auto simp: owedArt29_def vals)
  with k have n: "val y = of_nat (nat k)" "1 \<le> nat k" by simp_all
  from decimal_laws.readArt29_Inr [OF laws a] have "1 \<le> length (a29_rows a)" "length (a29_rows a) \<le> 100" by blast+
  from decimal_laws.owedArt29_years [OF laws n this, of m] out show False by simp
qed

lemma divRound_panics:
  "decimal_laws D val \<Longrightarrow> divRound D a b = Inl DivisionByZero \<longleftrightarrow> val b = 0"
  using decimal_laws.DivRound_None [of D val a b 16]
  by (auto simp: divRound_def internalScale_def split: option.split)

text \<open>
  C27. A formula divides by zero exactly where its divisor goes unchecked, and never indexes out of
  range. \<open>aguinaldo_cr\<close> and \<open>thirteenth_br\<close> divide by the coefficient \<open>divisor\<close> without looking at it: with
  the values they read before it present, they panic exactly when it is zero. No other kind, known or
  not, divides by zero on any table and any input, and no kind at all, article 29 with its rows
  included, reads a row that is not there.
\<close>

theorem only_unchecked_divisors_panic:
  assumes "decimal_laws D val"
  shows "(EvalFormula order D kind cs ins = Inl DivisionByZero \<longleftrightarrow>
     (\<exists>d. cs ''divisor'' = Some d \<and> val d = 0)
     \<and> ((kind = ''aguinaldo_cr'' \<and> ins ''total_annual_salary'' \<noteq> None)
      \<or> (kind = ''thirteenth_br'' \<and> ins ''monthly_salary'' \<noteq> None \<and> ins ''months_worked'' \<noteq> None)))
     \<and> EvalFormula order D kind cs ins \<noteq> Inl IndexOutOfRange"
proof -
  note vals = decimal_laws.vals [OF assms] and panics = divRound_panics [OF assms]
  have aguinaldo: "evalAguinaldoCR D cs ins = Inl DivisionByZero \<longleftrightarrow>
      (\<exists>d. cs ''divisor'' = Some d \<and> val d = 0) \<and> ins ''total_annual_salary'' \<noteq> None"
    by (auto simp: evalAguinaldoCR_def and_then_eq_Inl requireValue_Inr panics)
  have thirteenth: "evalThirteenthBR D cs ins = Inl DivisionByZero \<longleftrightarrow>
      (\<exists>d. cs ''divisor'' = Some d \<and> val d = 0) \<and> ins ''monthly_salary'' \<noteq> None \<and> ins ''months_worked'' \<noteq> None"
    by (auto simp: evalThirteenthBR_def and_then_eq_Inl requireValue_Inr panics)
  have plain: "evalFGTSBR D cs ins \<noteq> Inl DivisionByZero" "evalOvertime D cs ins \<noteq> Inl DivisionByZero"
    "evalAvisoPrevioBR D cs ins \<noteq> Inl DivisionByZero" "evalCesantiaCR D cs ins \<noteq> Inl DivisionByZero"
    "evalPreavisoCR D cs ins \<noteq> Inl DivisionByZero" "evalCesantiaCRArt29 D cs ins \<noteq> Inl DivisionByZero"
    by (auto simp: evalFGTSBR_def evalOvertime_def evalAvisoPrevioBR_def evalCesantiaCR_def evalPreavisoCR_def
        evalCesantiaCRArt29_def readArt29_def owedArt29_def and_then_eq_Inl guardE_Inl Let_def split: if_splits)
  have "evalAguinaldoCR D cs ins \<noteq> Inl IndexOutOfRange" "evalThirteenthBR D cs ins \<noteq> Inl IndexOutOfRange"
    "evalFGTSBR D cs ins \<noteq> Inl IndexOutOfRange" "evalOvertime D cs ins \<noteq> Inl IndexOutOfRange"
    "evalAvisoPrevioBR D cs ins \<noteq> Inl IndexOutOfRange" "evalCesantiaCR D cs ins \<noteq> Inl IndexOutOfRange"
    "evalPreavisoCR D cs ins \<noteq> Inl IndexOutOfRange"
    by (auto simp: evalAguinaldoCR_def evalThirteenthBR_def evalFGTSBR_def evalOvertime_def evalAvisoPrevioBR_def
        evalCesantiaCR_def evalPreavisoCR_def and_then_eq_Inl Let_def)
  moreover have "evalFixedTermIndemnityCR D cs ins \<noteq> Inl IndexOutOfRange" "evalAbsenceEmployerShare D cs ins \<noteq> Inl IndexOutOfRange"
    "evalMinWageHigherOfUS order D cs ins \<noteq> Inl IndexOutOfRange" "vacationProportional k D cs ins \<noteq> Inl IndexOutOfRange"
    "evalVacationPeriodVesting D cs ins \<noteq> Inl IndexOutOfRange" for k
    by (auto simp: evalFixedTermIndemnityCR_def evalAbsenceEmployerShare_def evalMinWageHigherOfUS_def vacationProportional_def
        evalVacationPeriodVesting_def and_then_eq_Inl guardE_Inl Let_def split: option.splits if_splits)
  ultimately have index: "EvalFormula order D kind cs ins \<noteq> Inl IndexOutOfRange"
    using art29_row_exists [OF assms, of cs ins] by (auto simp: EvalFormula_def formulaRegistry_def split: if_splits)
  have share: "evalAbsenceEmployerShare D cs ins \<noteq> Inl DivisionByZero" "evalMinWageHigherOfUS order D cs ins \<noteq> Inl DivisionByZero"
    by (auto simp: evalAbsenceEmployerShare_def evalMinWageHigherOfUS_def and_then_eq_Inl guardE_Inl split: option.splits)
  have checked: "vacationProportional k D cs ins \<noteq> Inl DivisionByZero" for k
    by (auto simp: vacationProportional_def and_then_eq_Inl panics vals split: if_splits)
  have vesting: "evalVacationPeriodVesting D cs ins \<noteq> Inl DivisionByZero"
    using decimal_laws.val_DivRound [OF assms]
    by (auto simp: evalVacationPeriodVesting_def and_then_eq_Inl vals decimal_laws.Div_DivRound [OF assms]
        decimal_laws.DivRound_None [OF assms] split: if_splits option.splits)
  have indemnity: "evalFixedTermIndemnityCR D cs ins \<noteq> Inl DivisionByZero"
  proof
    assume "evalFixedTermIndemnityCR D cs ins = Inl DivisionByZero"
    moreover have none: "(\<forall>x y. q \<noteq> Some (x, y)) \<longleftrightarrow> q = None" for q :: "('a \<times> 'a) option"
      by (cases q) auto
    ultimately obtain d b where "IsPositive D b" "dc_QuoRem D d b 0 = None"
      by (auto simp: none evalFixedTermIndemnityCR_def and_then_eq_Inl guardE_Inl guardE_Inr Let_def
          split: option.splits if_splits)
    with decimal_laws.val_QuoRem [OF assms, of b d] show False by (auto simp: vals)
  qed
  show ?thesis
    using plain share checked vesting indemnity index
    by (auto simp: EvalFormula_def formulaRegistry_def aguinaldo thirteenth split: if_splits)
qed

section \<open>The old cesantia table\<close>

lemma cesantiaFrom_band_count:
  "cesantiaFrom D (cs(''band_count'' \<mapsto> v)) years i n p t = cesantiaFrom D (cs(''band_count'' \<mapsto> w)) years i n p t"
proof (induction "nat (n + 1 - i)" arbitrary: i p t)
  case 0
  then show ?case by (subst (1 2) cesantiaFrom.simps) simp
next
  case (Suc k)
  have "numbered ''band'' j ''_upto_years'' \<noteq> ''band_count''" "numbered ''band'' j ''_days_per_year'' \<noteq> ''band_count''" for j
    by (auto simp: numbered_def dest!: arg_cong [of _ _ length])
  then have reads: "requireValue (cs(''band_count'' \<mapsto> v)) (numbered ''band'' j s) k' = requireValue (cs(''band_count'' \<mapsto> w)) (numbered ''band'' j s) k'"
    if "s \<in> {''_upto_years'', ''_days_per_year''}" for j s k'
    using that by (auto simp: requireValue_def)
  have IH: "cesantiaFrom D (cs(''band_count'' \<mapsto> v)) years (i + 1) n p' t' = cesantiaFrom D (cs(''band_count'' \<mapsto> w)) years (i + 1) n p' t'" for p' t'
    using Suc by simp
  show ?case
    by (subst (1 2) cesantiaFrom.simps) (simp add: reads IH Let_def cong: and_then_cong)
qed

text \<open>
  \<open>cesantia_cr\<close> reads its count of bands by its integer part: a count of two and a half is taken for
  two, where every other kind refuses it.
\<close>

lemma cesantia_cr_truncates_the_count:
  "EvalFormula order decLib ''cesantia_cr'' (cs(''band_count'' \<mapsto> Dec 25 (- 1))) ins
     = EvalFormula order decLib ''cesantia_cr'' (cs(''band_count'' \<mapsto> Dec 2 0)) ins"
proof -
  have "dc_IntPart decLib (Dec 25 (- 1)) = 2" "dc_IntPart decLib (Dec 2 0) = 2"
    by (simp_all add: decLib_def decIntPart_def truncRat_def dvalue_def power_int_minus floor_eq_iff)
  moreover have "requireValue (cs(''band_count'' \<mapsto> v)) ''cap_years'' k = requireValue cs ''cap_years'' k" for v k
    by (simp add: requireValue_def)
  ultimately show ?thesis
    using cesantiaFrom_band_count [of decLib cs "Dec 25 (- 1)" _ _ _ _ _ "Dec 2 0"]
    by (simp add: EvalFormula_def formulaRegistry_def evalCesantiaCR_def requireValue_def)
qed

section \<open>Witnesses\<close>

theorem highestMet_ignores_order_witness:
  "highestMet decLib [\<lparr>sb_min = Dec 1 0, sb_exclusive = False, sb_value = Dec 30 0\<rparr>,
       \<lparr>sb_min = Dec 5 (- 1), sb_exclusive = True, sb_value = Dec 15 0\<rparr>] (Dec 2 0)
   = highestMet decLib [\<lparr>sb_min = Dec 5 (- 1), sb_exclusive = True, sb_value = Dec 15 0\<rparr>,
       \<lparr>sb_min = Dec 1 0, sb_exclusive = False, sb_value = Dec 30 0\<rparr>] (Dec 2 0)"
  by (rule highestMet_ignores_order [OF dec.decimal_laws_axioms, THEN conjunct1]) (auto simp: rank_def)

definition sample_art29 :: "dec value_map" where
  "sample_art29 = [''sub_year_band_count'' \<mapsto> Dec 0 0, ''row_count'' \<mapsto> Dec 2 0,
     ''row1_days_per_year'' \<mapsto> Dec 195 (- 1), ''row2_days_per_year'' \<mapsto> Dec 20 0, ''cap_years'' \<mapsto> Dec 8 0,
     ''fraction_min_months'' \<mapsto> Dec 6 0, ''fraction_inclusive'' \<mapsto> Dec 1 0]"

definition sample_tenure :: "dec value_map" where
  "sample_tenure = [''completed_years'' \<mapsto> Dec 1 0, ''remainder_months'' \<mapsto> Dec 8 0]"

lemma dec_requireCount:
  "vs key = Some (Dec (int n) 0) \<Longrightarrow> 0 \<le> lo \<Longrightarrow> lo \<le> int n \<Longrightarrow> n \<le> 100 \<Longrightarrow> requireCount decLib vs key kind lo = Inr n"
  by (simp add: dec.requireCount_Inr)

lemma sample_art29_reads:
  "readArt29 decLib sample_art29 = Inr \<lparr>a29_subYear = [], a29_rows = [Dec 195 (- 1), Dec 20 0], a29_cap = Dec 8 0,
     a29_fraction = \<lparr>sb_min = Dec 6 0, sb_exclusive = False, sb_value = dZero decLib\<rparr>\<rparr>"
proof -
  have "requireCount decLib sample_art29 ''row_count'' ''cesantia_cr_art29'' 1 = Inr 2"
    "requireCount decLib sample_art29 ''sub_year_band_count'' ''cesantia_cr_art29'' 0 = Inr 0"
    by (rule dec_requireCount; simp add: sample_art29_def)+
  moreover have "[1..<2 + 1] = [1, 2]" "[1..<0 + 1] = []" by (simp_all add: upt_rec)
  moreover have "sample_art29 (numbered ''row'' 1 ''_days_per_year'') = Some (Dec 195 (- 1))"
    "sample_art29 (numbered ''row'' 2 ''_days_per_year'') = Some (Dec 20 0)"
    by code_simp+
  ultimately show ?thesis
    by (simp add: readArt29_def requireValue_def requireFlag_def flagValue_def dec.vals sample_art29_def del: upt_Suc)
qed

theorem art29_pays_the_law_witness:
  "\<exists>r. EvalFormula [] decLib ''cesantia_cr_art29'' sample_art29 sample_tenure = Inr r \<and> dvalue r = 39"
proof -
  obtain r0 where "owedArt29 decLib \<lparr>a29_subYear = [], a29_rows = [Dec 195 (- 1), Dec 20 0], a29_cap = Dec 8 0,
      a29_fraction = \<lparr>sb_min = Dec 6 0, sb_exclusive = False, sb_value = dZero decLib\<rparr>\<rparr> (Dec 1 0) (Dec 8 0) = Inr r0"
    using dec.owedArt29_years [of "Dec 1 0" 1 "\<lparr>a29_subYear = [], a29_rows = [Dec 195 (- 1), Dec 20 0], a29_cap = Dec 8 0,
      a29_fraction = \<lparr>sb_min = Dec 6 0, sb_exclusive = False, sb_value = dZero decLib\<rparr>\<rparr>" "Dec 8 0"] by auto
  then have "\<exists>r. evalCesantiaCRArt29 decLib sample_art29 sample_tenure = Inr r"
    using sample_art29_reads
    by (simp add: evalCesantiaCRArt29_Inr validTenure_def sample_tenure_def dec.vals dec.IsInteger_iff)
  then obtain r where r: "EvalFormula [] decLib ''cesantia_cr_art29'' sample_art29 sample_tenure = Inr r"
    by (auto simp: EvalFormula_def formulaRegistry_def)
  have "dvalue (Dec 195 (- 1)) = 39 / 2" by (simp add: dvalue_def power_int_minus)
  with art29_pays_the_law [OF dec.decimal_laws_axioms r, of "Dec 1 0" 1 "Dec 8 0"] r show ?thesis
    by (auto simp: sample_tenure_def sample_art29_def itoa.simps char_of_def split: if_splits)
qed

definition sample_contract :: "dec value_map" where
  "sample_contract = [''block_days'' \<mapsto> Dec 180 0, ''days_per_block'' \<mapsto> Dec 22 0, ''min_days'' \<mapsto> Dec 22 0,
     ''min_days_long'' \<mapsto> Dec 30 0, ''long_contract_months'' \<mapsto> Dec 12 0]"

theorem fixed_term_blocks_are_exact_witness:
  "\<exists>r. EvalFormula [] decLib ''fixed_term_indemnity_cr'' sample_contract
        [''days_worked'' \<mapsto> Dec 361 0, ''contract_months'' \<mapsto> Dec 12 0] = Inr r \<and> dvalue r = 66"
proof -
  let ?ins = "[''days_worked'' \<mapsto> Dec 361 0, ''contract_months'' \<mapsto> Dec 12 0]"
  obtain q rest where "dc_QuoRem decLib (Dec 361 0) (Dec 180 0) 0 = Some (q, rest)"
    using dec.val_QuoRem [of "Dec 180 0" "Dec 361 0"] by auto
  then obtain r where r: "EvalFormula [] decLib ''fixed_term_indemnity_cr'' sample_contract ?ins = Inr r"
    by (simp add: EvalFormula_def formulaRegistry_def evalFixedTermIndemnityCR_def sample_contract_def
        requireValue_def dec.vals Let_def)
  have "\<lceil>361 / 180 :: rat\<rceil> = 3" by (simp add: ceiling_eq_iff)
  with fixed_term_blocks_are_exact [OF dec.decimal_laws_axioms r] r show ?thesis
    by (auto simp: sample_contract_def)
qed

theorem vesting_counts_completed_periods_witness:
  "\<exists>r. EvalFormula [] decLib ''vacation_period_vesting''
        [''days_per_period'' \<mapsto> Dec 14 0, ''period_months'' \<mapsto> Dec 12 0] [''months_of_service'' \<mapsto> Dec 35 0] = Inr r
     \<and> dvalue r = 28"
proof -
  let ?cs = "[''days_per_period'' \<mapsto> Dec 14 0, ''period_months'' \<mapsto> Dec 12 0]"
    and ?ins = "[''months_of_service'' \<mapsto> Dec 35 0]"
  obtain q where "dc_Div decLib (Dec 35 0) (Dec 12 0) = Some q"
    using dec.Div_floor [of "Dec 35 0" 35 "Dec 12 0" 12] by auto
  then obtain r where r: "EvalFormula [] decLib ''vacation_period_vesting'' ?cs ?ins = Inr r"
    by (simp add: EvalFormula_def formulaRegistry_def evalVacationPeriodVesting_def requireValue_def dec.vals)
  with vesting_counts_completed_periods [OF dec.decimal_laws_axioms r, of "Dec 35 0" 35 "Dec 12 0" 12]
  show ?thesis by auto
qed

theorem only_unchecked_divisors_panic_witness:
  "EvalFormula [] decLib ''aguinaldo_cr'' [''divisor'' \<mapsto> Dec 0 0] [''total_annual_salary'' \<mapsto> Dec 1200 0] = Inl DivisionByZero
   \<and> EvalFormula [] decLib ''thirteenth_br'' [''divisor'' \<mapsto> Dec 0 0] [''monthly_salary'' \<mapsto> Dec 1200 0] \<noteq> Inl DivisionByZero"
  by (simp add: only_unchecked_divisors_panic [OF dec.decimal_laws_axioms])

end
