(* ===== verification/Hcm_Eligibility.thy ===== *)
theory Hcm_Eligibility
  imports Hcm_Values
begin

text \<open>
  Eligibility predicates (\<open>src/hcmrules/eligibility.go\<close>): thresholds and facts are values by name, a
  missing one is an error, and an unknown kind is an error, not a refusal of the right.
\<close>

section \<open>The predicates\<close>

definition checkFMLAUS :: "'d decimal_lib \<Rightarrow> 'd value_map \<Rightarrow> 'd value_map \<Rightarrow> hcm_error + bool" where
  "checkFMLAUS D params facts =
     and_then (requireValue params ''min_headcount'' ''fmla_us'') (\<lambda>minHeadcount.
     and_then (requireValue params ''min_tenure_months'' ''fmla_us'') (\<lambda>minTenureMonths.
     and_then (requireValue params ''min_hours'' ''fmla_us'') (\<lambda>minHours.
     and_then (requireValue facts ''headcount'' ''fmla_us'') (\<lambda>headcount.
     and_then (requireValue facts ''tenure_months'' ''fmla_us'') (\<lambda>tenureMonths.
     and_then (requireValue facts ''hours_worked'' ''fmla_us'') (\<lambda>hoursWorked.
       Inr (dLessEq D minHeadcount headcount \<and> dLessEq D minTenureMonths tenureMonths
          \<and> dLessEq D minHours hoursWorked)))))))"

definition checkVacationVestingBR :: "'d decimal_lib \<Rightarrow> 'd value_map \<Rightarrow> 'd value_map \<Rightarrow> hcm_error + bool" where
  "checkVacationVestingBR D params facts =
     and_then (requireValue params ''min_continuous_months'' ''vacation_vesting_br'') (\<lambda>minContinuousMonths.
     and_then (requireValue facts ''continuous_months'' ''vacation_vesting_br'') (\<lambda>continuousMonths.
       Inr (dLessEq D minContinuousMonths continuousMonths)))"

definition eligibilityRegistry ::
    "'d decimal_lib \<Rightarrow> string \<rightharpoonup> ('d value_map \<Rightarrow> 'd value_map \<Rightarrow> hcm_error + bool)" where
  "eligibilityRegistry D = [''fmla_us'' \<mapsto> checkFMLAUS D, ''vacation_vesting_br'' \<mapsto> checkVacationVestingBR D]"

definition CheckEligibility ::
    "'d decimal_lib \<Rightarrow> string \<Rightarrow> 'd value_map \<Rightarrow> 'd value_map \<Rightarrow> hcm_error + bool" where
  "CheckEligibility D kind params facts = (case eligibilityRegistry D kind of
       None \<Rightarrow> Inl (UnknownKind kind)
     | Some fn \<Rightarrow> fn params facts)"

section \<open>A right is refused only by a threshold\<close>

text \<open>The pairs of a threshold and the fact it is compared to.\<close>

definition thresholds :: "string \<Rightarrow> (string \<times> string) list" where
  "thresholds kind =
     (if kind = ''fmla_us'' then [(''min_headcount'', ''headcount''), (''min_tenure_months'', ''tenure_months''),
                                  (''min_hours'', ''hours_worked'')]
      else if kind = ''vacation_vesting_br'' then [(''min_continuous_months'', ''continuous_months'')]
      else [])"

definition meets :: "('d \<Rightarrow> rat) \<Rightarrow> 'd option \<Rightarrow> 'd option \<Rightarrow> bool option" where
  "meets val threshold given = (case (threshold, given) of (Some t, Some f) \<Rightarrow> Some (val t \<le> val f) | _ \<Rightarrow> None)"

lemma meets_Some: "meets val t f = Some b \<longleftrightarrow> (\<exists>x y. t = Some x \<and> f = Some y \<and> b = (val x \<le> val y))"
  by (auto simp: meets_def split: option.splits)

text \<open>
  The answer is a verdict only with every number at hand. A kind of the registry answers exactly
  when each of its thresholds and facts is given, then answers yes exactly when each fact reaches its
  threshold; with any of them missing, or another kind, it is an error: no right is denied by default.
\<close>

theorem CheckEligibility_never_denies_by_default:
  assumes "decimal_laws D val"
  shows "CheckEligibility D kind params facts = Inr b \<longleftrightarrow>
     thresholds kind \<noteq> []
     \<and> None \<notin> set (map (\<lambda>(p, f). meets val (params p) (facts f)) (thresholds kind))
     \<and> b = (Some False \<notin> set (map (\<lambda>(p, f). meets val (params p) (facts f)) (thresholds kind)))"
proof -
  note vals = decimal_laws.vals [OF assms]
  have "checkFMLAUS D params facts = Inr b \<longleftrightarrow>
     None \<notin> set (map (\<lambda>(p, f). meets val (params p) (facts f)) (thresholds ''fmla_us''))
     \<and> b = (Some False \<notin> set (map (\<lambda>(p, f). meets val (params p) (facts f)) (thresholds ''fmla_us'')))"
    by (auto simp: checkFMLAUS_def thresholds_def meets_def and_then_eq_Inr requireValue_Inr vals split: option.splits)
  moreover have "checkVacationVestingBR D params facts = Inr b \<longleftrightarrow>
     None \<notin> set (map (\<lambda>(p, f). meets val (params p) (facts f)) (thresholds ''vacation_vesting_br''))
     \<and> b = (Some False \<notin> set (map (\<lambda>(p, f). meets val (params p) (facts f)) (thresholds ''vacation_vesting_br'')))"
    by (auto simp: checkVacationVestingBR_def thresholds_def meets_def and_then_eq_Inr requireValue_Inr vals split: option.splits)
  ultimately show ?thesis
    by (auto simp: CheckEligibility_def eligibilityRegistry_def thresholds_def)
qed

theorem CheckEligibility_never_denies_by_default_witness:
  "CheckEligibility decLib ''vacation_vesting_br'' [''min_continuous_months'' \<mapsto> Dec 12 0] [''continuous_months'' \<mapsto> Dec 11 0]
     = Inr False
   \<and> CheckEligibility decLib ''vacation_vesting_br'' [''min_continuous_months'' \<mapsto> Dec 12 0] Map.empty \<noteq> Inr False"
  by (simp add: CheckEligibility_never_denies_by_default [OF dec.decimal_laws_axioms] thresholds_def meets_def)

end
