(* ===== verification/Civil_Date.thy ===== *)
theory Civil_Date
  imports Kit_Prelude "HOL-Library.Product_Lexorder"
begin

text \<open>
  Dates without a time of day, as the kit reads them from "YYYY-MM-DD" texts with the \<open>time\<close> package
  of the standard library, and the order of such texts.
\<close>

section \<open>Dates\<close>

text \<open>
  \<open>time.Parse("2006-01-02", s)\<close> in UTC: four, two and two digits, a month of the year and a day of that
  month. A date is its year, month and day, ordered as they are in time.
\<close>

type_synonym date = "nat \<times> nat \<times> nat"

definition isLeap :: "nat \<Rightarrow> bool" where
  "isLeap y \<longleftrightarrow> y mod 4 = 0 \<and> (y mod 100 \<noteq> 0 \<or> y mod 400 = 0)"

definition daysIn :: "nat \<Rightarrow> nat \<Rightarrow> nat" where
  "daysIn m y = (if m = 2 then (if isLeap y then 29 else 28) else if m \<in> {4, 6, 9, 11} then 30 else 31)"

definition timeParse :: "string \<Rightarrow> date option" where
  "timeParse s =
     (let y = take 4 s; m = take 2 (drop 5 s); d = take 2 (drop 8 s) in
      if length s = 10 \<and> list_all isDigit (y @ m @ d) \<and> s ! 4 = CHR ''-'' \<and> s ! 7 = CHR ''-''
         \<and> 1 \<le> atoi m \<and> atoi m \<le> 12 \<and> 1 \<le> atoi d \<and> atoi d \<le> daysIn (atoi m) (atoi y)
      then Some (atoi y, atoi m, atoi d) else None)"

definition Before :: "date \<Rightarrow> date \<Rightarrow> bool" where
  "Before a b \<longleftrightarrow> a < b"

text \<open>\<open>Format("2006-01-02")\<close>.\<close>

definition pad :: "nat \<Rightarrow> nat \<Rightarrow> string" where
  "pad w n = replicate (w - length (itoa n)) CHR ''0'' @ itoa n"

definition formatDate :: "date \<Rightarrow> string" where
  "formatDate d = (case d of (y, m, dd) \<Rightarrow> pad 4 y @ CHR ''-'' # pad 2 m @ CHR ''-'' # pad 2 dd)"

section \<open>Text order is time order\<close>

lemma timeParse_Some:
  "timeParse s = Some (y, m, d) \<Longrightarrow> \<exists>ys ms ds. s = ys @ CHR ''-'' # ms @ CHR ''-'' # ds
     \<and> length ys = 4 \<and> length ms = 2 \<and> length ds = 2 \<and> list_all isDigit ys \<and> list_all isDigit ms \<and> list_all isDigit ds
     \<and> y = atoi ys \<and> m = atoi ms \<and> d = atoi ds"
proof -
  assume p: "timeParse s = Some (y, m, d)"
  let ?y = "take 4 s" and ?m = "take 2 (drop 5 s)" and ?d = "take 2 (drop 8 s)"
  have c: "length s = 10" "s ! 4 = CHR ''-''" "s ! 7 = CHR ''-''" "list_all isDigit (?y @ ?m @ ?d)"
    "y = atoi ?y" "m = atoi ?m" "d = atoi ?d"
    using p by (auto simp: timeParse_def Let_def split: if_splits)
  have "s = ?y @ s ! 4 # ?m @ s ! 7 # ?d"
    using c(1) by (auto simp: eval_nat_numeral length_Suc_conv)
  with c show ?thesis by (intro exI [of _ ?y] exI [of _ ?m] exI [of _ ?d]) auto
qed

lemma strLess_dates:
  assumes "timeParse s = Some a" and "timeParse t = Some b"
  shows "strLess s t \<longleftrightarrow> a < b"
proof -
  obtain y m d y' m' d' where ab: "a = (y, m, d)" "b = (y', m', d')" by (cases a; cases b) auto
  from timeParse_Some [of s y m d] assms(1) ab obtain ys ms ds where s: "s = ys @ CHR ''-'' # ms @ CHR ''-'' # ds"
    "length ys = 4" "length ms = 2" "length ds = 2" "list_all isDigit ys" "list_all isDigit ms" "list_all isDigit ds"
    "y = atoi ys" "m = atoi ms" "d = atoi ds" by blast
  from timeParse_Some [of t y' m' d'] assms(2) ab obtain ys' ms' ds' where t: "t = ys' @ CHR ''-'' # ms' @ CHR ''-'' # ds'"
    "length ys' = 4" "length ms' = 2" "length ds' = 2" "list_all isDigit ys'" "list_all isDigit ms'" "list_all isDigit ds'"
    "y' = atoi ys'" "m' = atoi ms'" "d' = atoi ds'" by blast
  have parts: "strLess ys ys' \<longleftrightarrow> y < y'" "ys = ys' \<longleftrightarrow> y = y'" "strLess ms ms' \<longleftrightarrow> m < m'" "ms = ms' \<longleftrightarrow> m = m'"
    "strLess ds ds' \<longleftrightarrow> d < d'"
    using s(2-) t(2-) strLess_atoi [of ys ys'] strLess_atoi [of ms ms'] strLess_atoi [of ds ds'] by simp_all
  have dash: "strLess (CHR ''-'' # u) (CHR ''-'' # v) \<longleftrightarrow> strLess u v" for u v by simp
  have "length ys = length ys'" "length ms = length ms'" using s(2,3) t(2,3) by simp_all
  then have "strLess s t \<longleftrightarrow> strLess ys ys' \<or> ys = ys' \<and> (strLess ms ms' \<or> ms = ms' \<and> strLess ds ds')"
    unfolding s(1) t(1) by (simp only: strLess_append dash)
  then show ?thesis unfolding parts ab by (auto simp: less_prod_def)
qed

section \<open>Formatting undoes parsing\<close>

lemma itoa_digits: "list_all isDigit (itoa n) \<and> itoa n \<noteq> []"
proof (induction n rule: itoa.induct)
  case (1 n)
  have digit: "isDigit (char_of (48 + k))" if "k < 10" for k :: nat
  proof -
    have "byte (char_of (48 + k)) = 48 + k" using that by simp
    with that show ?thesis by (simp add: isDigit_def)
  qed
  show ?case
  proof (cases "n < 10")
    case True
    with digit show ?thesis by (simp add: itoa.simps [of n])
  next
    case False
    have "isDigit (char_of (48 + n mod 10))" by (rule digit) simp
    with False 1 show ?thesis by (simp add: itoa.simps [of n])
  qed
qed

lemma itoa_length: "n < 10 ^ Suc w \<Longrightarrow> length (itoa n) \<le> Suc w"
proof (induction n arbitrary: w rule: itoa.induct)
  case (1 n)
  show ?case
  proof (cases "n < 10")
    case True
    then show ?thesis by (simp add: itoa.simps [of n])
  next
    case False
    then obtain k where k: "w = Suc k" using 1(2) by (cases w) auto
    with 1(2) have "n div 10 < 10 ^ Suc k" by (simp add: less_mult_imp_div_less mult.commute)
    with 1(1) [OF False this] False k show ?thesis by (simp add: itoa.simps [of n])
  qed
qed

lemma atoi_zeros: "atoi (replicate k CHR ''0'' @ s) = atoi s"
  by (induction k) (simp_all add: atoi_Cons)

lemma pad_atoi:
  assumes "list_all isDigit s" and "s \<noteq> []"
  shows "pad (length s) (atoi s) = s"
proof -
  let ?t = "pad (length s) (atoi s)"
  obtain w where w: "length s = Suc w" using assms(2) by (cases s) auto
  have "length (itoa (atoi s)) \<le> length s" unfolding w by (rule itoa_length) (use atoi_bound [OF assms(1)] w in simp)
  then have len: "length ?t = length s" by (simp add: pad_def)
  moreover have "list_all isDigit ?t"
    using itoa_digits [of "atoi s"] by (auto simp: pad_def list_all_iff isDigit_def)
  moreover have "atoi ?t = atoi s" by (simp add: pad_def atoi_zeros atoi_itoa)
  ultimately show ?thesis using strLess_atoi [of ?t s] assms(1) by blast
qed

lemma format_parse: "timeParse s = Some d \<Longrightarrow> formatDate d = s"
proof -
  assume p: "timeParse s = Some d"
  obtain y m dd where d: "d = (y, m, dd)" by (cases d)
  from timeParse_Some [of s y m dd] p d obtain ys ms ds where
    s: "s = ys @ CHR ''-'' # ms @ CHR ''-'' # ds" "length ys = 4" "length ms = 2" "length ds = 2"
    "list_all isDigit ys" "list_all isDigit ms" "list_all isDigit ds" "y = atoi ys" "m = atoi ms" "dd = atoi ds" by blast
  then have "pad 4 y = ys" "pad 2 m = ms" "pad 2 dd = ds"
    using pad_atoi [of ys] pad_atoi [of ms] pad_atoi [of ds] by fastforce+
  with s(1) d show ?thesis by (simp add: formatDate_def)
qed

end
