(* ===== verification/Hcm_Calendar.thy ===== *)
theory Hcm_Calendar
  imports Hcm_Values Civil_Date
begin

text \<open>
  The calendar (\<open>src/hcmrules/calendar.go\<close>): dates are parsed, so that a malformed one is an error,
  and the days are sorted by the text of their dates, which for these texts is their order in time.
\<close>

section \<open>Resolving a range\<close>

record calendar_entry =
  ce_Date :: string
  ce_Name :: string
  ce_PayRule :: string

record day =
  dy_Date :: string
  dy_Name :: string
  dy_PayRule :: string

definition dayOf :: "calendar_entry \<Rightarrow> day" where
  "dayOf e = \<lparr>dy_Date = ce_Date e, dy_Name = ce_Name e, dy_PayRule = ce_PayRule e\<rparr>"

fun resolveEntries :: "date \<Rightarrow> date \<Rightarrow> calendar_entry list \<Rightarrow> hcm_error + day list" where
  "resolveEntries start end' [] = Inr []"
| "resolveEntries start end' (e # es) = (case timeParse (ce_Date e) of
       None \<Rightarrow> Inl (BadDate (ce_Date e))
     | Some d \<Rightarrow>
         if Before d start \<or> Before end' d then resolveEntries start end' es
         else and_then (resolveEntries start end' es) (\<lambda>days. Inr (dayOf e # days)))"

definition ResolveCalendar :: "calendar_entry list \<Rightarrow> string \<Rightarrow> string \<Rightarrow> hcm_error + day list" where
  "ResolveCalendar entries from' to' = (case timeParse from' of
       None \<Rightarrow> Inl (BadDate from')
     | Some start \<Rightarrow> (case timeParse to' of
           None \<Rightarrow> Inl (BadDate to')
         | Some end' \<Rightarrow>
             if Before end' start then Inl EndBeforeStart
             else and_then (resolveEntries start end' entries) (\<lambda>days.
               Inr (sortStable (\<lambda>a b. strLess (dy_Date a) (dy_Date b)) days))))"

section \<open>A range is resolved exactly\<close>

definition dated :: "calendar_entry \<Rightarrow> bool" where
  "dated e \<longleftrightarrow> timeParse (ce_Date e) \<noteq> None"

definition inRange :: "date \<Rightarrow> date \<Rightarrow> calendar_entry \<Rightarrow> bool" where
  "inRange a b e \<longleftrightarrow> a \<le> the (timeParse (ce_Date e)) \<and> the (timeParse (ce_Date e)) \<le> b"

lemma resolveEntries_Inr:
  "resolveEntries a b es = Inr days \<longleftrightarrow>
     list_all dated es \<and> days = map dayOf (filter (inRange a b) es)"
proof (induction es arbitrary: days)
  case (Cons e es)
  show ?case
  proof (cases "timeParse (ce_Date e)")
    case (Some d)
    then have "inRange a b e \<longleftrightarrow> \<not> (Before d a \<or> Before b d)" by (simp add: inRange_def Before_def not_less)
    moreover have "dated e" using Some by (simp only: dated_def) simp
    ultimately show ?thesis using Some Cons.IH by (auto simp: and_then_eq_Inr)
  qed (simp add: dated_def)
qed auto

text \<open>
  A range of the calendar is resolved exactly, in time order. The call answers exactly when both
  ends are dates in order and every entry, in the range or not, is dated; then the days are precisely
  the entries inside the range, both ends included, sorted by the date itself although the code sorts
  the texts, and the entries of one day stay in the order they were given.
\<close>

theorem ResolveCalendar_exact:
  "ResolveCalendar es from' to' = Inr days \<longleftrightarrow>
     (\<exists>a b. timeParse from' = Some a \<and> timeParse to' = Some b \<and> a \<le> b
        \<and> list_all dated es
        \<and> days = sort_key (\<lambda>d. the (timeParse (dy_Date d)))
            (map dayOf (filter (inRange a b) es)))"
proof -
  have sorted: "sortStable (\<lambda>a b. strLess (dy_Date a) (dy_Date b)) ds = sort_key (\<lambda>d. the (timeParse (dy_Date d))) ds"
    if "list_all dated es" "set ds \<subseteq> dayOf ` set es" for ds
  proof (rule sortStable_key_on)
    fix x y assume "x \<in> set ds" "y \<in> set ds"
    with that obtain a b where "timeParse (dy_Date x) = Some a" "timeParse (dy_Date y) = Some b"
      by (fastforce simp: list_all_iff dated_def dayOf_def)
    then show "strLess (dy_Date x) (dy_Date y) \<longleftrightarrow> the (timeParse (dy_Date x)) < the (timeParse (dy_Date y))"
      by (simp add: strLess_dates)
  qed
  have "set (map dayOf (filter P es)) \<subseteq> dayOf ` set es" for P by auto
  note sorted [OF _ this]
  then have loop: "and_then (resolveEntries a b es) (\<lambda>days. Inr (sortStable (\<lambda>a b. strLess (dy_Date a) (dy_Date b)) days)) = Inr days
      \<longleftrightarrow> list_all dated es
        \<and> days = sort_key (\<lambda>d. the (timeParse (dy_Date d))) (map dayOf (filter (inRange a b) es))" for a b
    by (auto simp: and_then_eq_Inr resolveEntries_Inr)
  show ?thesis
    unfolding ResolveCalendar_def Before_def
    by (cases "timeParse from'"; cases "timeParse to'") (use loop in \<open>auto simp: not_less\<close>)
qed

end
