(* ===== verification/Ancestry.thy ===== *)
theory Ancestry
  imports Kit_Prelude "HOL-Library.AList"
begin

text \<open>
  Nodes that name their parent, the shape of both hierarchies of \<open>src/divisions\<close> (the organisational
  tree in \<open>client.go\<close>, the cost centres in \<open>catalogs.go\<close>): the same four walks, over any kind of node.
  A Go map from ids to nodes is an association list with one entry per id, so that its length is the
  \<open>len\<close> of the map. A walk that the code bounds is a recursion on the steps left; a walk that it does
  not bound is a partial function, \<^term>\<open>None\<close> when it never returns.
\<close>

section \<open>The forest\<close>

record 'n forest =
  fo_nodes :: "(int \<times> 'n) list"
  fo_children :: "int \<Rightarrow> int list"

definition emptyForest :: "'n forest" where
  "emptyForest = \<lparr>fo_nodes = [], fo_children = (\<lambda>_. [])\<rparr>"

definition look :: "'n forest \<Rightarrow> int \<rightharpoonup> 'n" where
  "look t = map_of (fo_nodes t)"

definition addNode :: "('n \<Rightarrow> int) \<Rightarrow> int \<times> 'n \<Rightarrow> 'n forest \<Rightarrow> 'n forest" where
  "addNode par row t = (case row of (i, n) \<Rightarrow>
     t\<lparr>fo_nodes := AList.update i n (fo_nodes t),
       fo_children := (if par n \<noteq> 0 then (fo_children t)(par n := fo_children t (par n) @ [i]) else fo_children t)\<rparr>)"

definition buildForest :: "('n \<Rightarrow> int) \<Rightarrow> (int \<times> 'n) list \<Rightarrow> 'n forest" where
  "buildForest par rows = fold (addNode par) rows emptyForest"

section \<open>The walks\<close>

fun pathFrom :: "(int \<rightharpoonup> 'n) \<Rightarrow> ('n \<Rightarrow> int) \<Rightarrow> ('n \<Rightarrow> string) \<Rightarrow> nat \<Rightarrow> 'n \<Rightarrow> string list \<Rightarrow> string list option" where
  "pathFrom nodes par code 0 n parts = None"
| "pathFrom nodes par code (Suc steps) n parts =
     (if par n = 0 then Some (rev (parts @ [code n]))
      else (case nodes (par n) of
          None \<Rightarrow> None
        | Some m \<Rightarrow> pathFrom nodes par code steps m (parts @ [code n])))"

fun ancestorsFrom :: "(int \<rightharpoonup> 'n) \<Rightarrow> ('n \<Rightarrow> int) \<Rightarrow> nat \<Rightarrow> 'n \<Rightarrow> int list \<Rightarrow> int list option" where
  "ancestorsFrom nodes par 0 n acc = None"
| "ancestorsFrom nodes par (Suc steps) n acc =
     (if par n = 0 then Some (rev acc)
      else (case nodes (par n) of
          None \<Rightarrow> None
        | Some m \<Rightarrow> ancestorsFrom nodes par steps m (acc @ [par n])))"

text \<open>
  The loop of \<open>validate\<close> above the node: \<open>bad\<close> gives the complaint about an ancestor, if any; the
  answer is the complaint, or \<^term>\<open>None\<close> inside for a chain without one.
\<close>

partial_function (option) climb ::
    "(int \<rightharpoonup> 'n) \<Rightarrow> ('n \<Rightarrow> int) \<Rightarrow> ('n \<Rightarrow> string option) \<Rightarrow> string \<Rightarrow> 'n \<Rightarrow> string option option" where
  "climb nodes par bad broken n =
     (if par n = 0 then Some None
      else (case nodes (par n) of
          None \<Rightarrow> Some (Some broken)
        | Some m \<Rightarrow> (case bad m of Some r \<Rightarrow> Some (Some r) | None \<Rightarrow> climb nodes par bad broken m)))"

text \<open>The loop of \<open>Subtree\<close>, over a list that grows while it is read.\<close>

partial_function (option) spread :: "(int \<Rightarrow> int list) \<Rightarrow> nat \<Rightarrow> int list \<Rightarrow> int list option" where
  "spread children i out =
     (if i < length out then spread children (Suc i) (out @ children (out ! i)) else Some out)"

section \<open>Lineages\<close>

text \<open>The ids from a node up to a root, when there is such a chain.\<close>

inductive lineage :: "(int \<rightharpoonup> 'n) \<Rightarrow> ('n \<Rightarrow> int) \<Rightarrow> int \<Rightarrow> int list \<Rightarrow> bool"
  for nodes :: "int \<rightharpoonup> 'n" and par :: "'n \<Rightarrow> int" where
  lineage_root: "nodes i = Some n \<Longrightarrow> par n = 0 \<Longrightarrow> lineage nodes par i [i]"
| lineage_step: "nodes i = Some n \<Longrightarrow> par n \<noteq> 0 \<Longrightarrow> lineage nodes par (par n) p \<Longrightarrow> lineage nodes par i (i # p)"

inductive_cases lineageE: "lineage nodes par i p"

inductive_simps lineage_iff: "lineage nodes par i p"

lemma lineage_hd: "lineage nodes par i p \<Longrightarrow> \<exists>q. p = i # q"
  by (erule lineageE) auto

lemma lineage_unique: "lineage nodes par i p \<Longrightarrow> lineage nodes par i q \<Longrightarrow> p = q"
proof (induction arbitrary: q rule: lineage.induct)
  case (lineage_root i n)
  then show ?case by (auto elim: lineageE)
next
  case (lineage_step i n p)
  from lineage_step.prems lineage_step.hyps(1,2) obtain q' where "q = i # q'" "lineage nodes par (par n) q'"
    by (auto elim: lineageE)
  with lineage_step.IH show ?case by blast
qed

lemma lineage_suffix: "lineage nodes par i p \<Longrightarrow> j \<in> set p \<Longrightarrow> \<exists>q. lineage nodes par j q \<and> suffix q p"
proof (induction rule: lineage.induct)
  case (lineage_root i n)
  then show ?case by (auto intro: lineage.lineage_root)
next
  case (lineage_step i n p)
  then show ?case
    by (cases "j = i") (auto intro: lineage.lineage_step suffix_ConsI)
qed

lemma lineage_distinct: "lineage nodes par i p \<Longrightarrow> distinct p"
proof (induction rule: lineage.induct)
  case (lineage_step i n p)
  have "i \<notin> set p"
  proof
    assume "i \<in> set p"
    then obtain q where "lineage nodes par i q" "suffix q p" using lineage_suffix lineage_step.hyps(3) by blast
    moreover from this(1) have "q = i # p"
      using lineage_unique lineage.lineage_step [OF lineage_step.hyps] by blast
    ultimately show False using suffix_length_le by fastforce
  qed
  with lineage_step.IH show ?case by simp
qed simp

lemma lineage_known: "lineage nodes par i p \<Longrightarrow> set p \<subseteq> dom nodes"
  by (induction rule: lineage.induct) auto

lemma lineage_length:
  assumes "lineage (map_of al) par i p"
  shows "length p \<le> length al"
proof -
  have "set p \<subseteq> set (map fst al)" using lineage_known [OF assms] by (auto simp: dom_map_of_conv_image_fst)
  with lineage_distinct [OF assms] show ?thesis
    by (metis card_mono distinct_card finite_set card_length length_map order_trans)
qed

section \<open>The bounded walks\<close>

lemma ancestorsFrom_lineage:
  assumes "lineage nodes par i p" and "nodes i = Some n" and "length p \<le> steps"
  shows "ancestorsFrom nodes par steps n acc = Some (rev (acc @ tl p))"
  using assms
proof (induction arbitrary: n steps acc rule: lineage.induct)
  case (lineage_root i m)
  then show ?case by (cases steps) auto
next
  case (lineage_step i m p)
  obtain k where k: "steps = Suc k" "length p \<le> k" using lineage_step.prems(2) by (cases steps) auto
  obtain m' where m': "nodes (par m) = Some m'" using lineage_step.hyps(3) by (auto elim: lineageE)
  from lineage_hd [OF lineage_step.hyps(3)] obtain q where q: "p = par m # q" by blast
  from lineage_step.IH [OF m' k(2), of "acc @ [par m]"] show ?case
    using lineage_step.hyps lineage_step.prems(1) k(1) m' q by simp
qed

lemma ancestorsFrom_Some:
  "ancestorsFrom nodes par steps n acc = Some r \<Longrightarrow> nodes i = Some n \<Longrightarrow>
     \<exists>p. lineage nodes par i p \<and> r = rev (acc @ tl p)"
proof (induction steps arbitrary: n acc i)
  case (Suc steps)
  show ?case
  proof (cases "par n = 0")
    case True
    with Suc.prems show ?thesis by (auto intro!: exI [of _ "[i]"] lineage_root)
  next
    case False
    with Suc.prems(1) obtain m where m: "nodes (par n) = Some m"
      "ancestorsFrom nodes par steps m (acc @ [par n]) = Some r" by (auto split: option.splits)
    from Suc.IH [OF m(2,1)] obtain p where p: "lineage nodes par (par n) p" "r = rev ((acc @ [par n]) @ tl p)" by blast
    from lineage_hd [OF p(1)] have "p = par n # tl p" by auto
    with p lineage_step [OF Suc.prems(2) False p(1)] show ?thesis by (intro exI [of _ "i # p"]) auto
  qed
qed simp

text \<open>\<open>Path\<close> visits the nodes that \<open>Ancestors\<close> collects.\<close>

lemma pathFrom_ancestorsFrom:
  "nodes i = Some n \<Longrightarrow> pathFrom nodes par code steps n (map (\<lambda>j. code (the (nodes j))) acc)
     = map_option (map (\<lambda>j. code (the (nodes j)))) (ancestorsFrom nodes par steps n (acc @ [i]))"
proof (induction steps arbitrary: n acc i)
  case (Suc steps)
  show ?case
  proof (cases "nodes (par n)")
    case None
    with Suc.prems show ?thesis by (simp add: rev_map)
  next
    case (Some m)
    from Suc.IH [OF Some, of "acc @ [i]"] Suc.prems Some show ?thesis by (simp add: rev_map)
  qed
qed simp

section \<open>The loop above a node\<close>

lemma climb_root: "par n = 0 \<Longrightarrow> climb nodes par bad broken n = Some None"
  by (subst climb.simps) simp

lemma climb_step:
  "par n \<noteq> 0 \<Longrightarrow> nodes (par n) = Some m \<Longrightarrow> bad m = None \<Longrightarrow>
     climb nodes par bad broken n = climb nodes par bad broken m"
  by (subst climb.simps) simp

lemma climb_lineage:
  assumes "lineage nodes par i p" and "nodes i = Some n"
  shows "climb nodes par bad broken n = Some None \<and> (\<forall>j \<in> set (tl p). bad (the (nodes j)) = None)
     \<or> (\<exists>r. climb nodes par bad broken n = Some (Some r) \<and> (\<exists>j \<in> set (tl p). bad (the (nodes j)) = Some r))"
  using assms
proof (induction arbitrary: n rule: lineage.induct)
  case (lineage_root i m)
  then show ?case by (simp add: climb_root)
next
  case (lineage_step i m p)
  obtain m' where m': "nodes (par m) = Some m'" using lineage_step.hyps(3) by (auto elim: lineageE)
  from lineage_hd [OF lineage_step.hyps(3)] obtain q where q: "p = par m # q" by blast
  have "m = n" using lineage_step by simp
  with lineage_step.hyps(2) m' have "climb nodes par bad broken n
      = (case bad m' of Some r \<Rightarrow> Some (Some r) | None \<Rightarrow> climb nodes par bad broken m')"
    by (subst climb.simps) simp
  with lineage_step.IH [OF m'] m' q show ?case by (cases "bad m'") auto
qed

lemma climb_valid:
  assumes "climb nodes par bad broken n = Some None" and "nodes i = Some n"
  shows "\<exists>p. lineage nodes par i p \<and> (\<forall>j \<in> set (tl p). bad (the (nodes j)) = None)"
proof -
  have "climb nodes par bad broken n = Some r \<Longrightarrow> r = None \<Longrightarrow> nodes i = Some n \<Longrightarrow>
      \<exists>p. lineage nodes par i p \<and> (\<forall>j \<in> set (tl p). bad (the (nodes j)) = None)" for r
  proof (induction arbitrary: i rule: climb.raw_induct [rotated, consumes 1, case_names loop])
    case (loop rec nodes par bad broken n r)
    show ?case
    proof (cases "par n = 0")
      case True
      with loop show ?thesis by (auto intro!: exI [of _ "[i]"] lineage_root)
    next
      case False
      with loop(2,3) obtain m where m: "nodes (par n) = Some m" "bad m = None" "rec nodes par bad broken m = Some r"
        by (auto split: option.splits)
      from loop(1) [OF m(3) loop(3) m(1)] obtain p where p: "lineage nodes par (par n) p"
        "\<forall>j \<in> set (tl p). bad (the (nodes j)) = None" by blast
      from lineage_hd [OF p(1)] have "p = par n # tl p" by auto
      then have "\<forall>j \<in> set p. bad (the (nodes j)) = None" using p(2) m by (metis option.sel set_ConsD)
      with lineage_step [OF loop(4) False p(1)] show ?thesis by (intro exI [of _ "i # p"]) auto
    qed
  qed
  with assms show ?thesis by blast
qed

lemma climb_decides:
  assumes "climb nodes par bad broken n = Some c" and "nodes i = Some n"
  shows "c = None \<longleftrightarrow> (\<exists>p. lineage nodes par i p \<and> (\<forall>j \<in> set (tl p). bad (the (nodes j)) = None))"
proof
  assume "c = None"
  with climb_valid [of nodes par bad broken n i] assms show "\<exists>p. lineage nodes par i p \<and> (\<forall>j \<in> set (tl p). bad (the (nodes j)) = None)"
    by blast
next
  assume "\<exists>p. lineage nodes par i p \<and> (\<forall>j \<in> set (tl p). bad (the (nodes j)) = None)"
  then obtain p where "lineage nodes par i p" "\<forall>j \<in> set (tl p). bad (the (nodes j)) = None" by blast
  with climb_lineage [OF this(1) assms(2), of bad broken] assms(1) show "c = None" by auto
qed

text \<open>A node with its ancestors: every node of the chain passes the check of its own.\<close>

lemma chain_split:
  "nodes i = Some n \<Longrightarrow> (\<exists>p. lineage nodes par i p \<and> (\<forall>j \<in> set p. good (the (nodes j))))
     \<longleftrightarrow> good n \<and> (\<exists>p. lineage nodes par i p \<and> (\<forall>j \<in> set (tl p). good (the (nodes j))))"
  by (metis lineage_hd list.sel(3) option.sel set_ConsD list.set_intros)

text \<open>The node so many steps above. The loop never returns exactly when every step finds a good one.\<close>

fun above :: "(int \<rightharpoonup> 'n) \<Rightarrow> ('n \<Rightarrow> int) \<Rightarrow> nat \<Rightarrow> 'n \<Rightarrow> 'n option" where
  "above nodes par 0 n = Some n"
| "above nodes par (Suc k) n =
     (if par n = 0 then None else (case nodes (par n) of None \<Rightarrow> None | Some m \<Rightarrow> above nodes par k m))"

lemma climb_None:
  "climb nodes par bad broken n = None \<longleftrightarrow> (\<forall>k. \<exists>m. above nodes par (Suc k) n = Some m \<and> bad m = None)"
proof
  have "climb nodes par bad broken n = None \<Longrightarrow> \<exists>m. above nodes par (Suc k) n = Some m \<and> bad m = None" for k
  proof (induction k arbitrary: n)
    case 0
    then show ?case by (subst (asm) climb.simps) (auto split: if_splits option.splits)
  next
    case (Suc k)
    from Suc.prems obtain m where m: "par n \<noteq> 0" "nodes (par n) = Some m" "climb nodes par bad broken m = None"
      by (subst (asm) climb.simps) (auto split: if_splits option.splits)
    from Suc.IH [OF m(3)] m(1,2) show ?case by simp
  qed
  then show "climb nodes par bad broken n = None \<Longrightarrow> \<forall>k. \<exists>m. above nodes par (Suc k) n = Some m \<and> bad m = None"
    by blast
next
  have "climb nodes par bad broken n = Some r \<Longrightarrow> \<exists>k. \<forall>m. above nodes par (Suc k) n = Some m \<longrightarrow> bad m \<noteq> None" for r
  proof (induction rule: climb.raw_induct [rotated, consumes 1, case_names loop])
    case (loop rec nodes par bad broken n r)
    show ?case
    proof (cases "par n \<noteq> 0 \<and> (\<exists>m. nodes (par n) = Some m \<and> bad m = None)")
      case True
      then obtain m where m: "par n \<noteq> 0" "nodes (par n) = Some m" "bad m = None" by blast
      from loop(2) m have "rec nodes par bad broken m = Some r" by simp
      from loop(1) [OF this] obtain k where "\<forall>m'. above nodes par (Suc k) m = Some m' \<longrightarrow> bad m' \<noteq> None" by blast
      with m show ?thesis by (intro exI [of _ "Suc k"]) simp
    next
      case False
      then show ?thesis by (intro exI [of _ 0]) (auto split: option.splits)
    qed
  qed
  then show "\<forall>k. \<exists>m. above nodes par (Suc k) n = Some m \<and> bad m = None \<Longrightarrow> climb nodes par bad broken n = None"
    by (cases "climb nodes par bad broken n") fastforce+
qed

section \<open>Descendants\<close>

definition under :: "(int \<rightharpoonup> 'n) \<Rightarrow> ('n \<Rightarrow> int) \<Rightarrow> int \<Rightarrow> int \<Rightarrow> bool" where
  "under nodes par root d \<longleftrightarrow> (\<exists>p. lineage nodes par d p \<and> root \<in> set p)"

lemma under_child:
  "under nodes par root p \<Longrightarrow> nodes c = Some n \<Longrightarrow> par n = p \<Longrightarrow> p \<noteq> 0 \<Longrightarrow> under nodes par root c"
  unfolding under_def by (metis lineage_step list.set_intros(2))

lemma under_known: "under nodes par root d \<Longrightarrow> \<exists>n. nodes d = Some n"
  unfolding under_def by (auto elim: lineageE)

lemma under_closed:
  assumes "lineage nodes par d p" and "root \<in> set p" and "root \<in> S"
    and "\<And>c n. nodes c = Some n \<Longrightarrow> par n \<noteq> 0 \<Longrightarrow> par n \<in> S \<Longrightarrow> c \<in> S"
  shows "d \<in> S"
  using assms by (induction rule: lineage.induct) auto

definition childrenOK :: "(int \<rightharpoonup> 'n) \<Rightarrow> ('n \<Rightarrow> int) \<Rightarrow> (int \<Rightarrow> int list) \<Rightarrow> bool" where
  "childrenOK nodes par children \<longleftrightarrow>
     (\<forall>p c. c \<in> set (children p) \<longleftrightarrow> p \<noteq> 0 \<and> (\<exists>n. nodes c = Some n \<and> par n = p)) \<and> (\<forall>p. distinct (children p))"

text \<open>Where the growing list stands when \<open>i\<close> of its elements have been read.\<close>

definition spreadInv :: "(int \<rightharpoonup> 'n) \<Rightarrow> ('n \<Rightarrow> int) \<Rightarrow> (int \<Rightarrow> int list) \<Rightarrow> int \<Rightarrow> nat \<Rightarrow> int list \<Rightarrow> bool" where
  "spreadInv nodes par children root i out \<longleftrightarrow>
     i \<le> length out \<and> distinct out \<and> root \<in> set out \<and> (\<forall>d \<in> set out. under nodes par root d)
     \<and> (\<forall>j < i. set (children (out ! j)) \<subseteq> set out)
     \<and> (\<forall>d \<in> set out. d = root \<or> (\<exists>j < i. d \<in> set (children (out ! j))))"

lemma spreadInv_step:
  assumes inv: "spreadInv nodes par children root i out" and ok: "childrenOK nodes par children" and i: "i < length out"
  shows "spreadInv nodes par children root (Suc i) (out @ children (out ! i))"
proof -
  have child: "c \<in> set (children p) \<longleftrightarrow> p \<noteq> 0 \<and> (\<exists>n. nodes c = Some n \<and> par n = p)" for c p
    using ok by (simp add: childrenOK_def)
  have inv': "distinct out" "root \<in> set out" "\<And>d. d \<in> set out \<Longrightarrow> under nodes par root d"
    "\<And>j. j < i \<Longrightarrow> set (children (out ! j)) \<subseteq> set out"
    "\<And>d. d \<in> set out \<Longrightarrow> d = root \<or> (\<exists>j < i. d \<in> set (children (out ! j)))"
    using inv by (auto simp: spreadInv_def)
  have here: "under nodes par root (out ! i)" using inv'(3) i by simp
  have new: "c \<notin> set out" if c: "c \<in> set (children (out ! i))" for c
  proof
    assume "c \<in> set out"
    then consider "c = root" | j where "j < i" "c \<in> set (children (out ! j))" using inv'(5) by blast
    then show False
    proof cases
      case 1
      from here obtain p where p: "lineage nodes par (out ! i) p" "root \<in> set p" unfolding under_def by blast
      from c 1 obtain n where "nodes root = Some n" "par n \<noteq> 0" "par n = out ! i" using child by auto
      with p(1) have "lineage nodes par root (root # p)" by (metis lineage_step)
      with p(2) show False using lineage_distinct by fastforce
    next
      case 2
      with c have "out ! j = out ! i" using child by auto
      with 2(1) i inv'(1) show False by (simp add: nth_eq_iff_index_eq)
    qed
  qed
  have below: "under nodes par root c" if "c \<in> set (children (out ! i))" for c
    using that child under_child [OF here] by blast
  let ?out = "out @ children (out ! i)"
  have old: "?out ! j = out ! j" if "j < Suc i" for j using that i by (simp add: nth_append)
  have "distinct ?out" using new inv'(1) ok by (auto simp: childrenOK_def)
  moreover have "set (children (?out ! j)) \<subseteq> set ?out" if "j < Suc i" for j
    unfolding old [OF that] using that inv'(4) [of j] by (cases "j = i") auto
  moreover have "d = root \<or> (\<exists>j < Suc i. d \<in> set (children (?out ! j)))" if "d \<in> set ?out" for d
  proof (cases "d \<in> set out")
    case True
    with inv'(5) show ?thesis by (metis old less_Suc_eq)
  next
    case False
    with that have "d \<in> set (children (?out ! i))" using old [of i] by simp
    then show ?thesis by blast
  qed
  moreover have "under nodes par root d" if "d \<in> set ?out" for d using that below inv'(3) by auto
  ultimately show ?thesis using inv'(2) i unfolding spreadInv_def by auto
qed

lemma spread_under:
  assumes ok: "childrenOK nodes par children" and fin: "finite (dom nodes)"
    and inv: "spreadInv nodes par children root i out"
  shows "\<exists>r. spread children i out = Some r \<and> distinct r \<and> set r = {d. under nodes par root d}"
  using inv
proof (induction "card (dom nodes) + 1 - i" arbitrary: i out)
  case (0 i out)
  from 0(2) have inv: "i \<le> length out" "distinct out" "\<forall>d \<in> set out. under nodes par root d"
    by (simp_all add: spreadInv_def)
  then have "card (set out) \<le> card (dom nodes)"
    by (intro card_mono fin subsetI) (auto dest: under_known)
  with 0(1) inv show ?case by (simp add: distinct_card)
next
  case (Suc k i out)
  show ?case
  proof (cases "i < length out")
    case True
    have "k = card (dom nodes) + 1 - Suc i" using Suc.hyps(2) by simp
    from Suc.hyps(1) [OF this spreadInv_step [OF Suc.prems ok True]] True show ?thesis
      by (simp add: spread.simps [of children i])
  next
    case False
    with Suc.prems have "i = length out" "\<forall>j < i. set (children (out ! j)) \<subseteq> set out" by (simp_all add: spreadInv_def)
    then have all: "\<And>p. p \<in> set out \<Longrightarrow> set (children p) \<subseteq> set out" by (metis in_set_conv_nth)
    have "d \<in> set out" if "under nodes par root d" for d
    proof -
      from that obtain p where "lineage nodes par d p" "root \<in> set p" unfolding under_def by blast
      then show ?thesis
      proof (rule under_closed)
        show "root \<in> set out" using Suc.prems by (simp add: spreadInv_def)
        fix c n assume "nodes c = Some n" "par n \<noteq> 0" "par n \<in> set out"
        then have "c \<in> set (children (par n))" using ok by (auto simp: childrenOK_def)
        with all \<open>par n \<in> set out\<close> show "c \<in> set out" by blast
      qed
    qed
    moreover have "under nodes par root d" if "d \<in> set out" for d using that Suc.prems by (simp add: spreadInv_def)
    ultimately have "set out = {d. under nodes par root d}" by blast
    moreover have "spread children i out = Some out" using False by (subst spread.simps) simp
    moreover have "distinct out" using Suc.prems by (simp add: spreadInv_def)
    ultimately show ?thesis by blast
  qed
qed

section \<open>Building\<close>

lemma buildForest_snoc: "buildForest par (rows @ [r]) = addNode par r (buildForest par rows)"
  by (simp add: buildForest_def)

lemma look_build: "look (buildForest par rows) i = map_of (rev rows) i"
proof (induction rows rule: rev_induct)
  case (snoc r rows)
  then show ?case
    by (cases r) (auto simp: buildForest_snoc addNode_def look_def AList.update_conv')
qed (simp add: buildForest_def emptyForest_def look_def)

lemma nodes_build_distinct: "distinct (map fst (fo_nodes (buildForest par rows)))"
proof (induction rows rule: rev_induct)
  case (snoc r rows)
  then show ?case by (cases r) (simp add: buildForest_snoc addNode_def AList.distinct_update)
qed (simp add: buildForest_def emptyForest_def)

lemma children_build:
  "fo_children (buildForest par rows) p = (if p = 0 then [] else map fst (filter (\<lambda>(i, n). par n = p) rows))"
proof (induction rows rule: rev_induct)
  case (snoc r rows)
  then show ?case by (cases r) (auto simp: buildForest_snoc addNode_def)
qed (simp add: buildForest_def emptyForest_def)

lemma build_childrenOK:
  assumes "distinct (map fst rows)"
  shows "childrenOK (look (buildForest par rows)) par (fo_children (buildForest par rows))"
proof -
  have look: "look (buildForest par rows) c = Some n \<longleftrightarrow> (c, n) \<in> set rows" for c n
    using assms map_of_eq_Some_iff [of "rev rows" c n] by (simp add: look_build rev_map [symmetric])
  have "distinct (map fst (filter P rows))" for P using assms by (simp add: distinct_map_filter)
  then show ?thesis
    by (auto simp: childrenOK_def children_build look image_iff)
qed

end
