(* ===== verification/Divisions_Tree.thy ===== *)
theory Divisions_Tree
  imports Ancestry Auth_Service
begin

text \<open>
  The client of the organisational tree (\<open>src/divisions/client.go\<close>): the cached snapshot of a tenant's
  tree and the operations computed on it. The calls of the generated gRPC stubs are functions of the
  outgoing context. An operation whose loop may run forever answers an option, \<^term>\<open>None\<close> when it does.
\<close>

section \<open>The snapshot\<close>

record node =
  nd_parent :: int
  nd_code :: string
  nd_active :: bool

text \<open>What \<open>GetTree\<close> sends of a division.\<close>

record division =
  dv_Id :: int
  dv_ParentId :: int
  dv_Code :: string
  dv_Active :: bool

type_synonym tree = "node forest"

definition buildTree :: "division list \<Rightarrow> tree" where
  "buildTree resp = buildForest nd_parent
     (map (\<lambda>d. (dv_Id d, \<lparr>nd_parent = dv_ParentId d, nd_code = dv_Code d, nd_active = dv_Active d\<rparr>)) resp)"

record ref_status =
  rs_Valid :: bool
  rs_Reason :: string

definition invalid :: "string \<Rightarrow> ref_status" where
  "invalid reason = \<lparr>rs_Valid = False, rs_Reason = reason\<rparr>"

definition validRef :: ref_status where
  "validRef = \<lparr>rs_Valid = True, rs_Reason = []\<rparr>"

definition statusOf :: "string option \<Rightarrow> ref_status" where
  "statusOf complaint = (case complaint of None \<Rightarrow> validRef | Some r \<Rightarrow> invalid r)"

definition brokenReason :: string where
  "brokenReason = ''cadena de ancestros rota''"

text \<open>The message is UTF-8, so the accented letter is two bytes.\<close>

definition inactiveReason :: string where
  "inactiveReason = ''divisi'' @ [CHR 0xC3, CHR 0xB3] @ ''n inactiva''"

definition badAncestor :: "node \<Rightarrow> string option" where
  "badAncestor n = (if nd_active n then None else Some (''ancestro inactivo: '' @ nd_code n))"

definition validateDivision :: "tree \<Rightarrow> int \<Rightarrow> ref_status option" where
  "validateDivision t i = (case look t i of
       None \<Rightarrow> Some (invalid ''no existe'')
     | Some n \<Rightarrow>
         if \<not> nd_active n then Some (invalid inactiveReason)
         else map_option statusOf (climb (look t) nd_parent badAncestor brokenReason n))"

section \<open>The client\<close>

datatype div_error =
    ErrNotConfigured
  | ErrNotFound int
  | ErrNoTenantInContext
  | NoIdentity service_error
  | CallFailed string
  | BrokenChain int

definition Audience :: string where
  "Audience = ''core-divisions''"

definition DefaultTTL :: duration where
  "DefaultTTL = Minute"

text \<open>
  The three caches have the same shape and the code reads and fills each the same way: the fresh
  snapshot of the tenant, or the identity for the call, the call, and the snapshot built and stored.
  The lookup and the store are two locked sections. A call meets outside: the clock at the lookup,
  what minting a token meets, the answer to the call, whatever other callers do to the cache while it
  is out, and the clock when the snapshot is stored.
\<close>

type_synonym 's snapshots = "string \<rightharpoonup> time \<times> 's"

record ('r, 's, 'a) call_env =
  ce_now :: time
  ce_token :: token_env
  ce_api :: "'a \<Rightarrow> string + 'r"
  ce_others :: "'s snapshots \<Rightarrow> 's snapshots"
  ce_stored :: time

definition freshSnapshot :: "duration \<Rightarrow> time \<Rightarrow> string \<Rightarrow> 's snapshots \<Rightarrow> 's option" where
  "freshSnapshot ttl now tenant cache = (case cache tenant of
       Some (fetched, s) \<Rightarrow> if now - fetched < ttl then Some s else None
     | None \<Rightarrow> None)"

definition fetchSnapshot ::
    "('r \<Rightarrow> 's) \<Rightarrow> ('r, 's, 'a ctx_scheme) call_env \<Rightarrow> 'a ctx_scheme \<Rightarrow> service_tokens option
       \<Rightarrow> (div_error + 's) \<times> service_tokens option" where
  "fetchSnapshot build e ctx tokens = (case Outgoing tokens (ce_token e) ctx Audience of
       (Inl err, ts) \<Rightarrow> (Inl (NoIdentity err), ts)
     | (Inr outCtx, ts) \<Rightarrow> (case ce_api e outCtx of
           Inl err \<Rightarrow> (Inl (CallFailed err), ts)
         | Inr resp \<Rightarrow> (Inr (build resp), ts)))"

definition storeSnapshot :: "string \<Rightarrow> time \<Rightarrow> 's \<Rightarrow> 's snapshots \<Rightarrow> 's snapshots" where
  "storeSnapshot tenant now s cache = cache(tenant \<mapsto> (now, s))"

definition snapshotFor ::
    "duration \<Rightarrow> ('r \<Rightarrow> 's) \<Rightarrow> ('r, 's, 'a ctx_scheme) call_env \<Rightarrow> 'a ctx_scheme \<Rightarrow> 's snapshots \<Rightarrow> service_tokens option
       \<Rightarrow> (div_error + 's) \<times> 's snapshots \<times> service_tokens option" where
  "snapshotFor ttl build e ctx cache tokens =
     (let tenant = Tenant ctx in
      if tenant = [] then (Inl ErrNoTenantInContext, cache, tokens)
      else (case freshSnapshot ttl (ce_now e) tenant cache of
          Some s \<Rightarrow> (Inr s, cache, tokens)
        | None \<Rightarrow> (case fetchSnapshot build e ctx tokens of
              (Inl err, ts) \<Rightarrow> (Inl err, ce_others e cache, ts)
            | (Inr s, ts) \<Rightarrow> (Inr s, storeSnapshot tenant (ce_stored e) s (ce_others e cache), ts))))"

record ('c, 't) div_client =
  dc_ttl :: duration
  dc_cache :: "tree snapshots"
  dc_ccCache :: "'c snapshots"
  dc_atCache :: "'t snapshots"
  dc_tokens :: "service_tokens option"

datatype div_option = WithServiceTokens "service_tokens option"

definition applyDivOption :: "('c, 't) div_client \<Rightarrow> div_option \<Rightarrow> ('c, 't) div_client" where
  "applyDivOption c o' = (case o' of WithServiceTokens ts \<Rightarrow> c\<lparr>dc_tokens := ts\<rparr>)"

text \<open>\<open>Dial\<close> on a connection that was created; creating one is the gRPC library's.\<close>

definition DialDivisions :: "div_option list \<Rightarrow> ('c, 't) div_client" where
  "DialDivisions opts = foldl applyDivOption
     \<lparr>dc_ttl = DefaultTTL, dc_cache = Map.empty, dc_ccCache = Map.empty, dc_atCache = Map.empty, dc_tokens = None\<rparr> opts"

definition treeFor ::
    "(division list, tree, 'a ctx_scheme) call_env \<Rightarrow> 'a ctx_scheme \<Rightarrow> ('c, 't) div_client
       \<Rightarrow> (div_error + tree) \<times> ('c, 't) div_client" where
  "treeFor e ctx c = (case snapshotFor (dc_ttl c) buildTree e ctx (dc_cache c) (dc_tokens c) of
       (r, cache, ts) \<Rightarrow> (r, c\<lparr>dc_cache := cache, dc_tokens := ts\<rparr>))"

section \<open>Operations\<close>

fun validateAll :: "(int \<Rightarrow> ref_status option) \<Rightarrow> int list \<Rightarrow> (int \<rightharpoonup> ref_status) \<Rightarrow> (int \<rightharpoonup> ref_status) option" where
  "validateAll f [] out = Some out"
| "validateAll f (i # is) out = (case f i of None \<Rightarrow> None | Some r \<Rightarrow> validateAll f is (out(i \<mapsto> r)))"

definition subtreeOf :: "'n forest \<Rightarrow> int \<Rightarrow> (div_error + int list) option" where
  "subtreeOf t root = (case look t root of
       None \<Rightarrow> Some (Inl (ErrNotFound root))
     | Some _ \<Rightarrow> map_option Inr (spread (fo_children t) 0 [root]))"

definition pathOf :: "('n \<Rightarrow> int) \<Rightarrow> ('n \<Rightarrow> string) \<Rightarrow> 'n forest \<Rightarrow> int \<Rightarrow> div_error + string" where
  "pathOf par code t i = (case look t i of
       None \<Rightarrow> Inl (ErrNotFound i)
     | Some n \<Rightarrow> (case pathFrom (look t) par code (length (fo_nodes t) + 1) n [] of
           None \<Rightarrow> Inl (BrokenChain i)
         | Some parts \<Rightarrow> Inr (joinWith CHR ''/'' parts)))"

definition ancestorsOf :: "tree \<Rightarrow> int \<Rightarrow> div_error + int list" where
  "ancestorsOf t i = (case look t i of
       None \<Rightarrow> Inl (ErrNotFound i)
     | Some n \<Rightarrow> (case ancestorsFrom (look t) nd_parent (length (fo_nodes t) + 1) n [i] of
           None \<Rightarrow> Inl (BrokenChain i)
         | Some ids \<Rightarrow> Inr ids))"

text \<open>
  The methods: the snapshot, then the computation on it. \<open>onSnapshot\<close> is the early return of the error
  of the snapshot.
\<close>

definition onSnapshot :: "(div_error + 's) \<times> 'c \<Rightarrow> ('s \<Rightarrow> (div_error + 'r) option) \<Rightarrow> ((div_error + 'r) \<times> 'c) option" where
  "onSnapshot rc k = (case rc of
       (Inl err, c) \<Rightarrow> Some (Inl err, c)
     | (Inr s, c) \<Rightarrow> (case k s of None \<Rightarrow> None | Some r \<Rightarrow> Some (r, c)))"

definition ValidateRefs where
  "ValidateRefs e ctx ids c = onSnapshot (treeFor e ctx c)
     (\<lambda>t. map_option Inr (validateAll (validateDivision t) ids Map.empty))"

definition Subtree where
  "Subtree e ctx root c = onSnapshot (treeFor e ctx c) (\<lambda>t. subtreeOf t root)"

definition Path where
  "Path e ctx i c = onSnapshot (treeFor e ctx c) (\<lambda>t. Some (pathOf nd_parent nd_code t i))"

definition Ancestors where
  "Ancestors e ctx i c = onSnapshot (treeFor e ctx c) (\<lambda>t. Some (ancestorsOf t i))"

text \<open>The \<open>Stub\<close> of a Core without a backend.\<close>

definition stubValidateRefs :: "int list \<Rightarrow> div_error + (int \<rightharpoonup> ref_status)" where
  "stubValidateRefs ids = Inl ErrNotConfigured"

definition stubSubtree :: "int \<Rightarrow> div_error + int list" where
  "stubSubtree root = Inl ErrNotConfigured"

definition stubPath :: "int \<Rightarrow> div_error + string" where
  "stubPath i = Inl ErrNotConfigured"

definition stubAncestors :: "int \<Rightarrow> div_error + int list" where
  "stubAncestors i = Inl ErrNotConfigured"

section \<open>The walks on a snapshot\<close>

lemma lineage_fits:
  "lineage (look t) par i p \<Longrightarrow> length p \<le> length (fo_nodes t) + 1"
  unfolding look_def using lineage_length le_SucI by fastforce

lemma ancestorsOf_Inr: "ancestorsOf t i = Inr ids \<longleftrightarrow> lineage (look t) nd_parent i (rev ids)"
proof
  assume "ancestorsOf t i = Inr ids"
  then obtain n where n: "look t i = Some n"
    "ancestorsFrom (look t) nd_parent (length (fo_nodes t) + 1) n [i] = Some ids"
    by (auto simp: ancestorsOf_def split: option.splits)
  from ancestorsFrom_Some [OF n(2,1)] obtain p where p: "lineage (look t) nd_parent i p" "ids = rev (i # tl p)" by auto
  from lineage_hd [OF p(1)] p show "lineage (look t) nd_parent i (rev ids)" by auto
next
  assume l: "lineage (look t) nd_parent i (rev ids)"
  then obtain n where n: "look t i = Some n" by (auto elim: lineageE)
  from lineage_hd [OF l] obtain q where "rev ids = i # q" by blast
  then have "ids = rev q @ [i]" by (metis rev.simps(2) rev_swap)
  with ancestorsFrom_lineage [OF l n lineage_fits [OF l], of "[i]"] n show "ancestorsOf t i = Inr ids"
    by (simp add: ancestorsOf_def)
qed

lemma ancestorsOf_error:
  "ancestorsOf t i = Inl err \<Longrightarrow> (look t i = None \<and> err = ErrNotFound i) \<or> (look t i \<noteq> None \<and> err = BrokenChain i)"
  by (auto simp: ancestorsOf_def split: option.splits)

lemma statusOf_Valid [simp]: "rs_Valid (statusOf c) \<longleftrightarrow> c = None"
  by (cases c) (simp_all add: statusOf_def validRef_def invalid_def)

lemma invalid_Valid [simp]: "\<not> rs_Valid (invalid r)"
  by (simp add: invalid_def)

lemma validateDivision_Valid:
  assumes "validateDivision t i = Some r"
  shows "rs_Valid r \<longleftrightarrow> (\<exists>p. lineage (look t) nd_parent i p \<and> (\<forall>j \<in> set p. nd_active (the (look t j))))"
proof (cases "look t i")
  case None
  then show ?thesis using assms by (auto simp: validateDivision_def elim: lineageE)
next
  case (Some n)
  have "badAncestor m = None \<longleftrightarrow> nd_active m" for m by (simp add: badAncestor_def)
  with climb_decides [of "look t" nd_parent badAncestor brokenReason n _ i] assms Some show ?thesis
    unfolding chain_split [where nodes = "look t" and good = nd_active, OF Some] by (auto simp: validateDivision_def split: if_splits)
qed

section \<open>What the operations promise\<close>

text \<open>
  C32. The unbounded loop of \<open>validate\<close> returns except on a chain of ancestors that never ends, and
  exactly then it does not: asking for a known, active division hangs exactly when every step up from
  it finds one more active division.
\<close>

theorem validate_hangs_exactly_on_endless_chains:
  "validateDivision t i = None \<longleftrightarrow>
     (\<exists>n. look t i = Some n \<and> nd_active n
        \<and> (\<forall>k. \<exists>m. above (look t) nd_parent (Suc k) n = Some m \<and> nd_active m))"
proof -
  have "badAncestor m = None \<longleftrightarrow> nd_active m" for m by (simp add: badAncestor_def)
  then show ?thesis
    unfolding validateDivision_def
    by (cases "look t i") (auto simp: climb_None simp del: above.simps)
qed

text \<open>
  The operations agree with each other on one snapshot. When \<open>ValidateRefs\<close> answers for a
  division, it is valid exactly when \<open>Ancestors\<close> finds its chain up to a root and every division of
  the chain is active; and \<open>Path\<close> is exactly the codes of \<open>Ancestors\<close>, joined, with the same errors.
\<close>

theorem operations_agree_on_the_chain:
  "(validateDivision t i = Some r \<longrightarrow>
      (rs_Valid r \<longleftrightarrow> (\<exists>ids. ancestorsOf t i = Inr ids \<and> list_all (\<lambda>j. nd_active (the (look t j))) ids)))
   \<and> pathOf nd_parent nd_code t i =
       (case ancestorsOf t i of Inl e \<Rightarrow> Inl e
        | Inr ids \<Rightarrow> Inr (joinWith CHR ''/'' (map (\<lambda>j. nd_code (the (look t j))) ids)))"
proof
  have "(\<exists>p. lineage (look t) nd_parent i p \<and> (\<forall>j \<in> set p. nd_active (the (look t j))))
      \<longleftrightarrow> (\<exists>ids. ancestorsOf t i = Inr ids \<and> list_all (\<lambda>j. nd_active (the (look t j))) ids)"
    unfolding ancestorsOf_Inr list_all_iff by (metis rev_rev_ident set_rev)
  with validateDivision_Valid show "validateDivision t i = Some r \<longrightarrow>
      (rs_Valid r \<longleftrightarrow> (\<exists>ids. ancestorsOf t i = Inr ids \<and> list_all (\<lambda>j. nd_active (the (look t j))) ids))" by blast
  show "pathOf nd_parent nd_code t i =
       (case ancestorsOf t i of Inl e \<Rightarrow> Inl e
        | Inr ids \<Rightarrow> Inr (joinWith CHR ''/'' (map (\<lambda>j. nd_code (the (look t j))) ids)))"
  proof (cases "look t i")
    case (Some n)
    from pathFrom_ancestorsFrom [where nodes = "look t" and acc = "[]" and par = nd_parent and code = nd_code, OF Some]
    show ?thesis by (simp add: pathOf_def ancestorsOf_def Some split: option.split del: ancestorsFrom.simps pathFrom.simps)
  qed (simp add: pathOf_def ancestorsOf_def)
qed

lemma build_tree_children:
  "distinct (map dv_Id resp) \<Longrightarrow> childrenOK (look (buildTree resp)) nd_parent (fo_children (buildTree resp))"
  unfolding buildTree_def by (rule build_childrenOK) (simp add: comp_def)

lemma finite_look [simp]: "finite (dom (look t))"
  by (simp add: look_def finite_dom_map_of)

lemma subtreeOf_under:
  assumes "childrenOK (look t) par (fo_children t)" and "lineage (look t) par root p"
  shows "\<exists>out. subtreeOf t root = Some (Inr out) \<and> distinct out \<and> set out = {d. under (look t) par root d}"
proof -
  from lineage_hd [OF assms(2)] have "root \<in> set p" by auto
  with assms(2) have "spreadInv (look t) par (fo_children t) root 0 [root]"
    by (auto simp: spreadInv_def under_def)
  from spread_under [OF assms(1) _ this] assms(2) show ?thesis
    by (auto simp: subtreeOf_def elim: lineageE)
qed

text \<open>
  C33. \<open>Subtree\<close> is exactly the descendants. For a response in which each id comes once, and a node
  that \<open>Ancestors\<close> can trace to a root, the growing list ends, and holds each division once: those
  whose \<open>Ancestors\<close> contain the node, the node included, whatever cycles the response has elsewhere.
\<close>

theorem Subtree_is_the_descendants:
  assumes "distinct (map dv_Id resp)" and "t = buildTree resp" and "ancestorsOf t root = Inr chain"
  shows "\<exists>out. subtreeOf t root = Some (Inr out) \<and> distinct out \<and> root \<in> set out
     \<and> set out = {d. \<exists>ids. ancestorsOf t d = Inr ids \<and> root \<in> set ids}"
proof -
  have "lineage (look t) nd_parent root (rev chain)" using assms(3) by (simp add: ancestorsOf_Inr)
  moreover have "under (look t) nd_parent root d \<longleftrightarrow> (\<exists>ids. ancestorsOf t d = Inr ids \<and> root \<in> set ids)" for d
    unfolding under_def ancestorsOf_Inr by (metis rev_rev_ident set_rev)
  moreover have "root \<in> set chain" using assms(3) lineage_hd by (fastforce simp: ancestorsOf_Inr rev_swap)
  moreover obtain out where "subtreeOf t root = Some (Inr out)" "distinct out" "set out = {d. under (look t) nd_parent root d}"
    using subtreeOf_under [OF build_tree_children [OF assms(1)]] calculation(1) assms(2) by blast
  ultimately show ?thesis using assms(3) by auto
qed

section \<open>The cache\<close>

fun treeRun ::
    "((division list, tree, 'a ctx_scheme) call_env \<times> 'a ctx_scheme) list \<Rightarrow> ('c, 't) div_client \<Rightarrow> ('c, 't) div_client" where
  "treeRun [] c = c"
| "treeRun ((e, ctx) # calls) c = treeRun calls (snd (treeFor e ctx c))"

text \<open>A tree that a call of the list fetched for the tenant, with the time it was stored.\<close>

definition fetchedIn ::
    "((division list, tree, 'a ctx_scheme) call_env \<times> 'a ctx_scheme) list \<Rightarrow> string \<Rightarrow> time \<Rightarrow> tree \<Rightarrow> bool" where
  "fetchedIn calls tenant at t \<longleftrightarrow> (\<exists>e ctx outCtx resp. (e, ctx) \<in> set calls \<and> Tenant ctx = tenant
     \<and> ce_api e outCtx = Inr resp \<and> Tenant outCtx = tenant \<and> t = buildTree resp \<and> at = ce_stored e)"

lemma Outgoing_tenant: "Outgoing tokens e ctx aud = (Inr ctx', ts) \<Longrightarrow> Tenant ctx' = Tenant ctx"
  by (auto simp: Outgoing_def appendOutgoing_def Tenant_def split: option.splits prod.splits sum.splits)

lemma snapshotFor_cases:
  assumes "snapshotFor ttl build e ctx cache tokens = (r, cache', ts)"
  obtains (kept) "cache' = cache" "\<And>s. r = Inr s \<Longrightarrow> \<exists>at. cache (Tenant ctx) = Some (at, s) \<and> ce_now e - at < ttl"
  | (failed) err where "r = Inl err" "cache' = ce_others e cache"
  | (fetched) outCtx resp where "ce_api e outCtx = Inr resp" "Tenant outCtx = Tenant ctx" "r = Inr (build resp)"
      "cache' = (ce_others e cache)(Tenant ctx \<mapsto> (ce_stored e, build resp))"
proof (cases "freshSnapshot ttl (ce_now e) (Tenant ctx) cache")
  case (Some s)
  with assms that(1) show thesis
    by (auto simp: snapshotFor_def freshSnapshot_def Let_def split: if_splits option.splits)
next
  case None
  show thesis
  proof (cases "fetchSnapshot build e ctx tokens")
    case (Pair res ts')
    show thesis
    proof (cases res)
      case (Inl err)
      with assms None Pair that(1) that(2) [of err] show thesis by (auto simp: snapshotFor_def Let_def split: if_splits)
    next
      case (Inr s)
      with Pair obtain outCtx resp where "ce_api e outCtx = Inr resp" "Tenant outCtx = Tenant ctx" "s = build resp"
        by (auto simp: fetchSnapshot_def dest: Outgoing_tenant split: sum.splits prod.splits)
      with assms None Pair Inr that(1) that(3) [of outCtx resp] show thesis
        by (auto simp: snapshotFor_def storeSnapshot_def Let_def split: if_splits)
    qed
  qed
qed

text \<open>What the other callers put into the cache between two locked sections they fetched by calls of their own.\<close>

definition othersFetch ::
    "((division list, tree, 'a ctx_scheme) call_env \<times> 'a ctx_scheme) list \<Rightarrow> (tree snapshots \<Rightarrow> tree snapshots) \<Rightarrow> bool" where
  "othersFetch others f \<longleftrightarrow> (\<forall>cache tenant at t. f cache tenant = Some (at, t) \<longrightarrow>
     cache tenant = Some (at, t) \<or> fetchedIn others tenant at t)"

lemma fetchedIn_mono: "fetchedIn calls tenant at t \<Longrightarrow> set calls \<subseteq> set calls' \<Longrightarrow> fetchedIn calls' tenant at t"
  unfolding fetchedIn_def by blast

lemma treeRun_fetched:
  assumes "\<And>tenant at t. dc_cache c tenant = Some (at, t) \<Longrightarrow> fetchedIn all tenant at t"
    and "set calls \<subseteq> set all" and "\<forall>call \<in> set calls. othersFetch all (ce_others (fst call))"
    and "dc_cache (treeRun calls c) tenant = Some (at, t)"
  shows "fetchedIn all tenant at t"
  using assms
proof (induction calls c rule: treeRun.induct)
  case (2 e ctx calls c)
  obtain r cache ts where s: "snapshotFor (dc_ttl c) buildTree e ctx (dc_cache c) (dc_tokens c) = (r, cache, ts)"
    by (metis prod_cases3)
  then have c: "dc_cache (snd (treeFor e ctx c)) = cache" by (simp add: treeFor_def)
  have others: "fetchedIn all tenant at t" if "ce_others e (dc_cache c) tenant = Some (at, t)" for tenant at t
    using that "2.prems"(1) [of tenant at t] "2.prems"(3) unfolding othersFetch_def by fastforce
  from s have "fetchedIn all tenant at t" if "cache tenant = Some (at, t)" for tenant at t
  proof (cases rule: snapshotFor_cases)
    case kept
    with that "2.prems"(1) show ?thesis by simp
  next
    case failed
    with that others show ?thesis by simp
  next
    case (fetched outCtx resp)
    with that others "2.prems"(2) show ?thesis by (cases "tenant = Tenant ctx") (auto simp: fetchedIn_def)
  qed
  then have "dc_cache (snd (treeFor e ctx c)) tenant = Some (at, t) \<Longrightarrow> fetchedIn all tenant at t" for tenant at t
    by (simp add: c)
  from "2.IH" [OF this] "2.prems"(2-4) show ?case by simp
qed simp

lemma applyDivOptions_frame:
  "dc_cache (foldl applyDivOption c opts) = dc_cache c \<and> dc_ttl (foldl applyDivOption c opts) = dc_ttl c"
  by (induction opts arbitrary: c) (auto simp: applyDivOption_def split: div_option.split)

lemma Dial_fresh: "dc_cache (DialDivisions opts) = Map.empty" "dc_ttl (DialDivisions opts) = Minute"
  by (simp_all add: DialDivisions_def DefaultTTL_def applyDivOptions_frame)

lemma treeRun_ttl: "dc_ttl (treeRun calls c) = dc_ttl c"
  by (induction calls c rule: treeRun.induct) (auto simp: treeFor_def split: prod.splits)

text \<open>
  C13. No tenant ever sees another's tree, nor an old one. After any calls on a new client, a call is
  answered with the tree of a response that \<open>core-divisions\<close> gave to a call for the same tenant: the
  call itself, or another one whose snapshot is younger than the time to live. Other callers may store
  what they fetched at any moment between the two locked sections of each of these calls.
\<close>

theorem trees_never_cross_tenants:
  fixes opts :: "div_option list" and c :: "('c, 't) div_client"
  assumes "treeFor e ctx (treeRun calls (DialDivisions opts)) = (Inr t, c)"
    and "\<forall>call \<in> set calls. othersFetch (calls @ others) (ce_others (fst call))"
  shows "\<exists>at. fetchedIn (calls @ others @ [(e, ctx)]) (Tenant ctx) at t \<and> (at = ce_stored e \<or> ce_now e - at < Minute)"
proof -
  let ?c = "treeRun calls (DialDivisions opts :: ('c, 't) div_client)"
  obtain cache ts where "snapshotFor (dc_ttl ?c) buildTree e ctx (dc_cache ?c) (dc_tokens ?c) = (Inr t, cache, ts)"
    using assms(1) by (auto simp: treeFor_def split: prod.splits)
  then show ?thesis
  proof (cases rule: snapshotFor_cases)
    case kept
    then obtain at where at: "dc_cache ?c (Tenant ctx) = Some (at, t)" "ce_now e - at < dc_ttl ?c" by blast
    have fresh: "fetchedIn (calls @ others) tenant at t"
      if "dc_cache (DialDivisions opts :: ('c, 't) div_client) tenant = Some (at, t)" for tenant at t
      using that by (simp add: Dial_fresh)
    have "fetchedIn (calls @ others) (Tenant ctx) at t"
      by (rule treeRun_fetched [OF fresh _ assms(2) at(1)]) auto
    then have "fetchedIn (calls @ others @ [(e, ctx)]) (Tenant ctx) at t" by (rule fetchedIn_mono) auto
    moreover have "ce_now e - at < Minute" using at(2) by (simp add: treeRun_ttl Dial_fresh)
    ultimately show ?thesis by blast
  next
    case fetched
    then have "fetchedIn (calls @ others @ [(e, ctx)]) (Tenant ctx) (ce_stored e) t" unfolding fetchedIn_def by fastforce
    then show ?thesis by blast
  qed simp
qed

section \<open>Witnesses\<close>

definition sample_divisions :: "division list" where
  "sample_divisions =
     [\<lparr>dv_Id = 1, dv_ParentId = 0, dv_Code = ''HQ'', dv_Active = True\<rparr>,
      \<lparr>dv_Id = 2, dv_ParentId = 1, dv_Code = ''OPS'', dv_Active = True\<rparr>,
      \<lparr>dv_Id = 3, dv_ParentId = 4, dv_Code = ''A'', dv_Active = True\<rparr>,
      \<lparr>dv_Id = 4, dv_ParentId = 3, dv_Code = ''B'', dv_Active = True\<rparr>]"

lemma sample_tree:
  "look (buildTree sample_divisions) 1 = Some \<lparr>nd_parent = 0, nd_code = ''HQ'', nd_active = True\<rparr>"
  "look (buildTree sample_divisions) 2 = Some \<lparr>nd_parent = 1, nd_code = ''OPS'', nd_active = True\<rparr>"
  by (simp_all add: buildTree_def look_build sample_divisions_def)

lemma sample_lineage:
  "lineage (look (buildTree sample_divisions)) nd_parent 1 [1]"
  "lineage (look (buildTree sample_divisions)) nd_parent 2 [2, 1]"
proof -
  show root: "lineage (look (buildTree sample_divisions)) nd_parent 1 [1]"
    by (rule lineage_root, rule sample_tree) simp
  show "lineage (look (buildTree sample_divisions)) nd_parent 2 [2, 1]"
    by (rule lineage_step, rule sample_tree) (simp_all add: root)
qed

lemma sample_chain:
  "ancestorsOf (buildTree sample_divisions) 1 = Inr [1]" "ancestorsOf (buildTree sample_divisions) 2 = Inr [1, 2]"
  using sample_lineage by (simp_all add: ancestorsOf_Inr)

theorem operations_agree_on_the_chain_witness:
  "pathOf nd_parent nd_code (buildTree sample_divisions) 2 = Inr ''HQ/OPS''"
  using operations_agree_on_the_chain [of "buildTree sample_divisions" 2] by (simp add: sample_chain sample_tree)

theorem Subtree_is_the_descendants_witness:
  "\<exists>out. subtreeOf (buildTree sample_divisions) 1 = Some (Inr out) \<and> 2 \<in> set out \<and> distinct out"
proof -
  have "distinct (map dv_Id sample_divisions)" by (simp add: sample_divisions_def)
  from Subtree_is_the_descendants [OF this refl sample_chain(1)] sample_chain(2) show ?thesis by fastforce
qed

definition sample_call :: "time \<Rightarrow> (division list, tree, ctx) call_env" where
  "sample_call now = \<lparr>ce_now = now, ce_token = sample_tenv, ce_api = (\<lambda>_. Inr sample_divisions),
     ce_others = storeSnapshot ''beta'' 0 (buildTree []), ce_stored = now\<rparr>"

text \<open>While the first call of \<open>acme\<close> is out another caller stores the tree of \<open>beta\<close>; the second is answered from the cache.\<close>

theorem trees_never_cross_tenants_witness:
  "\<exists>at. fetchedIn [(sample_call 0, WithTenant background ''acme''),
        ((sample_call 0)\<lparr>ce_api := \<lambda>_. Inr []\<rparr>, WithTenant background ''beta''),
        (sample_call Second, WithTenant background ''acme'')]
      ''acme'' at (buildTree sample_divisions)"
proof -
  let ?ctx = "WithTenant background ''acme''"
  let ?beta = "((sample_call 0)\<lparr>ce_api := \<lambda>_. Inr []\<rparr>, WithTenant background ''beta'')"
  have "fst (treeFor (sample_call Second) ?ctx
      (treeRun [(sample_call 0, ?ctx)] (DialDivisions [] :: (unit, unit) div_client))) = Inr (buildTree sample_divisions)"
    by (simp add: treeFor_def snapshotFor_def freshSnapshot_def fetchSnapshot_def storeSnapshot_def sample_call_def
        DialDivisions_def DefaultTTL_def duration_defs Outgoing_def incomingBearer_def WithTenant_def background_def
        Tenant_def Let_def)
  then obtain c where c: "treeFor (sample_call Second) ?ctx
      (treeRun [(sample_call 0, ?ctx)] (DialDivisions [] :: (unit, unit) div_client)) = (Inr (buildTree sample_divisions), c)"
    by (metis prod.collapse)
  have "fetchedIn [(sample_call 0, ?ctx), ?beta] ''beta'' 0 (buildTree [])"
    unfolding fetchedIn_def
    by (intro exI [of _ "fst ?beta"] exI [of _ "snd ?beta"] exI [of _ "snd ?beta"] exI [of _ "[]"])
      (simp add: Tenant_With sample_call_def)
  then have "othersFetch ([(sample_call 0, ?ctx)] @ [?beta]) (ce_others (sample_call 0))"
    by (simp add: othersFetch_def sample_call_def storeSnapshot_def)
  then have "\<forall>call \<in> set [(sample_call 0, ?ctx)]. othersFetch ([(sample_call 0, ?ctx)] @ [?beta]) (ce_others (fst call))"
    by simp
  from trees_never_cross_tenants [OF c this] show ?thesis unfolding Tenant_With by auto
qed

end
