(* ===== verification/Divisions_Catalogs.thy ===== *)
theory Divisions_Catalogs
  imports Divisions_Tree Civil_Date
begin

text \<open>
  The catalogs of \<open>src/divisions/catalogs.go\<close>: cost centres, a second hierarchy whose nodes have a time
  window and an anchor in the organisational tree, and asset types. They share the client, its cache
  discipline (\<open>snapshotFor\<close>) and the walks of \<^theory_text>\<open>Ancestry\<close>.
\<close>

section \<open>Dates\<close>

text \<open>
  The zero \<open>time.Time\<close> is midnight of January 1 of year 1, and stands for no limit. \<open>parseDate\<close> falls
  back to it. An instant of the clock is read in its location, as a date and a time of the day, of which
  \<open>civil\<close> keeps the date.
\<close>

definition zeroDate :: date where
  "zeroDate = (1, 1, 1)"

definition parseDate :: "string \<Rightarrow> date" where
  "parseDate s = (if s = [] then zeroDate else (case timeParse s of None \<Rightarrow> zeroDate | Some d \<Rightarrow> d))"

record wall =
  wl_date :: date
  wl_clock :: duration

definition civil :: "wall \<Rightarrow> date" where
  "civil t = wl_date t"

section \<open>Cost centres\<close>

record cc_node =
  cc_parent :: int
  cc_anchor :: int
  cc_code :: string
  cc_active :: bool
  cc_starts :: date
  cc_ends :: date

record cost_center =
  pc_Id :: int
  pc_ParentId :: int
  pc_DivisionId :: int
  pc_Code :: string
  pc_Active :: bool
  pc_StartsOn :: string
  pc_EndsOn :: string

type_synonym cc_tree = "cc_node forest"

definition toCcNode :: "cost_center \<Rightarrow> cc_node" where
  "toCcNode cc = \<lparr>cc_parent = pc_ParentId cc, cc_anchor = pc_DivisionId cc, cc_code = pc_Code cc,
     cc_active = pc_Active cc, cc_starts = parseDate (pc_StartsOn cc), cc_ends = parseDate (pc_EndsOn cc)\<rparr>"

definition buildCostCenters :: "cost_center list \<Rightarrow> cc_tree" where
  "buildCostCenters resp = buildForest cc_parent (map (\<lambda>cc. (pc_Id cc, toCcNode cc)) resp)"

definition windowReason :: "cc_node \<Rightarrow> date \<Rightarrow> string" where
  "windowReason n today =
     (if cc_starts n \<noteq> zeroDate \<and> Before today (cc_starts n) then ''abre el '' @ formatDate (cc_starts n)
      else if cc_ends n \<noteq> zeroDate \<and> Before (cc_ends n) today then ''cerrado desde el '' @ formatDate (cc_ends n)
      else [])"

definition badCcAncestor :: "date \<Rightarrow> cc_node \<Rightarrow> string option" where
  "badCcAncestor today n =
     (if \<not> cc_active n then Some (''ancestro inactivo: '' @ cc_code n)
      else if windowReason n today \<noteq> [] then Some (''ancestro '' @ cc_code n @ '': '' @ windowReason n today)
      else None)"

definition validateCostCenter :: "cc_tree \<Rightarrow> date \<Rightarrow> int \<Rightarrow> ref_status option" where
  "validateCostCenter t today i = (case look t i of
       None \<Rightarrow> Some (invalid ''no existe'')
     | Some n \<Rightarrow>
         if \<not> cc_active n then Some (invalid ''centro de costo inactivo'')
         else if windowReason n today \<noteq> [] then Some (invalid (windowReason n today))
         else map_option statusOf (climb (look t) cc_parent (badCcAncestor today) brokenReason n))"

section \<open>Asset types\<close>

record asset_type =
  at_ID :: int
  at_Code :: string
  at_Name :: string
  at_Recognition :: string
  at_Outflows :: "string list"
  at_StockMode :: string
  at_Active :: bool

record asset_catalog =
  ac_items :: "asset_type list"
  ac_byID :: "int \<rightharpoonup> asset_type"

definition buildAssetTypes :: "asset_type list \<Rightarrow> asset_catalog" where
  "buildAssetTypes resp = \<lparr>ac_items = resp, ac_byID = fold (\<lambda>a m. m(at_ID a \<mapsto> a)) resp Map.empty\<rparr>"

section \<open>The sub-clients\<close>

type_synonym client = "(cc_tree, asset_catalog) div_client"

definition costCentersFor ::
    "(cost_center list, cc_tree, 'a ctx_scheme) call_env \<Rightarrow> 'a ctx_scheme \<Rightarrow> client \<Rightarrow> (div_error + cc_tree) \<times> client" where
  "costCentersFor e ctx c = (case snapshotFor (dc_ttl c) buildCostCenters e ctx (dc_ccCache c) (dc_tokens c) of
       (r, cache, ts) \<Rightarrow> (r, c\<lparr>dc_ccCache := cache, dc_tokens := ts\<rparr>))"

definition assetTypesFor ::
    "(asset_type list, asset_catalog, 'a ctx_scheme) call_env \<Rightarrow> 'a ctx_scheme \<Rightarrow> client \<Rightarrow> (div_error + asset_catalog) \<times> client" where
  "assetTypesFor e ctx c = (case snapshotFor (dc_ttl c) buildAssetTypes e ctx (dc_atCache c) (dc_tokens c) of
       (r, cache, ts) \<Rightarrow> (r, c\<lparr>dc_atCache := cache, dc_tokens := ts\<rparr>))"

definition ccValidateRefs ::
    "(cost_center list, cc_tree, 'a ctx_scheme) call_env \<Rightarrow> 'a ctx_scheme \<Rightarrow> wall \<Rightarrow> int list \<Rightarrow> client
       \<Rightarrow> ((div_error + (int \<rightharpoonup> ref_status)) \<times> client) option" where
  "ccValidateRefs e ctx now ids c = onSnapshot (costCentersFor e ctx c)
     (\<lambda>t. map_option Inr (validateAll (validateCostCenter t (civil now)) ids Map.empty))"

definition ccSubtree where
  "ccSubtree e ctx root c = onSnapshot (costCentersFor e ctx c) (\<lambda>t. subtreeOf t root)"

definition ccPath where
  "ccPath e ctx i c = onSnapshot (costCentersFor e ctx c) (\<lambda>t. Some (pathOf cc_parent cc_code t i))"

definition anchorOf :: "cc_tree \<Rightarrow> int \<Rightarrow> div_error + int" where
  "anchorOf t i = (case look t i of None \<Rightarrow> Inl (ErrNotFound i) | Some n \<Rightarrow> Inr (cc_anchor n))"

definition Anchor where
  "Anchor e ctx i c = onSnapshot (costCentersFor e ctx c) (\<lambda>t. Some (anchorOf t i))"

definition validateAsset :: "asset_catalog \<Rightarrow> int \<Rightarrow> ref_status" where
  "validateAsset cat i = (case ac_byID cat i of
       None \<Rightarrow> invalid ''no existe''
     | Some a \<Rightarrow> if \<not> at_Active a then invalid ''tipo de activo inactivo'' else validRef)"

definition atValidateRefs where
  "atValidateRefs e ctx ids c = onSnapshot (assetTypesFor e ctx c)
     (\<lambda>cat. map_option Inr (validateAll (Some \<circ> validateAsset cat) ids Map.empty))"

definition getAsset :: "asset_catalog \<Rightarrow> int \<Rightarrow> div_error + asset_type" where
  "getAsset cat i = (case ac_byID cat i of None \<Rightarrow> Inl (ErrNotFound i) | Some a \<Rightarrow> Inr a)"

definition atGet where
  "atGet e ctx i c = onSnapshot (assetTypesFor e ctx c) (\<lambda>cat. Some (getAsset cat i))"

definition atList where
  "atList e ctx c = onSnapshot (assetTypesFor e ctx c) (\<lambda>cat. Some (Inr (ac_items cat)))"

text \<open>\<open>CheckCoherence\<close> over the two primitives of a \<open>Catalogs\<close>, here the client: \<open>Anchor\<close>, then \<open>Subtree\<close>.\<close>

definition CheckCoherence ::
    "(int \<Rightarrow> 'c \<Rightarrow> ((div_error + int) \<times> 'c) option) \<Rightarrow> (int \<Rightarrow> 'c \<Rightarrow> ((div_error + int list) \<times> 'c) option)
       \<Rightarrow> int \<Rightarrow> int \<Rightarrow> 'c \<Rightarrow> ((div_error + bool) \<times> 'c) option" where
  "CheckCoherence anchor subtree divisionID costCenterID c = (case anchor costCenterID c of
       None \<Rightarrow> None
     | Some (Inl err, c1) \<Rightarrow> Some (Inl err, c1)
     | Some (Inr a, c1) \<Rightarrow> (case subtree a c1 of
           None \<Rightarrow> None
         | Some (Inl err, c2) \<Rightarrow> Some (Inl err, c2)
         | Some (Inr ids, c2) \<Rightarrow> Some (Inr (divisionID \<in> set ids), c2)))"

text \<open>The sub-clients of the \<open>Stub\<close>.\<close>

definition stubCcValidateRefs :: "int list \<Rightarrow> div_error + (int \<rightharpoonup> ref_status)" where
  "stubCcValidateRefs ids = Inl ErrNotConfigured"

definition stubCcSubtree :: "int \<Rightarrow> div_error + int list" where
  "stubCcSubtree root = Inl ErrNotConfigured"

definition stubCcPath :: "int \<Rightarrow> div_error + string" where
  "stubCcPath i = Inl ErrNotConfigured"

definition stubAnchor :: "int \<Rightarrow> div_error + int" where
  "stubAnchor i = Inl ErrNotConfigured"

definition stubAtValidateRefs :: "int list \<Rightarrow> div_error + (int \<rightharpoonup> ref_status)" where
  "stubAtValidateRefs ids = Inl ErrNotConfigured"

definition stubGet :: "int \<Rightarrow> div_error + asset_type" where
  "stubGet i = Inl ErrNotConfigured"

definition stubList :: "div_error + asset_type list" where
  "stubList = Inl ErrNotConfigured"

section \<open>A valid cost centre\<close>

definition openOn :: "date \<Rightarrow> cc_node \<Rightarrow> bool" where
  "openOn today n \<longleftrightarrow> (cc_starts n = zeroDate \<or> cc_starts n \<le> today) \<and> (cc_ends n = zeroDate \<or> today \<le> cc_ends n)"

lemma windowReason_Nil: "windowReason n today = [] \<longleftrightarrow> openOn today n"
  by (auto simp: windowReason_def openOn_def Before_def not_less)

text \<open>
  The reason names the date as the core wrote it. A cost centre refused for its window is told
  the very text of the date it was stored with: reading a date and formatting it again is the identity
  on every text that was read, and a text that was not read limits nothing.
\<close>

theorem window_reason_quotes_the_date:
  "windowReason (toCcNode cc) today \<in>
     {[], ''abre el '' @ pc_StartsOn cc, ''cerrado desde el '' @ pc_EndsOn cc}"
proof -
  have "formatDate (parseDate s) = s" if "parseDate s \<noteq> zeroDate" for s
    using that format_parse [of s] by (auto simp: parseDate_def split: if_splits option.splits)
  then show ?thesis by (auto simp: windowReason_def toCcNode_def)
qed

text \<open>
  A cost centre is valid exactly when the whole of its chain is in force today. When the answer
  comes, it is valid exactly if the chain of parents ends in a root and every node of it, the cost
  centre included, is active and has its window open on the day, both ends included, with an absent
  or unreadable date for no limit.
\<close>

theorem cost_center_valid_iff_chain_open:
  assumes "validateCostCenter t today i = Some r"
  shows "rs_Valid r \<longleftrightarrow> (\<exists>p. lineage (look t) cc_parent i p
     \<and> list_all (\<lambda>j. cc_active (the (look t j)) \<and> openOn today (the (look t j))) p)"
proof (cases "look t i")
  case None
  then show ?thesis using assms by (auto simp: validateCostCenter_def elim: lineageE)
next
  case (Some n)
  have good: "badCcAncestor today m = None \<longleftrightarrow> cc_active m \<and> openOn today m" for m
    using windowReason_Nil [of m today] by (auto simp: badCcAncestor_def)
  show ?thesis
    unfolding list_all_iff chain_split [where nodes = "look t" and good = "\<lambda>n. cc_active n \<and> openOn today n", OF Some]
    using climb_decides [of "look t" cc_parent "badCcAncestor today" brokenReason n _ i] assms Some good windowReason_Nil [of n today]
    by (auto simp: validateCostCenter_def split: if_splits)
qed

section \<open>Coherence of a pair\<close>

text \<open>
  A division and a cost centre are coherent exactly when the anchor of the cost centre is the
  division or one of its ancestors. On a response of distinct divisions, with an anchor that is in
  the tree and reaches a root, \<open>CheckCoherence\<close> answers, and answers what \<open>Ancestors\<close> of the division says.
\<close>

theorem CheckCoherence_is_ancestry:
  assumes "Anchor e1 ctx costCenterID c = Some (Inr a, c1)"
    and "treeFor e2 ctx c1 = (Inr (buildTree resp), c2)"
    and "distinct (map dv_Id resp)" and "ancestorsOf (buildTree resp) a = Inr chain"
  shows "CheckCoherence (Anchor e1 ctx) (Subtree e2 ctx) divisionID costCenterID c
     = Some (Inr (\<exists>ids. ancestorsOf (buildTree resp) divisionID = Inr ids \<and> a \<in> set ids), c2)"
proof -
  let ?t = "buildTree resp"
  have "lineage (look ?t) nd_parent a (rev chain)" using assms(4) by (simp add: ancestorsOf_Inr)
  from subtreeOf_under [OF build_tree_children [OF assms(3)] this] obtain out where
    out: "subtreeOf ?t a = Some (Inr out)" "set out = {d. under (look ?t) nd_parent a d}" by blast
  moreover have "under (look ?t) nd_parent a divisionID \<longleftrightarrow> (\<exists>ids. ancestorsOf ?t divisionID = Inr ids \<and> a \<in> set ids)"
    unfolding under_def ancestorsOf_Inr by (metis rev_rev_ident set_rev)
  ultimately show ?thesis
    using assms(1,2) by (simp add: CheckCoherence_def Subtree_def onSnapshot_def)
qed

section \<open>Asset types\<close>

lemma byID_last: "ac_byID (buildAssetTypes resp) i = map_of (rev (map (\<lambda>a. (at_ID a, a)) resp)) i"
  by (induction resp rule: rev_induct) (auto simp: buildAssetTypes_def)

text \<open>An old article keeps its type: \<open>Get\<close> answers for inactive types, \<open>ValidateRefs\<close> refuses them.\<close>

lemma getAsset_inactive:
  assumes "distinct (map at_ID resp)" and "a \<in> set resp"
  shows "getAsset (buildAssetTypes resp) (at_ID a) = Inr a
     \<and> (rs_Valid (validateAsset (buildAssetTypes resp) (at_ID a)) \<longleftrightarrow> at_Active a)"
proof -
  have "map_of (rev (map (\<lambda>a. (at_ID a, a)) resp)) (at_ID a) = Some a"
    using assms by (intro map_of_is_SomeI) (auto simp: comp_def rev_map [symmetric])
  then show ?thesis by (simp add: getAsset_def validateAsset_def byID_last validRef_def)
qed

section \<open>Witnesses\<close>

definition sample_centers :: "cost_center list" where
  "sample_centers =
     [\<lparr>pc_Id = 7, pc_ParentId = 0, pc_DivisionId = 1, pc_Code = ''PLANT'', pc_Active = True, pc_StartsOn = ''2026-01-01'', pc_EndsOn = []\<rparr>,
      \<lparr>pc_Id = 8, pc_ParentId = 7, pc_DivisionId = 2, pc_Code = ''LINE'', pc_Active = True, pc_StartsOn = [], pc_EndsOn = []\<rparr>]"

lemma sample_center:
  "look (buildCostCenters sample_centers) 7 = Some \<lparr>cc_parent = 0, cc_anchor = 1, cc_code = ''PLANT'', cc_active = True,
     cc_starts = (2026, 1, 1), cc_ends = zeroDate\<rparr>"
proof -
  have "timeParse ''2026-01-01'' = Some (2026, 1, 1)" by code_simp
  then show ?thesis
    by (simp add: buildCostCenters_def look_build sample_centers_def toCcNode_def parseDate_def)
qed

theorem cost_center_valid_iff_chain_open_witness:
  "\<not> rs_Valid (the (validateCostCenter (buildCostCenters sample_centers) (2025, 12, 31) 7))"
proof -
  have "\<exists>r. validateCostCenter (buildCostCenters sample_centers) (2025, 12, 31) 7 = Some r"
    by (simp add: validateCostCenter_def sample_center climb_root)
  then obtain r where r: "validateCostCenter (buildCostCenters sample_centers) (2025, 12, 31) 7 = Some r" by blast
  have "\<not> openOn (2025, 12, 31) (the (look (buildCostCenters sample_centers) 7))"
    by (simp add: sample_center openOn_def zeroDate_def)
  with cost_center_valid_iff_chain_open [OF r] r show ?thesis by (auto simp: list_all_iff dest: lineage_hd)
qed

definition sample_at :: "time \<Rightarrow> 'r \<Rightarrow> ('r, 's, ctx) call_env" where
  "sample_at now r = \<lparr>ce_now = now, ce_token = sample_tenv, ce_api = (\<lambda>_. Inr r), ce_others = id, ce_stored = now\<rparr>"

theorem CheckCoherence_is_ancestry_witness:
  "\<exists>c. CheckCoherence (Anchor (sample_at 0 sample_centers) (WithTenant background ''acme''))
        (Subtree (sample_at 0 sample_divisions) (WithTenant background ''acme'')) 2 7 (DialDivisions []) = Some (Inr True, c)"
proof -
  let ?ctx = "WithTenant background ''acme''"
  have out: "Outgoing None e ?ctx Audience = (Inr ?ctx, None)" for e
    by (simp add: Outgoing_def incomingBearer_def WithTenant_def background_def)
  have "\<exists>c1. Anchor (sample_at 0 sample_centers) ?ctx 7 (DialDivisions []) = Some (Inr 1, c1) \<and> dc_cache c1 = Map.empty \<and> dc_tokens c1 = None"
    by (simp add: Anchor_def costCentersFor_def snapshotFor_def freshSnapshot_def fetchSnapshot_def storeSnapshot_def sample_at_def DialDivisions_def out onSnapshot_def anchorOf_def sample_center)
  then obtain c1 where c1: "Anchor (sample_at 0 sample_centers) ?ctx 7 (DialDivisions []) = Some (Inr 1, c1)"
    "dc_cache c1 = Map.empty" "dc_tokens c1 = None" by blast
  then have "fst (treeFor (sample_at 0 sample_divisions) ?ctx c1) = Inr (buildTree sample_divisions)"
    by (simp add: treeFor_def snapshotFor_def freshSnapshot_def fetchSnapshot_def storeSnapshot_def sample_at_def out)
  then obtain c2 where "treeFor (sample_at 0 sample_divisions) ?ctx c1 = (Inr (buildTree sample_divisions), c2)"
    by (metis prod.collapse)
  moreover have "distinct (map dv_Id sample_divisions)" by (simp add: sample_divisions_def)
  ultimately show ?thesis
    using CheckCoherence_is_ancestry [OF c1(1) _ _ sample_chain(1), of "sample_at 0 sample_divisions" c2 2] sample_chain(2) by auto
qed

end
