(* ===== verification/Refinement.thy ===== *)
theory Refinement
  imports Main
begin

text \<open>
  The interface of a data refinement: a component whose operations, under its invariant, answer and
  move exactly as an abstract specification does. A component of the kit that has such a
  specification interprets \<open>simulation\<close>; what holds of the specification over any sequence of
  operations then holds of the component.
\<close>

fun runWith :: "('e \<Rightarrow> 's \<Rightarrow> 's \<times> 'o) \<Rightarrow> 'e list \<Rightarrow> 's \<Rightarrow> 's \<times> 'o list" where
  "runWith step [] s = (s, [])"
| "runWith step (e # es) s = (case step e s of (s1, o1) \<Rightarrow> (case runWith step es s1 of (s2, os) \<Rightarrow> (s2, o1 # os)))"

lemma runWith_append:
  "runWith step (es @ fs) s = (case runWith step es s of (s1, o1) \<Rightarrow>
     (case runWith step fs s1 of (s2, o2) \<Rightarrow> (s2, o1 @ o2)))"
  by (induction es arbitrary: s) (auto split: prod.splits)

lemma runWith_invariant:
  assumes "\<And>e s. e \<in> set es \<Longrightarrow> P s \<Longrightarrow> P (fst (step e s))" and "P s"
  shows "P (fst (runWith step es s))"
  using assms
proof (induction es arbitrary: s)
  case (Cons e es)
  then have "P (fst (step e s))" by simp
  with Cons.IH [of "fst (step e s)"] Cons.prems(1) show ?case by (auto split: prod.splits)
qed simp

locale simulation =
  fixes inv :: "'s \<Rightarrow> bool" and abs :: "'s \<Rightarrow> 'a"
    and step :: "'e \<Rightarrow> 's \<Rightarrow> 's \<times> 'o" and spec :: "'e \<Rightarrow> 'a \<Rightarrow> 'a \<times> 'o"
    and ok :: "'e \<Rightarrow> bool"
  assumes inv_step: "inv s \<Longrightarrow> ok e \<Longrightarrow> inv (fst (step e s))"
    and refines: "inv s \<Longrightarrow> ok e \<Longrightarrow> spec e (abs s) = (abs (fst (step e s)), snd (step e s))"
begin

lemma inv_run: "inv s \<Longrightarrow> list_all ok es \<Longrightarrow> inv (fst (runWith step es s))"
  by (rule runWith_invariant) (auto simp: list_all_iff inv_step)

lemma refines_run:
  "inv s \<Longrightarrow> list_all ok es \<Longrightarrow>
     runWith spec es (abs s) = (abs (fst (runWith step es s)), snd (runWith step es s))"
proof (induction es arbitrary: s)
  case (Cons e es)
  then have "inv (fst (step e s))" "list_all ok es" by (simp_all add: inv_step)
  from Cons.IH [OF this] refines [of s e] Cons.prems show ?case
    by (simp split: prod.splits)
qed simp

end

end
