(* ===== verification/Tenancy_Pools.thy ===== *)
theory Tenancy_Pools
  imports Tenant_Ctx Refinement "HOL-Library.AList" "HOL-Library.Multiset"
begin

text \<open>
  The registry of connection pools (\<open>src/tenancy/pools.go\<close>): one pool per tenant, a linked list in order
  of use and a map from tenants to its elements, with eviction past the limit and a reaper of idle
  pools. Elements of the list live in a store, as the map and the list share them. A pool is a number,
  and an operation also answers the pools it closes; opening one (\<open>connect\<close>, the pgx library) is done
  outside the lock, so that a \<open>Get\<close> is two locked sections with anything of other goroutines between.
\<close>

section \<open>The registry\<close>

type_synonym pool = nat

record pool_entry =
  pe_tenant :: string
  pe_pool :: pool
  pe_lastUsed :: time

record pools =
  po_limit :: nat
  po_idleClose :: duration
  po_order :: "nat list"
  po_entries :: "(string \<times> nat) list"
  po_elems :: "nat \<Rightarrow> pool_entry"
  po_next :: nat

definition noEntry :: pool_entry where
  "noEntry = \<lparr>pe_tenant = [], pe_pool = 0, pe_lastUsed = 0\<rparr>"

definition NewPoolsWithSettings :: "int \<Rightarrow> duration \<Rightarrow> pools" where
  "NewPoolsWithSettings limit idleClose =
     \<lparr>po_limit = nat (if limit < 1 then 1 else limit), po_idleClose = idleClose,
      po_order = [], po_entries = [], po_elems = (\<lambda>_. noEntry), po_next = 0\<rparr>"

definition useElem :: "nat \<Rightarrow> time \<Rightarrow> pools \<Rightarrow> pools" where
  "useElem el now p = p\<lparr>po_order := el # remove1 el (po_order p),
     po_elems := (po_elems p)(el := (po_elems p el)\<lparr>pe_lastUsed := now\<rparr>)\<rparr>"

text \<open>The first locked section of \<open>get\<close>.\<close>

definition lookupPool :: "string \<Rightarrow> bool \<Rightarrow> time \<Rightarrow> pools \<Rightarrow> pool option \<times> pools" where
  "lookupPool tenant use now p = (case map_of (po_entries p) tenant of
       Some el \<Rightarrow> (Some (pe_pool (po_elems p el)), if use then useElem el now p else p)
     | None \<Rightarrow> (None, p))"

definition removeElem :: "nat \<Rightarrow> pools \<Rightarrow> pools" where
  "removeElem el p = p\<lparr>po_order := remove1 el (po_order p),
     po_entries := AList.delete (pe_tenant (po_elems p el)) (po_entries p)\<rparr>"

function evictLocked :: "pools \<Rightarrow> pools \<times> pool list" where
  "evictLocked p =
     (if po_limit p < length (po_order p) then
        let oldest = last (po_order p) in
        (case evictLocked (removeElem oldest p) of (p', closed) \<Rightarrow> (p', pe_pool (po_elems p oldest) # closed))
      else (p, []))"
  by pat_completeness auto
termination
proof (relation "measure (\<lambda>p. length (po_order p))")
  fix p :: pools and oldest
  assume "po_limit p < length (po_order p)" "oldest = last (po_order p)"
  moreover from this have "last (po_order p) \<in> set (po_order p)" by (intro last_in_set) auto
  ultimately show "(removeElem oldest p, p) \<in> measure (\<lambda>p. length (po_order p))"
    by (auto simp: removeElem_def length_remove1)
qed simp

declare evictLocked.simps [simp del]

text \<open>The second locked section: the pool just opened loses to one that another goroutine installed.\<close>

definition installPool :: "string \<Rightarrow> bool \<Rightarrow> time \<Rightarrow> pool \<Rightarrow> pools \<Rightarrow> pool \<times> pools \<times> pool list" where
  "installPool tenant use now new p = (case map_of (po_entries p) tenant of
       Some el \<Rightarrow> (pe_pool (po_elems p el), if use then useElem el now p else p, [new])
     | None \<Rightarrow>
         let el = po_next p;
             p1 = p\<lparr>po_order := el # po_order p, po_entries := AList.update tenant el (po_entries p),
                    po_elems := (po_elems p)(el := \<lparr>pe_tenant = tenant, pe_pool = new, pe_lastUsed = now\<rparr>),
                    po_next := Suc el\<rparr>;
             (p2, closed) = evictLocked p1
         in (new, p2, closed))"

text \<open>\<open>get\<close>: \<open>resolve\<close> gives the DSN, \<open>connect\<close> a new pool, \<open>others\<close> is what happens meanwhile.\<close>

datatype pool_error = ErrNoTenant | ResolveFailed string | ConnectFailed string

definition getPool ::
    "(string \<Rightarrow> string + string) \<Rightarrow> (string \<Rightarrow> string + pool) \<Rightarrow> (pools \<Rightarrow> pools) \<Rightarrow> string \<Rightarrow> bool \<Rightarrow> time \<Rightarrow> time
       \<Rightarrow> pools \<Rightarrow> (pool_error + pool) \<times> pools \<times> pool list" where
  "getPool resolve connect others tenant use now now' p =
     (if tenant = [] then (Inl ErrNoTenant, p, [])
      else (case lookupPool tenant use now p of
          (Some pool, p') \<Rightarrow> (Inr pool, p', [])
        | (None, p') \<Rightarrow> (case resolve tenant of
              Inl err \<Rightarrow> (Inl (ResolveFailed err), p', [])
            | Inr dsn \<Rightarrow> (case connect dsn of
                  Inl err \<Rightarrow> (Inl (ConnectFailed err), p', [])
                | Inr new \<Rightarrow> (case installPool tenant use now' new (others p') of
                      (pool, p2, closed) \<Rightarrow> (Inr pool, p2, closed))))))"

definition Get where
  "Get resolve connect others tenant = getPool resolve connect others tenant True"

definition GetBackground where
  "GetBackground resolve connect others tenant = getPool resolve connect others tenant False"

definition KnownTenants :: "pools \<Rightarrow> string list" where
  "KnownTenants p = map fst (po_entries p)"

text \<open>\<open>reapIdle\<close> walks the list from the back; \<open>busy\<close> are the pools with borrowed connections.\<close>

definition idle :: "time \<Rightarrow> pool list \<Rightarrow> duration \<Rightarrow> pool_entry \<Rightarrow> bool" where
  "idle now busy limit e \<longleftrightarrow> limit \<le> now - pe_lastUsed e \<and> pe_pool e \<notin> set busy"

fun reapFrom :: "time \<Rightarrow> pool list \<Rightarrow> nat list \<Rightarrow> pools \<Rightarrow> pools \<times> pool list" where
  "reapFrom now busy [] p = (p, [])"
| "reapFrom now busy (el # els) p =
     (if idle now busy (po_idleClose p) (po_elems p el)
      then (case reapFrom now busy els (removeElem el p) of (p', closed) \<Rightarrow> (p', pe_pool (po_elems p el) # closed))
      else reapFrom now busy els p)"

definition reapIdle :: "time \<Rightarrow> pool list \<Rightarrow> pools \<Rightarrow> pools \<times> pool list" where
  "reapIdle now busy p = reapFrom now busy (rev (po_order p)) p"

definition closePools :: "pools \<Rightarrow> pools \<times> pool list" where
  "closePools p = (p\<lparr>po_entries := [], po_order := []\<rparr>, map (\<lambda>(t, el). pe_pool (po_elems p el)) (po_entries p))"

text \<open>How often the reaper looks.\<close>

definition reapEvery :: "duration \<Rightarrow> duration" where
  "reapEvery idleClose = max (idleClose div 4) (100 * Millisecond)"

section \<open>Locked sections as steps\<close>

datatype pool_event = Lookup string bool time | Install string bool time pool | ReapTick time "pool list" | CloseAll

text \<open>Pools are closed in the background, so only how often each is closed counts.\<close>

type_synonym pool_answer = "pool option \<times> pool multiset"

definition poolStep :: "pool_event \<Rightarrow> pools \<Rightarrow> pools \<times> pool_answer" where
  "poolStep ev p = (case ev of
       Lookup t use now \<Rightarrow> (case lookupPool t use now p of (r, p') \<Rightarrow> (p', (r, {#})))
     | Install t use now new \<Rightarrow> (case installPool t use now new p of (r, p', closed) \<Rightarrow> (p', (Some r, mset closed)))
     | ReapTick now busy \<Rightarrow> (case reapIdle now busy p of (p', closed) \<Rightarrow> (p', (None, mset closed)))
     | CloseAll \<Rightarrow> (case closePools p of (p', closed) \<Rightarrow> (p', (None, mset closed))))"

section \<open>The specification\<close>

text \<open>A cache of entries, the last used first.\<close>

record lru =
  lr_limit :: nat
  lr_idle :: duration
  lr_entries :: "pool_entry list"

definition entryOf :: "string \<Rightarrow> pool_entry list \<Rightarrow> pool_entry option" where
  "entryOf t es = find (\<lambda>e. pe_tenant e = t) es"

definition promote :: "string \<Rightarrow> time \<Rightarrow> pool_entry list \<Rightarrow> pool_entry list" where
  "promote t now es = (case entryOf t es of
       None \<Rightarrow> es
     | Some e \<Rightarrow> e\<lparr>pe_lastUsed := now\<rparr> # filter (\<lambda>e. pe_tenant e \<noteq> t) es)"

fun lruStep :: "pool_event \<Rightarrow> lru \<Rightarrow> lru \<times> pool_answer" where
  "lruStep (Lookup t use now) l =
     (l\<lparr>lr_entries := (if use then promote t now (lr_entries l) else lr_entries l)\<rparr>,
      (map_option pe_pool (entryOf t (lr_entries l)), {#}))"
| "lruStep (Install t use now new) l = (case entryOf t (lr_entries l) of
       Some e \<Rightarrow> (l\<lparr>lr_entries := (if use then promote t now (lr_entries l) else lr_entries l)\<rparr>, (Some (pe_pool e), {#new#}))
     | None \<Rightarrow>
         let es = \<lparr>pe_tenant = t, pe_pool = new, pe_lastUsed = now\<rparr> # lr_entries l
         in (l\<lparr>lr_entries := take (lr_limit l) es\<rparr>, (Some new, image_mset pe_pool (mset (drop (lr_limit l) es)))))"
| "lruStep (ReapTick now busy) l =
     (l\<lparr>lr_entries := filter (\<lambda>e. \<not> idle now busy (lr_idle l) e) (lr_entries l)\<rparr>,
      (None, image_mset pe_pool (mset (filter (idle now busy (lr_idle l)) (lr_entries l)))))"
| "lruStep CloseAll l = (l\<lparr>lr_entries := []\<rparr>, (None, image_mset pe_pool (mset (lr_entries l))))"

section \<open>The registry refines the cache\<close>

text \<open>The list and the map hold the same elements, one per tenant.\<close>

definition shared :: "pools \<Rightarrow> bool" where
  "shared p \<longleftrightarrow> distinct (po_order p) \<and> (\<forall>el \<in> set (po_order p). el < po_next p) \<and> distinct (map fst (po_entries p))
     \<and> (\<forall>t el. map_of (po_entries p) t = Some el \<longleftrightarrow> el \<in> set (po_order p) \<and> pe_tenant (po_elems p el) = t)"

definition poolInv :: "pools \<Rightarrow> bool" where
  "poolInv p \<longleftrightarrow> shared p \<and> length (po_order p) \<le> po_limit p \<and> 1 \<le> po_limit p"

definition cacheOf :: "pools \<Rightarrow> lru" where
  "cacheOf p = \<lparr>lr_limit = po_limit p, lr_idle = po_idleClose p, lr_entries = map (po_elems p) (po_order p)\<rparr>"

lemma sharedD:
  assumes "shared p"
  shows "distinct (po_order p)" "el \<in> set (po_order p) \<Longrightarrow> el < po_next p"
    "distinct (map fst (po_entries p))"
    "map_of (po_entries p) t = Some el \<longleftrightarrow> el \<in> set (po_order p) \<and> pe_tenant (po_elems p el) = t"
  using assms by (auto simp: shared_def)

lemma shared_tenant:
  "shared p \<Longrightarrow> el \<in> set (po_order p) \<Longrightarrow> x \<in> set (po_order p) \<Longrightarrow>
     pe_tenant (po_elems p x) = pe_tenant (po_elems p el) \<longleftrightarrow> x = el"
  using sharedD(4) [of p "pe_tenant (po_elems p el)"] by (metis option.inject)

lemma entryOf_order:
  assumes "shared p"
  shows "entryOf t (map (po_elems p) (po_order p)) = map_option (po_elems p) (map_of (po_entries p) t)"
proof (cases "map_of (po_entries p) t")
  case None
  then have "\<forall>e \<in> set (map (po_elems p) (po_order p)). pe_tenant e \<noteq> t"
    using sharedD(4) [OF assms, of t] by (metis imageE image_set option.distinct(1))
  then show ?thesis using None by (simp add: entryOf_def find_None_iff)
next
  case (Some el)
  then have el: "el \<in> set (po_order p)" "pe_tenant (po_elems p el) = t" using sharedD(4) [OF assms] by auto
  have "entryOf t (map (po_elems p) els) = Some (po_elems p el)"
    if "el \<in> set els" "set els \<subseteq> set (po_order p)" for els
    using that
  proof (induction els)
    case (Cons x els)
    then show ?case
      using shared_tenant [OF assms el(1), of x] el(2) by (cases "x = el") (auto simp: entryOf_def)
  qed simp
  with el Some show ?thesis by simp
qed

lemma remove1_map:
  assumes "shared p" and "el \<in> set (po_order p)"
  shows "map (po_elems p) (remove1 el (po_order p))
     = filter (\<lambda>e. pe_tenant e \<noteq> pe_tenant (po_elems p el)) (map (po_elems p) (po_order p))"
proof -
  have "filter ((\<lambda>e. pe_tenant e \<noteq> pe_tenant (po_elems p el)) \<circ> po_elems p) (po_order p) = filter (\<lambda>x. x \<noteq> el) (po_order p)"
    using shared_tenant [OF assms] by (intro filter_cong) auto
  then show ?thesis
    using sharedD(1) [OF assms(1)] by (simp add: filter_map distinct_remove1_removeAll removeAll_filter_not_eq neq_commute)
qed

lemma shared_useElem:
  assumes "shared p" and "el \<in> set (po_order p)"
  shows "shared (useElem el now p)"
proof -
  have set: "set (el # remove1 el (po_order p)) = set (po_order p)" using assms sharedD(1) by auto
  have "distinct (el # remove1 el (po_order p))" using sharedD(1) [OF assms(1)] by simp
  moreover have "pe_tenant (po_elems (useElem el now p) x) = pe_tenant (po_elems p x)" for x by (simp add: useElem_def)
  ultimately show ?thesis
    using assms(1) set unfolding shared_def by (auto simp: useElem_def simp del: set_remove1_eq distinct.simps split: if_splits)
qed

lemma cacheOf_useElem:
  assumes "shared p" and "map_of (po_entries p) t = Some el"
  shows "cacheOf (useElem el now p) = cacheOf p\<lparr>lr_entries := promote t now (lr_entries (cacheOf p))\<rparr>"
proof -
  have el: "el \<in> set (po_order p)" "pe_tenant (po_elems p el) = t" using sharedD(4) [OF assms(1)] assms(2) by auto
  have "map ((po_elems p)(el := x)) (remove1 el (po_order p)) = map (po_elems p) (remove1 el (po_order p))" for x
    using sharedD(1) [OF assms(1)] by (intro map_cong) auto
  with remove1_map [OF assms(1) el(1)] el(2) show ?thesis
    by (simp add: cacheOf_def useElem_def promote_def entryOf_order [OF assms(1)] assms(2))
qed

lemma shared_removeElem:
  assumes "shared p" and "el \<in> set (po_order p)"
  shows "shared (removeElem el p)"
proof -
  have "map_of (AList.delete (pe_tenant (po_elems p el)) (po_entries p)) t = Some x
      \<longleftrightarrow> x \<in> set (remove1 el (po_order p)) \<and> pe_tenant (po_elems p x) = t" for t x
    using sharedD(1,4) [OF assms(1)] shared_tenant [OF assms] by (auto simp: AList.delete_conv')
  moreover have "distinct (map fst (AList.delete (pe_tenant (po_elems p el)) (po_entries p)))"
    using sharedD(3) [OF assms(1)] by (rule AList.distinct_delete)
  ultimately show ?thesis
    using assms(1) sharedD(1) [OF assms(1)] unfolding shared_def
    by (auto simp: removeElem_def simp del: set_remove1_eq dest: notin_set_remove1 in_set_remove1 intro: distinct_remove1 elim: notin_set_remove1)
qed

lemma removeElem_simps [simp]:
  "po_order (removeElem el p) = remove1 el (po_order p)" "po_elems (removeElem el p) = po_elems p"
  "po_limit (removeElem el p) = po_limit p" "po_idleClose (removeElem el p) = po_idleClose p"
  "po_next (removeElem el p) = po_next p"
  by (simp_all add: removeElem_def)

lemma evictLocked_spec:
  assumes "shared p"
  shows "\<exists>p' closed. evictLocked p = (p', closed) \<and> shared p' \<and> po_order p' = take (po_limit p) (po_order p)
     \<and> po_elems p' = po_elems p \<and> po_limit p' = po_limit p \<and> po_idleClose p' = po_idleClose p
     \<and> mset closed = image_mset pe_pool (mset (map (po_elems p) (drop (po_limit p) (po_order p))))"
  using assms
proof (induction p rule: evictLocked.induct)
  case (1 p)
  show ?case
  proof (cases "po_limit p < length (po_order p)")
    case False
    with "1.prems" show ?thesis by (simp add: evictLocked.simps [of p])
  next
    case True
    then obtain els x where els: "po_order p = els @ [x]" by (cases "po_order p" rule: rev_cases) auto
    then have x: "remove1 x (els @ [x]) = els" "x \<in> set (po_order p)"
      using sharedD(1) [OF "1.prems"] by (auto simp: remove1_append)
    have "shared (removeElem x p)" by (rule shared_removeElem [OF "1.prems" x(2)])
    from "1.IH" [OF True _ ] els this obtain p' closed where "evictLocked (removeElem x p) = (p', closed)" "shared p'"
      "po_order p' = take (po_limit p) els" "po_elems p' = po_elems p" "po_limit p' = po_limit p" "po_idleClose p' = po_idleClose p"
      "mset closed = image_mset pe_pool (mset (map (po_elems p) (drop (po_limit p) els)))" unfolding removeElem_simps els x(1) by (auto simp: x(1))
    with True els show ?thesis by (simp add: evictLocked.simps [of p])
  qed
qed

lemma installPool_new:
  assumes "shared p" and "map_of (po_entries p) t = None"
  shows "\<exists>p' closed. installPool t use now new p = (new, p', closed) \<and> shared p' \<and> length (po_order p') \<le> po_limit p'
     \<and> po_limit p' = po_limit p
     \<and> lruStep (Install t use now new) (cacheOf p) = (cacheOf p', Some new, mset closed)"
proof -
  let ?el = "po_next p"
  let ?elems = "(po_elems p)(?el := \<lparr>pe_tenant = t, pe_pool = new, pe_lastUsed = now\<rparr>)"
  let ?p1 = "p\<lparr>po_order := ?el # po_order p, po_entries := AList.update t ?el (po_entries p), po_elems := ?elems, po_next := Suc ?el\<rparr>"
  have fresh: "x \<in> set (po_order p) \<Longrightarrow> x \<noteq> ?el" for x using sharedD(2) [OF assms(1)] by blast
  have absent: "x \<in> set (po_order p) \<Longrightarrow> pe_tenant (po_elems p x) \<noteq> t" for x
    using sharedD(4) [OF assms(1), of t x] assms(2) by auto
  have "map_of (AList.update t ?el (po_entries p)) u = Some x
      \<longleftrightarrow> (x = ?el \<or> x \<in> set (po_order p)) \<and> pe_tenant (?elems x) = u" for u x
    using sharedD(4) [OF assms(1)] fresh absent by (auto simp: AList.update_conv')
  moreover have "distinct (?el # po_order p)" using sharedD(1) [OF assms(1)] fresh by auto
  moreover have "distinct (map fst (AList.update t ?el (po_entries p)))"
    using sharedD(3) [OF assms(1)] by (rule AList.distinct_update)
  ultimately have "shared ?p1"
    using sharedD(2) [OF assms(1)] unfolding shared_def by (auto simp: less_SucI)
  from evictLocked_spec [OF this] obtain p' closed where p': "evictLocked ?p1 = (p', closed)" "shared p'"
    "po_order p' = take (po_limit p) (?el # po_order p)" "po_elems p' = ?elems" "po_limit p' = po_limit p" "po_idleClose p' = po_idleClose p"
    "mset closed = image_mset pe_pool (mset (map ?elems (drop (po_limit p) (?el # po_order p))))" by auto
  have old: "map ?elems (po_order p) = map (po_elems p) (po_order p)" using fresh by (intro map_cong) auto
  have "map ?elems (take k (?el # po_order p)) = take k (?elems ?el # map (po_elems p) (po_order p))"
    "map ?elems (drop k (?el # po_order p)) = drop k (?elems ?el # map (po_elems p) (po_order p))" for k
    unfolding take_map [symmetric] drop_map [symmetric] list.map old by simp_all
  with p' assms show ?thesis
    by (auto simp: installPool_def Let_def cacheOf_def entryOf_order [OF assms(1)] split: prod.splits)
qed

lemma reapFrom_spec:
  assumes "shared p" and "set els \<subseteq> set (po_order p)" and "distinct els"
  shows "shared (fst (reapFrom now busy els p))
     \<and> po_order (fst (reapFrom now busy els p))
         = filter (\<lambda>el. el \<notin> set els \<or> \<not> idle now busy (po_idleClose p) (po_elems p el)) (po_order p)
     \<and> po_elems (fst (reapFrom now busy els p)) = po_elems p
     \<and> po_limit (fst (reapFrom now busy els p)) = po_limit p
     \<and> po_idleClose (fst (reapFrom now busy els p)) = po_idleClose p
     \<and> snd (reapFrom now busy els p)
         = map (\<lambda>el. pe_pool (po_elems p el)) (filter (\<lambda>el. idle now busy (po_idleClose p) (po_elems p el)) els)"
  using assms
proof (induction els arbitrary: p)
  case (Cons el els)
  show ?case
  proof (cases "idle now busy (po_idleClose p) (po_elems p el)")
    case False
    then have "filter (\<lambda>x. x \<notin> set (el # els) \<or> \<not> idle now busy (po_idleClose p) (po_elems p x)) (po_order p)
        = filter (\<lambda>x. x \<notin> set els \<or> \<not> idle now busy (po_idleClose p) (po_elems p x)) (po_order p)"
      by (intro filter_cong) auto
    with False Cons.IH [of p] Cons.prems show ?thesis by simp
  next
    case True
    let ?p = "removeElem el p"
    have el: "el \<in> set (po_order p)" using Cons.prems by simp
    have sub: "set els \<subseteq> set (po_order ?p)" using Cons.prems sharedD(1) [OF Cons.prems(1)] by auto
    have "filter (\<lambda>x. x \<notin> set els \<or> \<not> idle now busy (po_idleClose p) (po_elems p x)) (remove1 el (po_order p))
        = filter (\<lambda>x. x \<notin> set (el # els) \<or> \<not> idle now busy (po_idleClose p) (po_elems p x)) (po_order p)"
      unfolding distinct_remove1_removeAll [OF sharedD(1) [OF Cons.prems(1)]] removeAll_filter_not_eq
      using True Cons.prems(3) by (auto intro!: filter_cong)
    with True Cons.IH [OF shared_removeElem [OF Cons.prems(1) el] sub] Cons.prems(3) show ?thesis
      by (simp add: split_def)
  qed
qed simp

lemma reapIdle_spec:
  assumes "shared p"
  shows "shared (fst (reapIdle now busy p)) \<and> length (po_order (fst (reapIdle now busy p))) \<le> length (po_order p)
     \<and> po_limit (fst (reapIdle now busy p)) = po_limit p
     \<and> lruStep (ReapTick now busy) (cacheOf p) = (cacheOf (fst (reapIdle now busy p)), None, mset (snd (reapIdle now busy p)))"
proof -
  have "filter (\<lambda>el. el \<notin> set (rev (po_order p)) \<or> \<not> idle now busy (po_idleClose p) (po_elems p el)) (po_order p)
      = filter (\<lambda>el. \<not> idle now busy (po_idleClose p) (po_elems p el)) (po_order p)" by (intro filter_cong) auto
  with reapFrom_spec [OF assms, of "rev (po_order p)" now busy] sharedD(1) [OF assms] show ?thesis
    by (simp add: reapIdle_def cacheOf_def filter_map comp_def rev_filter [symmetric] rev_map [symmetric]
        image_mset.compositionality)
qed

lemma closePools_spec:
  assumes "shared p"
  shows "shared (fst (closePools p))
     \<and> lruStep CloseAll (cacheOf p) = (cacheOf (fst (closePools p)), None, mset (snd (closePools p)))"
proof -
  have "mset (map snd (po_entries p)) = mset (po_order p)"
  proof (rule set_eq_iff_mset_eq_distinct [THEN iffD1])
    have "inj_on fst (set (po_entries p))" using sharedD(3) [OF assms] by (simp add: distinct_map)
    have "t = t'" if "(t, el) \<in> set (po_entries p)" "(t', el) \<in> set (po_entries p)" for t t' el
      using that sharedD(4) [OF assms] sharedD(3) [OF assms] by (metis map_of_is_SomeI)
    then show "distinct (map snd (po_entries p))"
      using sharedD(3) [OF assms] by (auto simp: distinct_map inj_on_def)
    show "distinct (po_order p)" by (rule sharedD(1) [OF assms])
    have "el \<in> snd ` set (po_entries p) \<longleftrightarrow> (\<exists>t. map_of (po_entries p) t = Some el)" for el
      using sharedD(3) [OF assms] by (force dest: map_of_SomeD)
    then show "set (map snd (po_entries p)) = set (po_order p)" using sharedD(4) [OF assms] by auto
  qed
  then have "image_mset (\<lambda>el. pe_pool (po_elems p el)) (mset (map snd (po_entries p)))
      = image_mset (\<lambda>el. pe_pool (po_elems p el)) (mset (po_order p))" by simp
  then show ?thesis
    by (simp add: closePools_def cacheOf_def shared_def split_def image_mset.compositionality comp_def)
qed

lemma poolStep_spec:
  assumes "poolInv p"
  shows "poolInv (fst (poolStep ev p)) \<and> lruStep ev (cacheOf p) = (cacheOf (fst (poolStep ev p)), snd (poolStep ev p))"
proof -
  have p: "shared p" "length (po_order p) \<le> po_limit p" "1 \<le> po_limit p" using assms by (simp_all add: poolInv_def)
  have use: "shared (useElem el now p)" "length (po_order (useElem el now p)) = length (po_order p)" "po_limit (useElem el now p) = po_limit p"
    "cacheOf (useElem el now p) = cacheOf p\<lparr>lr_entries := promote t now (lr_entries (cacheOf p))\<rparr>"
    if "map_of (po_entries p) t = Some el" for t el now
  proof -
    have "el \<in> set (po_order p)" using sharedD(4) [OF p(1)] that by simp
    then show "shared (useElem el now p)" "length (po_order (useElem el now p)) = length (po_order p)"
        "po_limit (useElem el now p) = po_limit p"
      using shared_useElem [OF p(1)] length_pos_if_in_set [of el "po_order p"]
      by (auto simp: useElem_def length_remove1)
    show "cacheOf (useElem el now p) = cacheOf p\<lparr>lr_entries := promote t now (lr_entries (cacheOf p))\<rparr>"
      by (rule cacheOf_useElem [OF p(1) that])
  qed
  have entry: "entryOf t (lr_entries (cacheOf p)) = map_option (po_elems p) (map_of (po_entries p) t)" for t
    using entryOf_order [OF p(1)] by (simp add: cacheOf_def)
  have same: "cacheOf p\<lparr>lr_entries := lr_entries (cacheOf p)\<rparr> = cacheOf p" by simp
  show ?thesis
  proof (cases ev)
    case (Lookup t u now)
    then show ?thesis
      using p use [of t] entry by (cases "map_of (po_entries p) t") (auto simp: poolStep_def lookupPool_def poolInv_def promote_def)
  next
    case (Install t u now new)
    show ?thesis
    proof (cases "map_of (po_entries p) t")
      case None
      from installPool_new [OF p(1) None, of u now new] p(3) Install show ?thesis
        by (auto simp: poolStep_def poolInv_def simp del: lruStep.simps)
    next
      case (Some el)
      with p use [OF Some] entry [of t] Install show ?thesis
        by (auto simp: poolStep_def installPool_def poolInv_def)
    qed
  next
    case (ReapTick now busy)
    with reapIdle_spec [OF p(1), of now busy] p show ?thesis by (auto simp: poolStep_def poolInv_def split: prod.splits)
  next
    case CloseAll
    with closePools_spec [OF p(1)] p show ?thesis by (auto simp: poolStep_def poolInv_def closePools_def)
  qed
qed

interpretation registry: simulation poolInv cacheOf poolStep lruStep "\<lambda>_. True"
  by unfold_locales (use poolStep_spec in \<open>auto split: prod.splits\<close>)

lemma poolInv_new: "poolInv (NewPoolsWithSettings limit idleClose)"
  by (auto simp: poolInv_def shared_def NewPoolsWithSettings_def le_nat_iff)

section \<open>What the registry promises\<close>

definition installs :: "pool_event list \<Rightarrow> (string \<times> pool) list" where
  "installs evs = concat (map (\<lambda>ev. case ev of Install t _ _ new \<Rightarrow> [(t, new)] | _ \<Rightarrow> []) evs)"

lemma installs_simps [simp]:
  "installs [] = []" "installs (ev # evs) = (case ev of Install t u now new \<Rightarrow> [(t, new)] | _ \<Rightarrow> []) @ installs evs"
  "installs (evs @ evs') = installs evs @ installs evs'"
  by (simp_all add: installs_def)

definition closedIn :: "pool_answer list \<Rightarrow> pool multiset" where
  "closedIn answers = \<Sum>\<^sub># (mset (map snd answers))"

text \<open>The invariants of the specification.\<close>

definition oneEach :: "pool_entry list \<Rightarrow> bool" where
  "oneEach es \<longleftrightarrow> distinct (map pe_tenant es)"

lemma entryOf_Some: "entryOf t es = Some e \<Longrightarrow> e \<in> set es \<and> pe_tenant e = t"
  by (auto simp: entryOf_def find_Some_iff)

lemma entryOf_None: "entryOf t es = None \<longleftrightarrow> t \<notin> pe_tenant ` set es"
  by (auto simp: entryOf_def find_None_iff)

definition pairOf :: "pool_entry \<Rightarrow> string \<times> pool" where
  "pairOf e = (pe_tenant e, pe_pool e)"

lemma pairOf_proj: "map pe_tenant es = map fst (map pairOf es)" "map pe_pool es = map snd (map pairOf es)"
  by (simp_all add: pairOf_def)

lemma same_pairs:
  assumes "mset (map pairOf es') = mset (map pairOf es)"
  shows "oneEach es' \<longleftrightarrow> oneEach es" and "length es' = length es" and "mset (map pe_pool es') = mset (map pe_pool es)"
    and "pairOf ` set es' = pairOf ` set es"
proof -
  have f: "mset (map f (map pairOf es')) = mset (map f (map pairOf es))" for f
    using assms by (metis mset_map)
  show "oneEach es' \<longleftrightarrow> oneEach es"
    unfolding oneEach_def pairOf_proj by (rule mset_eq_imp_distinct_iff [OF f])
  show "length es' = length es" using mset_eq_length [OF assms] by simp
  show "mset (map pe_pool es') = mset (map pe_pool es)" unfolding pairOf_proj by (rule f)
  show "pairOf ` set es' = pairOf ` set es" using mset_eq_setD [OF assms] by simp
qed

lemma others_filter: "oneEach es \<Longrightarrow> e \<in> set es \<Longrightarrow> filter (\<lambda>x. pe_tenant x \<noteq> pe_tenant e) es = remove1 e es"
proof (induction es)
  case (Cons x es)
  show ?case
  proof (cases "x = e")
    case True
    with Cons.prems(1) have "\<forall>y \<in> set es. pe_tenant y \<noteq> pe_tenant e"
      unfolding oneEach_def by (metis distinct.simps(2) image_eqI image_set list.simps(9))
    with True show ?thesis by (simp add: filter_id_conv)
  next
    case False
    with Cons.prems have "e \<in> set es" "oneEach es" "pe_tenant x \<noteq> pe_tenant e" by (auto simp: oneEach_def)
    with Cons.IH False show ?thesis by simp
  qed
qed simp

lemma promote_pairs:
  assumes "oneEach es"
  shows "mset (map pairOf (promote t now es)) = mset (map pairOf es)"
proof (cases "entryOf t es")
  case (Some e)
  from entryOf_Some [OF Some] have e: "e \<in> set es" "pe_tenant e = t" by auto
  have "mset (map pairOf (e # remove1 e es)) = mset (map pairOf es)"
    using arg_cong [of "mset (e # remove1 e es)" "mset es" "image_mset pairOf"] e(1) by (simp only: mset_map) simp
  then show ?thesis
    using others_filter [OF assms e(1)] Some e(2) by (simp add: promote_def pairOf_def [of "_\<lparr>pe_lastUsed := now\<rparr>"] pairOf_def [of e])
qed (simp add: promote_def)

text \<open>One step of the specification: where pools come from and where they go.\<close>

definition stepOK :: "pool_event \<Rightarrow> lru \<Rightarrow> lru \<Rightarrow> pool multiset \<Rightarrow> bool" where
  "stepOK ev l l' closed \<longleftrightarrow> oneEach (lr_entries l') \<and> length (lr_entries l') \<le> lr_limit l' \<and> lr_limit l' = lr_limit l
     \<and> mset (map pe_pool (lr_entries l')) + closed = mset (map pe_pool (lr_entries l)) + mset (map snd (installs [ev]))
     \<and> pairOf ` set (lr_entries l') \<subseteq> pairOf ` set (lr_entries l) \<union> set (installs [ev])"

lemma stepOK_same:
  assumes "mset (map pairOf es) = mset (map pairOf (lr_entries l))" and "oneEach (lr_entries l)"
    and "length (lr_entries l) \<le> lr_limit l" and "closed = mset (map snd (installs [ev]))"
  shows "stepOK ev l (l\<lparr>lr_entries := es\<rparr>) closed"
  using same_pairs [OF assms(1)] assms(2-4) by (auto simp: stepOK_def)

lemma lruStep_pools:
  assumes "oneEach (lr_entries l)" and "length (lr_entries l) \<le> lr_limit l" and "lruStep ev l = (l', r, closed)"
  shows "stepOK ev l l' closed"
proof (cases ev)
  case (Lookup t u now)
  have "stepOK ev l (l\<lparr>lr_entries := (if u then promote t now (lr_entries l) else lr_entries l)\<rparr>) {#}"
    by (rule stepOK_same) (use assms promote_pairs [OF assms(1)] Lookup in simp_all)
  with Lookup assms(3) show ?thesis by simp
next
  case (Install t u now new)
  show ?thesis
  proof (cases "entryOf t (lr_entries l)")
    case None
    let ?e = "\<lparr>pe_tenant = t, pe_pool = new, pe_lastUsed = now\<rparr>" and ?n = "lr_limit l"
    let ?es = "?e # lr_entries l"
    from None assms(3) Install have r: "l' = l\<lparr>lr_entries := take ?n ?es\<rparr>"
      "closed = mset (map pe_pool (drop ?n ?es))" by (auto simp: Let_def)
    have "mset (map pe_pool (take ?n ?es)) + mset (map pe_pool (drop ?n ?es)) = mset (map pe_pool ?es)"
      by (metis append_take_drop_id map_append mset_append)
    moreover have "oneEach ?es" using assms(1) None by (simp add: oneEach_def entryOf_None)
    then have "oneEach (take ?n ?es)" by (metis oneEach_def distinct_take take_map)
    moreover have "pairOf ` set (take ?n ?es) \<subseteq> pairOf ` set ?es" by (intro image_mono set_take_subset)
    ultimately show ?thesis
      using Install r by (simp add: stepOK_def pairOf_def [of ?e])
  next
    case (Some e)
    have "stepOK ev l (l\<lparr>lr_entries := (if u then promote t now (lr_entries l) else lr_entries l)\<rparr>) {#new#}"
      by (rule stepOK_same) (use assms promote_pairs [OF assms(1)] Install in simp_all)
    with Install Some assms(3) show ?thesis by simp
  qed
next
  case (ReapTick now busy)
  let ?P = "idle now busy (lr_idle l)"
  from ReapTick assms(3) have r: "l' = l\<lparr>lr_entries := filter (\<lambda>e. \<not> ?P e) (lr_entries l)\<rparr>"
    "closed = mset (map pe_pool (filter ?P (lr_entries l)))" by auto
  have "mset (map pe_pool (filter (\<lambda>e. \<not> P e) es)) + mset (map pe_pool (filter P es)) = mset (map pe_pool es)" for P and es :: "pool_entry list"
    by (induction es) auto
  moreover have "length (filter (\<lambda>e. \<not> ?P e) (lr_entries l)) \<le> lr_limit l"
    using assms(2) by (rule le_trans [OF length_filter_le])
  ultimately show ?thesis
    using assms(1) r ReapTick by (auto simp: stepOK_def oneEach_def distinct_map_filter)
next
  case CloseAll
  with assms show ?thesis by (auto simp: stepOK_def oneEach_def)
qed

text \<open>The registry that a sequence of locked sections leaves, in whatever order goroutines took the lock.\<close>

definition after :: "pool_event list \<Rightarrow> pools \<Rightarrow> pools" where
  "after evs p = fst (runWith poolStep evs p)"

definition answers :: "pool_event list \<Rightarrow> pools \<Rightarrow> pool_answer list" where
  "answers evs p = snd (runWith poolStep evs p)"

lemma after_simps [simp]:
  "after [] p = p" "after (evs @ evs') p = after evs' (after evs p)"
  by (auto simp: after_def runWith_append split: prod.splits)

lemma poolInv_after: "poolInv p \<Longrightarrow> poolInv (after evs p)"
  unfolding after_def by (rule registry.inv_run) (auto simp: list_all_iff)

text \<open>
  C9. The linked list and the map are an LRU cache. Over any order in which goroutines take the lock,
  a new registry answers, closes pools and moves exactly as the plain list of entries does: a use puts
  the tenant first, an installation past the limit drops the last, the reaper filters.
\<close>

theorem registry_is_an_lru_cache:
  "runWith lruStep evs \<lparr>lr_limit = nat (max limit 1), lr_idle = idleClose, lr_entries = []\<rparr>
     = (cacheOf (after evs (NewPoolsWithSettings limit idleClose)), answers evs (NewPoolsWithSettings limit idleClose))"
proof -
  have "cacheOf (NewPoolsWithSettings limit idleClose) = \<lparr>lr_limit = nat (max limit 1), lr_idle = idleClose, lr_entries = []\<rparr>"
    by (simp add: cacheOf_def NewPoolsWithSettings_def max_def)
  with registry.refines_run [OF poolInv_new, of evs limit idleClose] show ?thesis
    by (simp add: after_def answers_def list_all_iff)
qed

lemma lruRun_pools:
  assumes "oneEach (lr_entries l)" and "length (lr_entries l) \<le> lr_limit l" and "runWith lruStep evs l = (l', ans)"
  shows "oneEach (lr_entries l') \<and> length (lr_entries l') \<le> lr_limit l' \<and> lr_limit l' = lr_limit l
     \<and> mset (map pe_pool (lr_entries l')) + closedIn ans = mset (map pe_pool (lr_entries l)) + mset (map snd (installs evs))
     \<and> pairOf ` set (lr_entries l') \<subseteq> pairOf ` set (lr_entries l) \<union> set (installs evs)"
  using assms
proof (induction evs arbitrary: l ans)
  case Nil
  then show ?case by (simp add: closedIn_def)
next
  case (Cons ev evs)
  obtain l1 r closed where l1: "lruStep ev l = (l1, r, closed)" by (metis prod_cases3)
  then obtain ans' where run: "runWith lruStep evs l1 = (l', ans')" "ans = (r, closed) # ans'"
    using Cons.prems(3) by (auto split: prod.splits)
  note step = lruStep_pools [OF Cons.prems(1,2) l1, unfolded stepOK_def]
  from Cons.IH [OF _ _ run(1)] step have rest: "oneEach (lr_entries l')" "length (lr_entries l') \<le> lr_limit l'" "lr_limit l' = lr_limit l1"
    "mset (map pe_pool (lr_entries l')) + closedIn ans' = mset (map pe_pool (lr_entries l1)) + mset (map snd (installs evs))"
    "pairOf ` set (lr_entries l') \<subseteq> pairOf ` set (lr_entries l1) \<union> set (installs evs)" by blast+
  have "closedIn ans = closed + closedIn ans'" using run(2) by (simp add: closedIn_def)
  moreover have inst: "installs (ev # evs) = installs [ev] @ installs evs" by (simp del: installs_simps add: installs_def)
  ultimately have "mset (map pe_pool (lr_entries l')) + closedIn ans
      = mset (map pe_pool (lr_entries l)) + mset (map snd (installs (ev # evs)))"
    using rest(4) step by (simp only: map_append mset_append) (metis add.assoc add.commute)
  moreover have "pairOf ` set (lr_entries l') \<subseteq> pairOf ` set (lr_entries l) \<union> set (installs (ev # evs))"
    unfolding inst set_append using rest(5) step by blast
  ultimately show ?case using rest(1-3) step by (intro conjI) (assumption | metis)+
qed

lemma after_pools:
  assumes "p = after evs (NewPoolsWithSettings limit idleClose)"
  shows "oneEach (lr_entries (cacheOf p)) \<and> int (length (po_order p)) \<le> max limit 1
     \<and> mset (map pe_pool (lr_entries (cacheOf p))) + closedIn (answers evs (NewPoolsWithSettings limit idleClose)) = mset (map snd (installs evs))
     \<and> pairOf ` set (lr_entries (cacheOf p)) \<subseteq> set (installs evs)"
  using lruRun_pools [OF _ _ registry_is_an_lru_cache [of evs limit idleClose]] assms
  by (auto simp: oneEach_def cacheOf_def le_nat_iff max_def)

text \<open>
  C14. No pool leaks, and none is closed while it is held. Over any order of the locked sections, the
  pools in the registry together with the pools closed are exactly the pools opened, each as often as
  it was opened; the registry never holds more than its limit, nor two pools of one tenant, and
  \<open>KnownTenants\<close> are the tenants of the pools it holds.
\<close>

theorem no_pool_leaks:
  assumes "p = after evs (NewPoolsWithSettings limit idleClose)"
  shows "mset (map (\<lambda>el. pe_pool (po_elems p el)) (po_order p)) + closedIn (answers evs (NewPoolsWithSettings limit idleClose))
       = mset (map snd (installs evs))
     \<and> int (length (po_order p)) \<le> max limit 1
     \<and> distinct (KnownTenants p) \<and> mset (KnownTenants p) = mset (map (\<lambda>el. pe_tenant (po_elems p el)) (po_order p))"
proof -
  have "shared p" using poolInv_after [OF poolInv_new] assms by (simp add: poolInv_def)
  then have d: "distinct (KnownTenants p)" by (simp add: KnownTenants_def sharedD)
  have one: "distinct (map (\<lambda>el. pe_tenant (po_elems p el)) (po_order p))"
    using after_pools [OF assms] by (simp add: oneEach_def cacheOf_def comp_def)
  have "t \<in> set (KnownTenants p) \<longleftrightarrow> (\<exists>el. map_of (po_entries p) t = Some el)" for t
    unfolding KnownTenants_def using map_of_eq_None_iff [of "po_entries p" t] by (metis image_set not_None_eq)
  then have "set (KnownTenants p) = set (map (\<lambda>el. pe_tenant (po_elems p el)) (po_order p))"
    using sharedD(4) [OF \<open>shared p\<close>] by auto
  with d one have "mset (KnownTenants p) = mset (map (\<lambda>el. pe_tenant (po_elems p el)) (po_order p))"
    using set_eq_iff_mset_eq_distinct [OF d one] by blast
  with d after_pools [OF assms] show ?thesis by (simp add: cacheOf_def comp_def)
qed

lemma getPool_own:
  assumes "p = after evs (NewPoolsWithSettings limit idleClose)"
    and "getPool resolve connect (after evs') tenant use now now' p = (Inr pool, p', closed)"
  shows "(tenant, pool) \<in> set (installs (evs @ evs'))
     \<or> (\<exists>dsn. resolve tenant = Inr dsn \<and> connect dsn = Inr pool)"
proof -
  have held: "(t, pe_pool (po_elems q el)) \<in> set (installs es)"
    if "q = after es (NewPoolsWithSettings limit idleClose)" "map_of (po_entries q) t = Some el" for q es t el
  proof -
    have "shared q" using poolInv_after [OF poolInv_new] that(1) by (simp add: poolInv_def)
    with that(2) have "el \<in> set (po_order q)" "pe_tenant (po_elems q el) = t" using sharedD(4) by auto
    with after_pools [OF that(1)] show ?thesis by (auto simp: cacheOf_def pairOf_def)
  qed
  show ?thesis
  proof (cases "map_of (po_entries p) tenant")
    case (Some el)
    with assms(2) held [OF assms(1) Some] show ?thesis by (auto simp: getPool_def lookupPool_def split: if_splits)
  next
    case None
    have both: "after evs' p = after (evs @ evs') (NewPoolsWithSettings limit idleClose)" by (simp add: assms(1))
    from None assms(2) obtain dsn new where new: "resolve tenant = Inr dsn" "connect dsn = Inr new"
      "installPool tenant use now' new (after evs' p) = (pool, p', closed)"
      by (auto simp: getPool_def lookupPool_def split: if_splits sum.splits prod.splits)
    show ?thesis
    proof (cases "map_of (po_entries (after evs' p)) tenant")
      case (Some el)
      with new(3) held [OF both Some] show ?thesis by (simp add: installPool_def)
    next
      case None
      with new show ?thesis by (auto simp: installPool_def Let_def split: prod.splits)
    qed
  qed
qed

text \<open>
  C34. A tenant is only ever handed its own pools. Whatever the registry went through before, and
  whatever other goroutines do between the two locked sections, \<open>Get\<close> and \<open>GetBackground\<close> answer for a
  tenant a pool that was opened for that tenant: by an earlier call, or by this one with the DSN that
  its tenant resolves to.
\<close>

theorem Get_never_crosses_tenants:
  assumes "p = after evs (NewPoolsWithSettings limit idleClose)"
    and "getPool resolve connect (after evs') tenant use now now' p = (Inr pool, p', closed)"
  shows "(tenant, pool) \<in> set (installs (evs @ evs'))
     \<or> (\<exists>dsn. resolve tenant = Inr dsn \<and> connect dsn = Inr pool)"
  by (rule getPool_own [OF assms])

section \<open>Witnesses\<close>

theorem no_pool_leaks_witness:
  "closedIn (answers [Install ''a'' True 0 1, Install ''b'' True 1 2] (NewPoolsWithSettings 1 0)) = {#1#}"
proof -
  have "po_order (after [Install ''a'' True 0 1, Install ''b'' True 1 2] (NewPoolsWithSettings 1 0)) = [1]
     \<and> pe_pool (po_elems (after [Install ''a'' True 0 1, Install ''b'' True 1 2] (NewPoolsWithSettings 1 0)) 1) = 2"
    by (simp add: after_def poolStep_def installPool_def NewPoolsWithSettings_def evictLocked.simps removeElem_def)
  with no_pool_leaks [OF refl, of "[Install ''a'' True 0 1, Install ''b'' True 1 2]" 1 0] show ?thesis
    by (simp add: add_mset_commute [of 2])
qed

theorem Get_never_crosses_tenants_witness:
  "(''a'', 1) \<in> set (installs [Install ''a'' True 0 1])
     \<or> (\<exists>dsn. (Inr ''db_a'' :: string + string) = Inr dsn \<and> (Inr 9 :: string + pool) = Inr 1)"
proof -
  have "getPool (\<lambda>_. Inr ''db_a'') (\<lambda>_. Inr 9) (after []) ''a'' True 5 6 (after [Install ''a'' True 0 1] (NewPoolsWithSettings 2 0))
     = (Inr 1, useElem 0 5 (after [Install ''a'' True 0 1] (NewPoolsWithSettings 2 0)), [])"
    by (simp add: getPool_def lookupPool_def after_def poolStep_def installPool_def NewPoolsWithSettings_def evictLocked.simps)
  from Get_never_crosses_tenants [OF refl this] show ?thesis by simp
qed

end
