(* ===== verification/Tenancy_Config.thy ===== *)
theory Tenancy_Config
  imports Tenant_Ctx
begin

text \<open>
  Where a tenant's database is and how its pool is sized: the slug rule and the DSN of a tenant
  (\<open>TemplateResolver\<close> of \<open>src/tenancy/pools.go\<close>) and the pool settings of the environment
  (\<open>src/tenancy/poolconfig.go\<close>). URLs are those of \<open>net/url\<close>, taken as a record of the operations the
  kit calls; no law about them is assumed.
\<close>

section \<open>Text\<close>

text \<open>\<open>strings.ReplaceAll\<close> of a non-empty text, from the left and without overlaps.\<close>

function ReplaceAll :: "string \<Rightarrow> string \<Rightarrow> string \<Rightarrow> string" where
  "ReplaceAll s old new =
     (if s = [] \<or> old = [] then s
      else if prefix old s then new @ ReplaceAll (drop (length old) s) old new
      else hd s # ReplaceAll (tl s) old new)"
  by pat_completeness auto
termination
  by (relation "measure (\<lambda>(s, _, _). length s)") (auto simp: neq_Nil_conv)

declare ReplaceAll.simps [simp del]

definition slugMark :: string where
  "slugMark = ''{slug}''"

definition hasSlugMark :: "string \<Rightarrow> bool" where
  "hasSlugMark s \<longleftrightarrow> sublist slugMark s"

definition slugChar :: "char \<Rightarrow> bool" where
  "slugChar c \<longleftrightarrow> (let b = byte c in (97 \<le> b \<and> b \<le> 122) \<or> (65 \<le> b \<and> b \<le> 90) \<or> (48 \<le> b \<and> b \<le> 57) \<or> b = 95 \<or> b = 45)"

definition validSlug :: "string \<Rightarrow> bool" where
  "validSlug s \<longleftrightarrow> s \<noteq> [] \<and> list_all slugChar s"

section \<open>The DSN of a tenant\<close>

record 'u url_lib =
  ul_Parse :: "string \<Rightarrow> string + 'u"
  ul_Path :: "'u \<Rightarrow> string"
  ul_setPath :: "string \<Rightarrow> 'u \<Rightarrow> 'u"
  ul_queryGet :: "'u \<Rightarrow> string \<Rightarrow> string"
  ul_querySet :: "string \<Rightarrow> string \<Rightarrow> 'u \<Rightarrow> 'u"
  ul_queryDel :: "string \<Rightarrow> 'u \<Rightarrow> 'u"
  ul_String :: "'u \<Rightarrow> string"

datatype dsn_error = NoTenantInContext | NotASlug string | NoSlugMark | InvalidDSN string | SlugNotInDatabase

definition withSearchPath :: "'u url_lib \<Rightarrow> string \<Rightarrow> string \<Rightarrow> dsn_error + string" where
  "withSearchPath U dsn schema = (case ul_Parse U dsn of
       Inl reason \<Rightarrow> Inl (InvalidDSN reason)
     | Inr u \<Rightarrow> Inr (ul_String U (ul_querySet U ''options'' (''-csearch_path='' @ schema) u)))"

record template_resolver =
  tr_Template :: string
  tr_Schema :: string

definition Resolve :: "'u url_lib \<Rightarrow> template_resolver \<Rightarrow> string \<Rightarrow> dsn_error + string" where
  "Resolve U r tenantID =
     (if tenantID = [] then Inl NoTenantInContext
      else if \<not> validSlug tenantID then Inl (NotASlug tenantID)
      else if \<not> hasSlugMark (tr_Template r) then Inl NoSlugMark
      else withSearchPath U (ReplaceAll (tr_Template r) slugMark tenantID) (tr_Schema r))"

section \<open>Pool settings\<close>

record pool_settings =
  ps_MaxConns :: int
  ps_MinConns :: int
  ps_MaxIdle :: duration
  ps_MaxLifetime :: duration
  ps_HealthPeriod :: duration
  ps_IdleClose :: duration
  ps_AppName :: string

definition DefaultPoolSettings :: pool_settings where
  "DefaultPoolSettings = \<lparr>ps_MaxConns = 3, ps_MinConns = 0, ps_MaxIdle = 2 * Minute, ps_MaxLifetime = 30 * Minute,
     ps_HealthPeriod = Minute, ps_IdleClose = 10 * Minute, ps_AppName = []\<rparr>"

text \<open>The environment and the conversion to \<open>int32\<close>; \<open>time.ParseDuration\<close> is an argument.\<close>

type_synonym env = "string \<Rightarrow> string"

definition wrap32 :: "int \<Rightarrow> int" where
  "wrap32 x = (x + 2147483648) mod 4294967296 - 2147483648"

definition envInt :: "env \<Rightarrow> string \<Rightarrow> int option" where
  "envInt env key = (if env key = [] then None else goAtoi (env key))"

definition envDuration :: "(string \<Rightarrow> duration option) \<Rightarrow> env \<Rightarrow> string \<Rightarrow> duration option" where
  "envDuration parse env key = (if env key = [] then None
     else (case parse (env key) of None \<Rightarrow> None | Some d \<Rightarrow> if 0 \<le> d then Some d else None))"

text \<open>
  \<open>podAppName\<close>. The two expressions are anchored and their last parts cannot contain a dash, so that a
  match splits the name at its last dashes; a part \<open>(.+)\<close> is any non-empty text without a newline.
\<close>

definition lowerAlnum :: "char \<Rightarrow> bool" where
  "lowerAlnum c \<longleftrightarrow> (let b = byte c in (97 \<le> b \<and> b \<le> 122) \<or> (48 \<le> b \<and> b \<le> 57))"

definition dash :: char where
  "dash = CHR ''-''"

definition beforeLast :: "char \<Rightarrow> string \<Rightarrow> string option" where
  "beforeLast d s = (if d \<in> set s then Some (take (length s - length (afterLast d s) - 1) s) else None)"

definition anyText :: "string \<Rightarrow> bool" where
  "anyText s \<longleftrightarrow> s \<noteq> [] \<and> CHR 0x0A \<notin> set s"

definition deploymentPod :: "string \<Rightarrow> string option" where
  "deploymentPod s = (case beforeLast dash s of
       None \<Rightarrow> None
     | Some s1 \<Rightarrow> (case beforeLast dash s1 of
           None \<Rightarrow> None
         | Some app \<Rightarrow>
             let pod = afterLast dash s; hash = afterLast dash s1 in
             if list_all lowerAlnum pod \<and> length pod = 5 \<and> list_all lowerAlnum hash \<and> 8 \<le> length hash \<and> length hash \<le> 10
                \<and> anyText app then Some app else None))"

definition statefulSetPod :: "string \<Rightarrow> string option" where
  "statefulSetPod s = (case beforeLast dash s of
       None \<Rightarrow> None
     | Some app \<Rightarrow>
         let ordinal = afterLast dash s in
         if list_all isDigit ordinal \<and> ordinal \<noteq> [] \<and> anyText app then Some app else None)"

definition podAppName :: "string \<Rightarrow> string" where
  "podAppName hostname = (case deploymentPod hostname of
       Some app \<Rightarrow> app
     | None \<Rightarrow> (case statefulSetPod hostname of Some app \<Rightarrow> app | None \<Rightarrow> []))"

definition AppNameFromEnv :: "env \<Rightarrow> string \<Rightarrow> string" where
  "AppNameFromEnv env hostname =
     (if env ''STRIX_APP_NAME'' \<noteq> [] then env ''STRIX_APP_NAME''
      else if env ''NATS_SERVICE_NAME'' \<noteq> [] then env ''NATS_SERVICE_NAME''
      else podAppName hostname)"

definition setIf :: "'a option \<Rightarrow> ('a \<Rightarrow> bool) \<Rightarrow> ('a \<Rightarrow> 's \<Rightarrow> 's) \<Rightarrow> 's \<Rightarrow> 's" where
  "setIf v p upd s = (case v of None \<Rightarrow> s | Some x \<Rightarrow> if p x then upd x s else s)"

definition connSettings :: "env \<Rightarrow> pool_settings" where
  "connSettings env =
     (let s1 = setIf (envInt env ''STRIX_DB_POOL_MAX_CONNS'') (\<lambda>v. 1 \<le> v) (\<lambda>v s. s\<lparr>ps_MaxConns := wrap32 v\<rparr>) DefaultPoolSettings;
          s2 = setIf (envInt env ''STRIX_DB_POOL_MIN_CONNS'') (\<lambda>v. 0 \<le> v) (\<lambda>v s. s\<lparr>ps_MinConns := wrap32 v\<rparr>) s1
      in if ps_MaxConns s2 < ps_MinConns s2 then s2\<lparr>ps_MinConns := ps_MaxConns s2\<rparr> else s2)"

definition timeSettings :: "(string \<Rightarrow> duration option) \<Rightarrow> env \<Rightarrow> pool_settings \<Rightarrow> pool_settings" where
  "timeSettings parse env s =
     setIf (envDuration parse env ''STRIX_DB_POOL_IDLE_CLOSE'') (\<lambda>_. True) (\<lambda>v s. s\<lparr>ps_IdleClose := v\<rparr>)
     (setIf (envDuration parse env ''STRIX_DB_POOL_HEALTH_PERIOD'') (\<lambda>v. 0 < v) (\<lambda>v s. s\<lparr>ps_HealthPeriod := v\<rparr>)
     (setIf (envDuration parse env ''STRIX_DB_POOL_MAX_LIFETIME'') (\<lambda>_. True) (\<lambda>v s. s\<lparr>ps_MaxLifetime := v\<rparr>)
     (setIf (envDuration parse env ''STRIX_DB_POOL_MAX_IDLE'') (\<lambda>_. True) (\<lambda>v s. s\<lparr>ps_MaxIdle := v\<rparr>) s)))"

definition PoolSettingsFromEnv :: "(string \<Rightarrow> duration option) \<Rightarrow> env \<Rightarrow> string \<Rightarrow> pool_settings" where
  "PoolSettingsFromEnv parse env hostname =
     (timeSettings parse env (connSettings env))\<lparr>ps_AppName := AppNameFromEnv env hostname\<rparr>"

text \<open>The fields of a pgx pool configuration that \<open>apply\<close> writes.\<close>

record pgx_config =
  px_MaxConns :: int
  px_MinConns :: int
  px_MaxConnIdleTime :: duration
  px_MaxConnLifetime :: duration
  px_HealthCheckPeriod :: duration
  px_RuntimeParams :: "string \<rightharpoonup> string"

definition applySettings :: "pool_settings \<Rightarrow> pgx_config \<Rightarrow> pgx_config" where
  "applySettings s cfg =
     (let cfg' = cfg\<lparr>px_MaxConns := ps_MaxConns s, px_MinConns := ps_MinConns s, px_MaxConnIdleTime := ps_MaxIdle s,
           px_MaxConnLifetime := ps_MaxLifetime s, px_HealthCheckPeriod := ps_HealthPeriod s\<rparr>
      in if ps_AppName s \<noteq> [] \<and> px_RuntimeParams cfg ''application_name'' = None
         then cfg'\<lparr>px_RuntimeParams := (px_RuntimeParams cfg)(''application_name'' \<mapsto> ps_AppName s)\<rparr> else cfg')"

section \<open>The tenant cannot change the shape of its DSN\<close>

definition shape :: "string \<Rightarrow> string" where
  "shape s = filter (\<lambda>c. \<not> slugChar c) s"

lemma shape_ReplaceAll:
  "list_all slugChar new \<Longrightarrow> shape (ReplaceAll s old new) = shape (ReplaceAll s old [])"
proof (induction s old new rule: ReplaceAll.induct)
  case (1 s old new)
  have "shape (new @ r) = shape r" for r
    using "1.prems" by (simp add: shape_def list_all_iff)
  then show ?case
    using 1 unfolding ReplaceAll.simps [of s old] by (auto simp: shape_def)
qed

text \<open>
  C22. The tenant id cannot alter the connection it names. A tenant that \<open>Resolve\<close> accepts consists of
  letters, digits, \<open>_\<close> and \<open>-\<close>; every other character of the text that is parsed, each separator of a
  URL among them, stands where the template has it, and the search path is the schema of the Core.
\<close>

theorem Resolve_keeps_the_shape:
  assumes "Resolve U r tenantID = Inr dsn"
  shows "validSlug tenantID
     \<and> (\<exists>text u. text = ReplaceAll (tr_Template r) slugMark tenantID \<and> ul_Parse U text = Inr u
          \<and> dsn = ul_String U (ul_querySet U ''options'' (''-csearch_path='' @ tr_Schema r) u)
          \<and> filter (\<lambda>c. \<not> slugChar c) text = filter (\<lambda>c. \<not> slugChar c) (ReplaceAll (tr_Template r) slugMark []))"
proof -
  from assms have "validSlug tenantID" by (auto simp: Resolve_def split: if_splits)
  moreover from this have "shape (ReplaceAll (tr_Template r) slugMark tenantID) = shape (ReplaceAll (tr_Template r) slugMark [])"
    by (intro shape_ReplaceAll) (simp add: validSlug_def)
  ultimately show ?thesis
    using assms by (auto simp: Resolve_def withSearchPath_def shape_def split: if_splits sum.splits)
qed

section \<open>The name of the application\<close>

lemma afterLast_append: "d \<notin> set t \<Longrightarrow> afterLast d (s @ d # t) = t"
  by (simp add: afterLast_def takeWhile_append takeWhile_idem)

lemma beforeLast_append: "d \<notin> set t \<Longrightarrow> beforeLast d (s @ d # t) = Some s"
  by (simp add: beforeLast_def afterLast_append)

lemma afterLast_split: "d \<in> set s \<Longrightarrow> \<exists>r. s = r @ d # afterLast d s \<and> beforeLast d s = Some r"
proof -
  assume "d \<in> set s"
  then obtain r t where s: "s = r @ d # t" "d \<notin> set t" by (metis split_list_last)
  then show ?thesis by (simp add: afterLast_append beforeLast_append)
qed

lemma no_dash: "list_all lowerAlnum s \<Longrightarrow> dash \<notin> set s" "list_all isDigit s \<Longrightarrow> dash \<notin> set s"
  by (auto simp: list_all_iff lowerAlnum_def isDigit_def dash_def Let_def)

text \<open>
  A pod tells its application. Appending to a name what Kubernetes appends to the name of a
  Deployment, a ReplicaSet hash of eight to ten and a suffix of five, or the ordinal of a StatefulSet
  to a name that does not itself look like a Deployment's pod, \<open>podAppName\<close> gives the name back.
\<close>

theorem podAppName_recovers_the_app:
  assumes "anyText app"
  shows "(list_all lowerAlnum hash \<and> 8 \<le> length hash \<and> length hash \<le> 10 \<and> list_all lowerAlnum sfx \<and> length sfx = 5 \<longrightarrow>
            podAppName (app @ dash # hash @ dash # sfx) = app)
       \<and> (list_all isDigit n \<and> n \<noteq> [] \<and> deploymentPod (app @ dash # n) = None \<longrightarrow> podAppName (app @ dash # n) = app)"
proof -
  have "podAppName (app @ dash # hash @ dash # sfx) = app"
    if "list_all lowerAlnum hash" "8 \<le> length hash" "length hash \<le> 10" "list_all lowerAlnum sfx" "length sfx = 5"
    using that assms no_dash(1) [OF that(1)] no_dash(1) [OF that(4)]
      beforeLast_append [of dash sfx "app @ dash # hash"] afterLast_append [of dash sfx "app @ dash # hash"]
    by (simp add: podAppName_def deploymentPod_def beforeLast_append afterLast_append)
  moreover have "podAppName (app @ dash # n) = app"
    if "list_all isDigit n" "n \<noteq> []" "deploymentPod (app @ dash # n) = None"
    using that assms no_dash(2) [OF that(1)]
    by (simp add: podAppName_def statefulSetPod_def beforeLast_append afterLast_append)
  ultimately show ?thesis by blast
qed

section \<open>Settings stay sane\<close>

lemma setIf_keeps:
  "P s \<Longrightarrow> (\<And>x. v = Some x \<Longrightarrow> p x \<Longrightarrow> P s \<Longrightarrow> P (upd x s)) \<Longrightarrow> P (setIf v p upd s)"
  by (cases v) (auto simp: setIf_def)

lemma setIf_None [simp]: "setIf None p upd s = s"
  by (simp add: setIf_def)

definition soundConns :: "pool_settings \<Rightarrow> bool" where
  "soundConns s \<longleftrightarrow> 1 \<le> ps_MaxConns s \<and> 0 \<le> ps_MinConns s \<and> ps_MinConns s \<le> ps_MaxConns s"

definition soundTimes :: "pool_settings \<Rightarrow> bool" where
  "soundTimes s \<longleftrightarrow> 0 \<le> ps_MaxIdle s \<and> 0 \<le> ps_MaxLifetime s \<and> 0 < ps_HealthPeriod s \<and> 0 \<le> ps_IdleClose s"

lemma envDuration_nonneg: "envDuration parse env key = Some d \<Longrightarrow> 0 \<le> d"
  by (auto simp: envDuration_def split: if_splits option.splits)

lemma wrap32_id: "0 \<le> v \<Longrightarrow> v < 2147483648 \<Longrightarrow> wrap32 v = v"
  by (simp add: wrap32_def)

lemma setIf_conns [simp]:
  fixes g :: "int \<Rightarrow> int"
  shows "ps_MaxIdle (setIf v p (\<lambda>v s. s\<lparr>ps_MaxConns := g v\<rparr>) s) = ps_MaxIdle s"
    "ps_MaxIdle (setIf v p (\<lambda>v s. s\<lparr>ps_MinConns := g v\<rparr>) s) = ps_MaxIdle s"
    "ps_MaxLifetime (setIf v p (\<lambda>v s. s\<lparr>ps_MaxConns := g v\<rparr>) s) = ps_MaxLifetime s"
    "ps_MaxLifetime (setIf v p (\<lambda>v s. s\<lparr>ps_MinConns := g v\<rparr>) s) = ps_MaxLifetime s"
    "ps_HealthPeriod (setIf v p (\<lambda>v s. s\<lparr>ps_MaxConns := g v\<rparr>) s) = ps_HealthPeriod s"
    "ps_HealthPeriod (setIf v p (\<lambda>v s. s\<lparr>ps_MinConns := g v\<rparr>) s) = ps_HealthPeriod s"
    "ps_IdleClose (setIf v p (\<lambda>v s. s\<lparr>ps_MaxConns := g v\<rparr>) s) = ps_IdleClose s"
    "ps_IdleClose (setIf v p (\<lambda>v s. s\<lparr>ps_MinConns := g v\<rparr>) s) = ps_IdleClose s"
  by (simp_all add: setIf_def split: option.split)

lemma connSettings_conns:
  assumes "\<And>v. envInt env ''STRIX_DB_POOL_MAX_CONNS'' = Some v \<Longrightarrow> v < 2147483648"
    and "\<And>v. envInt env ''STRIX_DB_POOL_MIN_CONNS'' = Some v \<Longrightarrow> v < 2147483648"
  shows "soundConns (connSettings env)"
proof -
  define s1 where "s1 = setIf (envInt env ''STRIX_DB_POOL_MAX_CONNS'') (\<lambda>v. 1 \<le> v) (\<lambda>v s. s\<lparr>ps_MaxConns := wrap32 v\<rparr>) DefaultPoolSettings"
  define s2 where "s2 = setIf (envInt env ''STRIX_DB_POOL_MIN_CONNS'') (\<lambda>v. 0 \<le> v) (\<lambda>v s. s\<lparr>ps_MinConns := wrap32 v\<rparr>) s1"
  have "1 \<le> ps_MaxConns s1 \<and> 0 \<le> ps_MinConns s1"
    unfolding s1_def using assms(1) by (auto simp: setIf_def DefaultPoolSettings_def wrap32_id split: option.split)
  then have "1 \<le> ps_MaxConns s2 \<and> 0 \<le> ps_MinConns s2"
    unfolding s2_def using assms(2) by (auto simp: setIf_def wrap32_id split: option.split)
  then show ?thesis unfolding connSettings_def s1_def [symmetric] s2_def [symmetric] Let_def by (simp add: soundConns_def)
qed

lemma connSettings_times:
  "ps_MaxIdle (connSettings env) = 2 * Minute \<and> ps_MaxLifetime (connSettings env) = 30 * Minute
     \<and> ps_HealthPeriod (connSettings env) = Minute \<and> ps_IdleClose (connSettings env) = 10 * Minute"
  by (simp add: connSettings_def Let_def) (simp add: DefaultPoolSettings_def)

lemma connSettings_default:
  "envInt env ''STRIX_DB_POOL_MAX_CONNS'' = None \<Longrightarrow> ps_MaxConns (connSettings env) = 3"
proof -
  assume none: "envInt env ''STRIX_DB_POOL_MAX_CONNS'' = None"
  have "ps_MaxConns (if ps_MaxConns s < ps_MinConns s then s\<lparr>ps_MinConns := ps_MaxConns s\<rparr> else s) = ps_MaxConns s" for s :: pool_settings
    by simp
  moreover have "ps_MaxConns (setIf v p (\<lambda>v s. s\<lparr>ps_MinConns := g v\<rparr>) DefaultPoolSettings) = 3" for v and p :: "int \<Rightarrow> bool" and g
    by (auto simp: setIf_def DefaultPoolSettings_def split: option.split)
  ultimately show ?thesis unfolding connSettings_def Let_def none setIf_None by simp
qed

lemma timeSettings_frame:
  "ps_MaxConns (timeSettings parse env s) = ps_MaxConns s" "ps_MinConns (timeSettings parse env s) = ps_MinConns s"
proof -
  have "ps_MaxConns (timeSettings parse env s) = ps_MaxConns s \<and> ps_MinConns (timeSettings parse env s) = ps_MinConns s"
    unfolding timeSettings_def
    by (intro setIf_keeps [where P = "\<lambda>t. ps_MaxConns t = ps_MaxConns s \<and> ps_MinConns t = ps_MinConns s"]) simp_all
  then show "ps_MaxConns (timeSettings parse env s) = ps_MaxConns s" "ps_MinConns (timeSettings parse env s) = ps_MinConns s"
    by simp_all
qed

lemma timeSettings_times: "soundTimes s \<Longrightarrow> soundTimes (timeSettings parse env s)"
  unfolding timeSettings_def
  by (intro setIf_keeps [where P = soundTimes]) (auto simp: soundTimes_def dest: envDuration_nonneg)

lemma timeSettings_idle:
  "envDuration parse env ''STRIX_DB_POOL_IDLE_CLOSE'' = None \<Longrightarrow> ps_IdleClose (timeSettings parse env s) = ps_IdleClose s"
  unfolding timeSettings_def
  by (simp only: setIf_None) (intro setIf_keeps [where P = "\<lambda>t. ps_IdleClose t = ps_IdleClose s"]; simp)

text \<open>
  C40. The settings are sound for every environment whose connection counts fit 32 bits: at least one
  connection, no more kept open than allowed, no negative time, a positive health period, and every
  absent or unreadable value replaced by its default.
\<close>

theorem PoolSettings_are_sound:
  assumes "\<And>v. envInt env ''STRIX_DB_POOL_MAX_CONNS'' = Some v \<Longrightarrow> v < 2147483648"
    and "\<And>v. envInt env ''STRIX_DB_POOL_MIN_CONNS'' = Some v \<Longrightarrow> v < 2147483648"
  shows "let s = PoolSettingsFromEnv parse env hostname in
     1 \<le> ps_MaxConns s \<and> 0 \<le> ps_MinConns s \<and> ps_MinConns s \<le> ps_MaxConns s \<and> 0 \<le> ps_MaxIdle s
     \<and> 0 \<le> ps_MaxLifetime s \<and> 0 < ps_HealthPeriod s \<and> 0 \<le> ps_IdleClose s
     \<and> (envInt env ''STRIX_DB_POOL_MAX_CONNS'' = None \<longrightarrow> ps_MaxConns s = 3)
     \<and> (envDuration parse env ''STRIX_DB_POOL_IDLE_CLOSE'' = None \<longrightarrow> ps_IdleClose s = 10 * Minute)"
proof -
  have "soundTimes (timeSettings parse env (connSettings env))"
    by (rule timeSettings_times) (simp add: soundTimes_def connSettings_times duration_defs)
  with connSettings_conns [OF assms] show ?thesis
    by (auto simp: PoolSettingsFromEnv_def Let_def soundTimes_def soundConns_def timeSettings_frame
        connSettings_default connSettings_times timeSettings_idle)
qed

text \<open>Past 32 bits the count is cut to a negative one, which the guard \<open>v >= 1\<close> has already let through.\<close>

lemma max_conns_truncates:
  assumes "env ''STRIX_DB_POOL_MAX_CONNS'' = ''2147483648''" and "env ''STRIX_DB_POOL_MIN_CONNS'' = []"
  shows "ps_MaxConns (PoolSettingsFromEnv parse env hostname) = - 2147483648"
proof -
  have "atoi [] = 0" by (simp add: atoi_def)
  then have "goAtoi ''2147483648'' = Some 2147483648" by (simp add: goAtoi_def atoi_Cons isDigit_def Let_def)
  with assms have "envInt env ''STRIX_DB_POOL_MAX_CONNS'' = Some 2147483648" "envInt env ''STRIX_DB_POOL_MIN_CONNS'' = None"
    by (simp_all add: envInt_def)
  then have "ps_MaxConns (connSettings env) = - 2147483648"
    by (simp only: connSettings_def Let_def setIf_None) (simp add: setIf_def wrap32_def DefaultPoolSettings_def)
  then show ?thesis by (simp add: PoolSettingsFromEnv_def timeSettings_frame)
qed

section \<open>Witnesses\<close>

definition sample_urls :: "string url_lib" where
  "sample_urls = \<lparr>ul_Parse = Inr, ul_Path = (\<lambda>u. u), ul_setPath = (\<lambda>p u. p), ul_queryGet = (\<lambda>u k. []),
     ul_querySet = (\<lambda>k v u. u @ CHR ''?'' # k @ CHR ''='' # v), ul_queryDel = (\<lambda>k u. u), ul_String = (\<lambda>u. u)\<rparr>"

theorem Resolve_keeps_the_shape_witness:
  "validSlug ''acme'' \<and> Resolve sample_urls \<lparr>tr_Template = ''pg://h/db_{slug}'', tr_Schema = ''core''\<rparr> ''acme''
     = Inr ''pg://h/db_acme?options=-csearch_path=core''"
proof -
  have "Resolve sample_urls \<lparr>tr_Template = ''pg://h/db_{slug}'', tr_Schema = ''core''\<rparr> ''acme''
     = Inr ''pg://h/db_acme?options=-csearch_path=core''"
  proof -
    have "hasSlugMark ''pg://h/db_{slug}''" "validSlug ''acme''" "ReplaceAll ''pg://h/db_{slug}'' slugMark ''acme'' = ''pg://h/db_acme''"
      by code_simp+
    then show ?thesis by (simp add: Resolve_def withSearchPath_def sample_urls_def)
  qed
  with Resolve_keeps_the_shape [OF this] show ?thesis by blast
qed

theorem podAppName_recovers_the_app_witness:
  "podAppName (''strix-people'' @ dash # ''6d8f9c7b5'' @ dash # ''abcde'') = ''strix-people''"
  by (rule podAppName_recovers_the_app [THEN conjunct1, rule_format]; code_simp)

definition sample_env :: env where
  "sample_env k = (if k = ''STRIX_DB_POOL_MIN_CONNS'' then ''9'' else [])"

theorem PoolSettings_are_sound_witness:
  "ps_MinConns (PoolSettingsFromEnv (\<lambda>_. None) sample_env []) \<le> 3"
proof -
  have "goAtoi ''9'' = Some 9" by code_simp
  then have e: "envInt sample_env ''STRIX_DB_POOL_MAX_CONNS'' = None" "envInt sample_env ''STRIX_DB_POOL_MIN_CONNS'' = Some 9"
    by (simp_all add: envInt_def sample_env_def)
  have "v < 2147483648" if "envInt sample_env ''STRIX_DB_POOL_MAX_CONNS'' = Some v" for v using that e by simp
  moreover have "v < 2147483648" if "envInt sample_env ''STRIX_DB_POOL_MIN_CONNS'' = Some v" for v using that e by simp
  ultimately have "let s = PoolSettingsFromEnv (\<lambda>_. None) sample_env [] in ps_MinConns s \<le> ps_MaxConns s \<and> ps_MaxConns s = 3"
    using PoolSettings_are_sound [of sample_env "\<lambda>_. None" "[]"] e(1) unfolding Let_def by blast
  then show ?thesis by (simp add: Let_def)
qed

end
