(* ===== verification/Tenancy_Base.thy ===== *)
theory Tenancy_Base
  imports Tenancy_Pools Tenancy_Config
begin

text \<open>
  What a Core's repository embeds (\<open>Base\<close> in \<open>src/tenancy/base.go\<close>): the pool of the calling tenant, or of
  a named one, out of the registry, and how a pool is opened (\<open>connect\<close> in \<open>src/tenancy/pools.go\<close>). Transactions over these pools are in \<^theory_text>\<open>Outbox_Store\<close>, migrations in
  \<^theory_text>\<open>Tenancy_Discover\<close>.
\<close>

section \<open>Opening a pool\<close>

text \<open>
  pgx is an argument: the parser of DSNs, the pool of a configuration, and whether it answers a ping.
  The error of a DSN that does not parse says nothing of it, since a DSN carries a password. Beside the
  answer stand the pools opened and those closed again.
\<close>

record pgx_lib =
  pg_ParseConfig :: "string \<Rightarrow> string + pgx_config"
  pg_NewWithConfig :: "pgx_config \<Rightarrow> string + pool"
  pg_Ping :: "pool \<Rightarrow> string option"

datatype connect_error = UnreadableDSN | NewPoolFailed string | PingFailed string

definition connectPool :: "pgx_lib \<Rightarrow> string \<Rightarrow> pool_settings \<Rightarrow> (connect_error + pool) \<times> pool list \<times> pool list" where
  "connectPool L dsn settings = (case pg_ParseConfig L dsn of
      Inl err \<Rightarrow> (Inl UnreadableDSN, [], [])
    | Inr cfg \<Rightarrow> (case pg_NewWithConfig L (applySettings settings cfg) of
        Inl err \<Rightarrow> (Inl (NewPoolFailed err), [], [])
      | Inr pool \<Rightarrow> (case pg_Ping L pool of
          Some err \<Rightarrow> (Inl (PingFailed err), [pool], [pool])
        | None \<Rightarrow> (Inr pool, [pool], []))))"

definition NewPools :: "(string \<Rightarrow> duration option) \<Rightarrow> env \<Rightarrow> string \<Rightarrow> int \<Rightarrow> pools" where
  "NewPools parse env hostname limit = NewPoolsWithSettings limit (ps_IdleClose (PoolSettingsFromEnv parse env hostname))"

text \<open>
  A pool that is opened is handed over or closed. A pool handed over answered a ping, and its settings
  are the configured ones, with the application name of the DSN kept when it has one.
\<close>

lemma connectPool_accounts:
  assumes "connectPool L dsn settings = (r, opened, closed)"
  shows "opened = (case r of Inl _ \<Rightarrow> closed | Inr pool \<Rightarrow> pool # closed)"
    and "r = Inr pool \<Longrightarrow> pg_Ping L pool = None \<and> (\<exists>cfg. pg_ParseConfig L dsn = Inr cfg
           \<and> pg_NewWithConfig L (applySettings settings cfg) = Inr pool)"
    and "r = Inl e \<Longrightarrow> e = UnreadableDSN \<longleftrightarrow> (\<exists>err. pg_ParseConfig L dsn = Inl err)"
  using assms by (auto simp: connectPool_def split: sum.splits option.splits)

section \<open>The pool of a call\<close>

definition Conn ::
    "(string \<Rightarrow> string + string) \<Rightarrow> (string \<Rightarrow> string + pool) \<Rightarrow> (pools \<Rightarrow> pools) \<Rightarrow> 'a ctx_scheme \<Rightarrow> time \<Rightarrow> time
       \<Rightarrow> pools \<Rightarrow> (pool_error + pool \<times> string) \<times> pools \<times> pool list" where
  "Conn resolve connect others ctx now now' p =
     (let tenantID = Tenant ctx in
      if tenantID = [] then (Inl ErrNoTenant, p, [])
      else (case Get resolve connect others tenantID now now' p of
          (Inl err, rest) \<Rightarrow> (Inl err, rest)
        | (Inr pool, rest) \<Rightarrow> (Inr (pool, tenantID), rest)))"

definition PoolFor where
  "PoolFor resolve connect others tenantID now now' p =
     (if tenantID = [] then (Inl ErrNoTenant, p, []) else Get resolve connect others tenantID now now' p)"

definition PoolForBackground where
  "PoolForBackground resolve connect others tenantID now now' p =
     (if tenantID = [] then (Inl ErrNoTenant, p, []) else GetBackground resolve connect others tenantID now now' p)"

text \<open>
  A connection of a request is of the tenant its context names. \<open>Conn\<close> answers the tenant along with a
  pool that was opened for it, whatever the registry went through before and other goroutines do
  meanwhile.
\<close>

lemma Conn_is_of_the_tenant:
  assumes "p = after evs (NewPoolsWithSettings limit idleClose)"
    and "Conn resolve connect (after evs') ctx now now' p = (Inr (pool, tenantID), p', closed)"
  shows "tenantID = Tenant ctx \<and> tenantID \<noteq> []
     \<and> (\<exists>dsn. (tenantID, pool) \<in> set (installs (evs @ evs')) \<or> (resolve tenantID = Inr dsn \<and> connect dsn = Inr pool))"
proof -
  from assms(2) have c: "Tenant ctx \<noteq> []" "tenantID = Tenant ctx"
    "getPool resolve connect (after evs') tenantID True now now' p = (Inr pool, p', closed)"
    by (auto simp: Conn_def Get_def Let_def split: if_splits sum.splits prod.splits)
  from getPool_own [OF assms(1) c(3)] c(1,2) show ?thesis by auto
qed

end
