(* ===== verification/Tenancy_Discover.thy ===== *)
theory Tenancy_Discover
  imports Tenancy_Config
begin

text \<open>
  Which tenants exist and the migration fan-out (\<open>src/tenancy/discover.go\<close>, and \<open>Migrate\<close> of
  \<open>src/tenancy/base.go\<close>). Postgres and goose are arguments: the answer to the list of databases, to the
  question for a schema, and to each step of a migration. The logs the code writes are not modelled.
\<close>

section \<open>The shape of a tenant database\<close>

record name_pattern =
  np_prefix :: string
  np_suffix :: string
  np_like :: string

text \<open>\<open>escapeLike\<close>: the wildcards of \<open>LIKE\<close> and the escape itself, escaped in one pass.\<close>

definition escapeLike :: "string \<Rightarrow> string" where
  "escapeLike s = concat (map (\<lambda>c. if c \<in> {CHR 0x5C, CHR ''%'', CHR ''_''} then [CHR 0x5C, c] else [c]) s)"

text \<open>\<open>strings.Cut\<close> at the first occurrence.\<close>

fun Cut :: "string \<Rightarrow> string \<Rightarrow> (string \<times> string) option" where
  "Cut [] sep = (if sep = [] then Some ([], []) else None)"
| "Cut (c # s) sep = (if prefix sep (c # s) then Some ([], drop (length sep) (c # s))
     else map_option (\<lambda>(a, b). (c # a, b)) (Cut s sep))"

definition adminAndPattern :: "'u url_lib \<Rightarrow> string \<Rightarrow> dsn_error + string \<times> name_pattern" where
  "adminAndPattern U template =
     (if \<not> hasSlugMark template then Inl NoSlugMark
      else (case ul_Parse U template of
          Inl reason \<Rightarrow> Inl (InvalidDSN reason)
        | Inr u \<Rightarrow> (case Cut (TrimPrefix (ul_Path U u) ''/'') slugMark of
              None \<Rightarrow> Inl SlugNotInDatabase
            | Some (pre, post) \<Rightarrow>
                Inr (ul_String U (ul_queryDel U ''options'' (ul_setPath U ''/postgres'' u)),
                     \<lparr>np_prefix = pre, np_suffix = post, np_like = escapeLike pre @ ''%'' @ escapeLike post\<rparr>))))"

definition withAppName :: "'u url_lib \<Rightarrow> string \<Rightarrow> string \<Rightarrow> string" where
  "withAppName U name dsn =
     (if name = [] then dsn
      else (case ul_Parse U dsn of
          Inl _ \<Rightarrow> dsn
        | Inr u \<Rightarrow> ul_String U (if ul_queryGet U u ''application_name'' = []
                                then ul_querySet U ''application_name'' name u else u)))"

section \<open>Postgres\<close>

text \<open>An error of the driver: of the connection or not, the SQLSTATE if the server gave one, and a text.\<close>

record db_error =
  de_connect :: bool
  de_code :: "string option"
  de_text :: string

definition sqlStateInsufficientPrivilege :: string where
  "sqlStateInsufficientPrivilege = ''42501''"

definition sqlStateInvalidCatalogName :: string where
  "sqlStateInvalidCatalogName = ''3D000''"

definition noConnectReason :: string where
  "noConnectReason = ''sin CONNECT sobre la base: el m'' @ [CHR 0xC3, CHR 0xB3]
     @ ''dulo no est'' @ [CHR 0xC3, CHR 0xA1] @ '' activado en este tenant''"

definition goneReason :: string where
  "goneReason = ''la base del tenant ya no existe''"

definition notActivated :: "db_error \<Rightarrow> string" where
  "notActivated err =
     (if \<not> de_connect err then []
      else (case de_code err of
          None \<Rightarrow> []
        | Some code \<Rightarrow>
            if code = sqlStateInsufficientPrivilege then noConnectReason
            else if code = sqlStateInvalidCatalogName then goneReason
            else []))"

text \<open>
  What the environment answers: the databases like a pattern (only those the role may connect to, if
  asked), whether a schema is in a database, and the steps of \<open>Migrate\<close> on a database.
\<close>

record pg =
  pg_list :: "string \<Rightarrow> string \<Rightarrow> bool \<Rightarrow> string + string list"
  pg_hasSchema :: "string \<Rightarrow> string \<Rightarrow> db_error + bool"
  pg_createSchema :: "string \<Rightarrow> string \<Rightarrow> string + unit"
  pg_goose :: "string \<Rightarrow> string + unit"

definition hasSchema :: "'u url_lib \<Rightarrow> pg \<Rightarrow> string \<Rightarrow> string \<Rightarrow> string \<Rightarrow> db_error + bool" where
  "hasSchema U db name dsn schema = pg_hasSchema db (withAppName U name dsn) schema"

definition schemaFromDSN :: "'u url_lib \<Rightarrow> string \<Rightarrow> string" where
  "schemaFromDSN U dsn = (case ul_Parse U dsn of
       Inl _ \<Rightarrow> []
     | Inr u \<Rightarrow> (case Cut (ul_queryGet U u ''options'') ''-csearch_path='' of
           None \<Rightarrow> []
         | Some (_, rest) \<Rightarrow> TrimSpace (case Cut rest '','' of None \<Rightarrow> rest | Some (first, _) \<Rightarrow> first)))"

text \<open>\<open>Migrate\<close>, with the schemas it creates and the databases goose runs on.\<close>

datatype migrate_action = CreateSchema string string | GooseUp string

definition Migrate :: "'u url_lib \<Rightarrow> pg \<Rightarrow> string \<Rightarrow> (string + unit) \<times> migrate_action list" where
  "Migrate U db dsn =
     (let schema = schemaFromDSN U dsn;
          up = (\<lambda>acts. case pg_goose db dsn of
              Inl e \<Rightarrow> (Inl (''goose up: '' @ e), acts @ [GooseUp dsn])
            | Inr _ \<Rightarrow> (Inr (), acts @ [GooseUp dsn]))
      in if schema = [] then up []
         else (case pg_hasSchema db dsn schema of
             Inl e \<Rightarrow> (Inl (''check schema: '' @ de_text e), [])
           | Inr True \<Rightarrow> up []
           | Inr False \<Rightarrow> (case pg_createSchema db dsn schema of
                 Inl e \<Rightarrow> (Inl (''create schema: '' @ e), [CreateSchema dsn schema])
               | Inr _ \<Rightarrow> up [CreateSchema dsn schema])))"

section \<open>Enumeration\<close>

datatype discover_error = BadTemplate dsn_error | ListFailed string | MigrationsFailed nat nat "(string \<times> string) list"

definition slugOf :: "name_pattern \<Rightarrow> string \<Rightarrow> string" where
  "slugOf p name = TrimSuffix (TrimPrefix name (np_prefix p)) (np_suffix p)"

definition enumerateTenants ::
    "'u url_lib \<Rightarrow> pg \<Rightarrow> string \<Rightarrow> string \<Rightarrow> bool \<Rightarrow> discover_error + string list" where
  "enumerateTenants U db name template onlyConnectable = (case adminAndPattern U template of
       Inl err \<Rightarrow> Inl (BadTemplate err)
     | Inr (admin, p) \<Rightarrow> (case pg_list db (withAppName U name admin) (np_like p) onlyConnectable of
           Inl e \<Rightarrow> Inl (ListFailed e)
         | Inr names \<Rightarrow> Inr (sortStable strLess (filter validSlug (map (slugOf p) names)))))"

definition Tenants :: "'u url_lib \<Rightarrow> pg \<Rightarrow> string \<Rightarrow> string \<Rightarrow> discover_error + string list" where
  "Tenants U db name template = enumerateTenants U db name template False"

definition activeIn :: "'u url_lib \<Rightarrow> pg \<Rightarrow> string \<Rightarrow> template_resolver \<Rightarrow> string \<Rightarrow> bool" where
  "activeIn U db name r slug = (case Resolve U r slug of
       Inl _ \<Rightarrow> False
     | Inr dsn \<Rightarrow> (case hasSchema U db name dsn (tr_Schema r) of Inl _ \<Rightarrow> False | Inr there \<Rightarrow> there))"

definition TenantsWithSchema ::
    "'u url_lib \<Rightarrow> pg \<Rightarrow> string \<Rightarrow> string \<Rightarrow> string \<Rightarrow> discover_error + string list" where
  "TenantsWithSchema U db name template schema = (case enumerateTenants U db name template True of
       Inl err \<Rightarrow> Inl err
     | Inr tenants \<Rightarrow>
         Inr (filter (activeIn U db name \<lparr>tr_Template = template, tr_Schema = schema\<rparr>) tenants))"

section \<open>The fan-out\<close>

record fanout =
  fo_migrated :: "string list"
  fo_skipped :: "(string \<times> string) list"
  fo_failures :: "(string \<times> string) list"
  fo_actions :: "migrate_action list"

definition dsnErrorText :: "dsn_error \<Rightarrow> string" where
  "dsnErrorText e = (case e of
       NoTenantInContext \<Rightarrow> ''no tenant in context''
     | NotASlug t \<Rightarrow> ''tenant id '' @ t @ '' is not a valid slug''
     | NoSlugMark \<Rightarrow> ''DSN template must contain {slug}''
     | InvalidDSN r \<Rightarrow> ''invalid DSN: '' @ r
     | SlugNotInDatabase \<Rightarrow> ''the {slug} of the template is not in the database name'')"

definition absentReason :: string where
  "absentReason = ''el schema no existe: el m'' @ [CHR 0xC3, CHR 0xB3] @ ''dulo no est'' @ [CHR 0xC3, CHR 0xA1]
     @ '' activado en este tenant''"

definition migrateOne :: "'u url_lib \<Rightarrow> pg \<Rightarrow> string \<Rightarrow> template_resolver \<Rightarrow> string \<Rightarrow> fanout \<Rightarrow> fanout" where
  "migrateOne U db name r slug f = (case Resolve U r slug of
       Inl err \<Rightarrow> f\<lparr>fo_failures := fo_failures f @ [(slug, dsnErrorText err)]\<rparr>
     | Inr dsn \<Rightarrow> (case hasSchema U db name dsn (tr_Schema r) of
           Inl err \<Rightarrow>
             if notActivated err \<noteq> [] then f\<lparr>fo_skipped := fo_skipped f @ [(slug, notActivated err)]\<rparr>
             else f\<lparr>fo_failures := fo_failures f @ [(slug, de_text err)]\<rparr>
         | Inr False \<Rightarrow> f\<lparr>fo_skipped := fo_skipped f @ [(slug, absentReason)]\<rparr>
         | Inr True \<Rightarrow> (case Migrate U db dsn of
               (Inl err, acts) \<Rightarrow> f\<lparr>fo_failures := fo_failures f @ [(slug, err)], fo_actions := fo_actions f @ acts\<rparr>
             | (Inr _, acts) \<Rightarrow> f\<lparr>fo_migrated := fo_migrated f @ [slug], fo_actions := fo_actions f @ acts\<rparr>)))"

definition MigrateAll ::
    "'u url_lib \<Rightarrow> pg \<Rightarrow> string \<Rightarrow> string \<Rightarrow> string \<Rightarrow> (string list \<times> discover_error option) \<times> fanout" where
  "MigrateAll U db name template schema =
     (let none = \<lparr>fo_migrated = [], fo_skipped = [], fo_failures = [], fo_actions = []\<rparr> in
      case Tenants U db name template of
        Inl err \<Rightarrow> (([], Some err), none)
      | Inr tenants \<Rightarrow>
          let f = fold (migrateOne U db name \<lparr>tr_Template = template, tr_Schema = schema\<rparr>) tenants none in
          ((fo_migrated f,
            if fo_failures f \<noteq> [] then Some (MigrationsFailed (length (fo_failures f)) (length tenants) (fo_failures f)) else None), f))"

section \<open>Enumerated tenants are resolvable and theirs\<close>

lemma slugOf_parts:
  assumes "prefix (np_prefix p) name" and "suffix (np_suffix p) (drop (length (np_prefix p)) name)"
  shows "name = np_prefix p @ slugOf p name @ np_suffix p"
proof -
  from assms obtain rest where "name = np_prefix p @ rest" "suffix (np_suffix p) rest" by (auto simp: prefix_def)
  then obtain mid where "name = np_prefix p @ mid @ np_suffix p" by (auto simp: suffix_def)
  then show ?thesis by (simp add: slugOf_def TrimPrefix_def TrimSuffix_def suffix_def)
qed

text \<open>What the kit relies on in \<open>LIKE\<close>: an escaped text matches only itself, a bare percent sign anything.\<close>

definition likeFaithful :: "pg \<Rightarrow> bool" where
  "likeFaithful db \<longleftrightarrow> (\<forall>admin pre post only names. pg_list db admin (escapeLike pre @ ''%'' @ escapeLike post) only = Inr names \<longrightarrow>
     (\<forall>name \<in> set names. \<exists>mid. name = pre @ mid @ post))"

text \<open>
  The fan-out and the resolver agree on what a tenant is. Whatever the naming convention of the
  template, each tenant that is enumerated is one \<open>Resolve\<close> accepts as a slug, and putting it in the
  place of the mark of the database name gives the name of a database that was listed: none is
  invented, and none is a name that only resembles the convention.
\<close>

theorem enumerated_tenants_are_databases:
  assumes "likeFaithful db" and "enumerateTenants U db name template only = Inr tenants" and "slug \<in> set tenants"
  shows "validSlug slug
     \<and> (\<exists>u pre post admin names. ul_Parse U template = Inr u \<and> Cut (TrimPrefix (ul_Path U u) ''/'') slugMark = Some (pre, post)
          \<and> pg_list db admin (escapeLike pre @ ''%'' @ escapeLike post) only = Inr names
          \<and> pre @ slug @ post \<in> set names)"
proof -
  from assms(2) obtain admin p names where p: "adminAndPattern U template = Inr (admin, p)"
    "pg_list db (withAppName U name admin) (np_like p) only = Inr names"
    "tenants = sortStable strLess (filter validSlug (map (slugOf p) names))"
    by (auto simp: enumerateTenants_def split: sum.splits prod.splits)
  from p(1) obtain u where u: "ul_Parse U template = Inr u"
    "Cut (TrimPrefix (ul_Path U u) ''/'') slugMark = Some (np_prefix p, np_suffix p)"
    "np_like p = escapeLike (np_prefix p) @ ''%'' @ escapeLike (np_suffix p)"
    by (auto simp: adminAndPattern_def split: if_splits sum.splits option.splits prod.splits)
  from assms(3) p(3) obtain db_name where n: "validSlug slug" "db_name \<in> set names" "slug = slugOf p db_name" by auto
  from assms(1) p(2) u(3) n(2) obtain mid where "db_name = np_prefix p @ mid @ np_suffix p"
    unfolding likeFaithful_def by metis
  then have "db_name = np_prefix p @ slug @ np_suffix p"
    unfolding n(3) by (intro slugOf_parts) (auto simp: suffix_def)
  with u p(2) n(1,2) show ?thesis by metis
qed

section \<open>The fan-out leaves nobody out\<close>

text \<open>
  What ought to become of a tenant, read off the answers of its own database: the module is active in it
  when its schema is found; it is not when the schema is missing, or when the connection is refused for
  lack of the privilege or because the database is gone.
\<close>

definition moduleActive :: "'u url_lib \<Rightarrow> pg \<Rightarrow> string \<Rightarrow> template_resolver \<Rightarrow> string \<Rightarrow> string option" where
  "moduleActive U db name r t = (case Resolve U r t of
       Inl _ \<Rightarrow> None
     | Inr dsn \<Rightarrow> if hasSchema U db name dsn (tr_Schema r) = Inr True then Some dsn else None)"

definition moduleInactive :: "'u url_lib \<Rightarrow> pg \<Rightarrow> string \<Rightarrow> template_resolver \<Rightarrow> string \<Rightarrow> bool" where
  "moduleInactive U db name r t \<longleftrightarrow> (case Resolve U r t of
       Inl _ \<Rightarrow> False
     | Inr dsn \<Rightarrow> (case hasSchema U db name dsn (tr_Schema r) of
           Inl e \<Rightarrow> de_connect e \<and> de_code e \<in> {Some ''42501'', Some ''3D000''}
         | Inr there \<Rightarrow> \<not> there))"

definition migrates :: "'u url_lib \<Rightarrow> pg \<Rightarrow> string \<Rightarrow> template_resolver \<Rightarrow> string \<Rightarrow> bool" where
  "migrates U db name r t \<longleftrightarrow> (case moduleActive U db name r t of None \<Rightarrow> False | Some dsn \<Rightarrow> ok (fst (Migrate U db dsn)))"

definition actionsOn :: "'u url_lib \<Rightarrow> pg \<Rightarrow> string \<Rightarrow> template_resolver \<Rightarrow> string \<Rightarrow> migrate_action list" where
  "actionsOn U db name r t = (case moduleActive U db name r t of None \<Rightarrow> [] | Some dsn \<Rightarrow> snd (Migrate U db dsn))"

lemma notActivated_iff: "notActivated e \<noteq> [] \<longleftrightarrow> de_connect e \<and> de_code e \<in> {Some ''42501'', Some ''3D000''}"
  by (auto simp: notActivated_def noConnectReason_def goneReason_def sqlStateInsufficientPrivilege_def
      sqlStateInvalidCatalogName_def split: option.split)

lemma migrateOne_fields:
  shows "fo_migrated (migrateOne U db name r t f) = fo_migrated f @ filter (migrates U db name r) [t]"
    and "map fst (fo_skipped (migrateOne U db name r t f)) = map fst (fo_skipped f) @ filter (moduleInactive U db name r) [t]"
    and "map fst (fo_failures (migrateOne U db name r t f))
       = map fst (fo_failures f) @ filter (\<lambda>t. \<not> migrates U db name r t \<and> \<not> moduleInactive U db name r t) [t]"
    and "fo_actions (migrateOne U db name r t f) = fo_actions f @ actionsOn U db name r t"
proof -
  have "fo_migrated (migrateOne U db name r t f) = fo_migrated f @ filter (migrates U db name r) [t]
    \<and> map fst (fo_skipped (migrateOne U db name r t f)) = map fst (fo_skipped f) @ filter (moduleInactive U db name r) [t]
    \<and> map fst (fo_failures (migrateOne U db name r t f))
       = map fst (fo_failures f) @ filter (\<lambda>t. \<not> migrates U db name r t \<and> \<not> moduleInactive U db name r t) [t]
    \<and> fo_actions (migrateOne U db name r t f) = fo_actions f @ actionsOn U db name r t" (is ?all)
  proof (cases "Resolve U r t")
    case (Inl e)
    then show ?thesis by (simp add: migrateOne_def migrates_def moduleInactive_def moduleActive_def actionsOn_def)
  next
    case (Inr dsn)
    note defs = migrateOne_def migrates_def moduleInactive_def moduleActive_def actionsOn_def Inr
    show ?thesis
    proof (cases "hasSchema U db name dsn (tr_Schema r)")
      case (Inl e)
      then show ?thesis using notActivated_iff [of e] by (cases "notActivated e = []") (simp_all add: defs)
    next
      case schema: (Inr there)
      obtain res acts where m: "Migrate U db dsn = (res, acts)" by (cases "Migrate U db dsn")
      show ?thesis by (cases there; cases res) (simp_all add: defs schema m)
    qed
  qed
  then show "fo_migrated (migrateOne U db name r t f) = fo_migrated f @ filter (migrates U db name r) [t]"
    and "map fst (fo_skipped (migrateOne U db name r t f)) = map fst (fo_skipped f) @ filter (moduleInactive U db name r) [t]"
    and "map fst (fo_failures (migrateOne U db name r t f))
       = map fst (fo_failures f) @ filter (\<lambda>t. \<not> migrates U db name r t \<and> \<not> moduleInactive U db name r t) [t]"
    and "fo_actions (migrateOne U db name r t f) = fo_actions f @ actionsOn U db name r t"
    by blast+
qed

lemma fold_fields:
  "fo_migrated (fold (migrateOne U db name r) ts f) = fo_migrated f @ filter (migrates U db name r) ts"
  "map fst (fo_skipped (fold (migrateOne U db name r) ts f)) = map fst (fo_skipped f) @ filter (moduleInactive U db name r) ts"
  "map fst (fo_failures (fold (migrateOne U db name r) ts f))
     = map fst (fo_failures f) @ filter (\<lambda>t. \<not> migrates U db name r t \<and> \<not> moduleInactive U db name r t) ts"
  "fo_actions (fold (migrateOne U db name r) ts f) = fo_actions f @ concat (map (actionsOn U db name r) ts)"
  by (induction ts arbitrary: f; simp add: migrateOne_fields)+

lemma active_or_not: "moduleActive U db name r t = Some dsn \<Longrightarrow> \<not> moduleInactive U db name r t"
  by (auto simp: moduleActive_def moduleInactive_def split: sum.splits if_splits)

text \<open>
  C23. The fan-out does to every tenant what its own database calls for, whatever happens to the others.
  When the tenants can be listed: the migrated ones are, in order, those in which the schema of this
  Core was found and whose migration succeeded; the skipped ones are those in which it was not found or
  whose database refused the connection for lack of the privilege or is gone; all the others, and only
  they, failed, and it is an error that names them exactly when there is one. Schemas are created and
  goose is run for the tenants in which the schema was found, in order, and nothing is done to any
  other; no tenant is both migrated and skipped.
\<close>

theorem MigrateAll_accounts_for_every_tenant:
  assumes "Tenants U db name template = Inr tenants" and "MigrateAll U db name template schema = ((migrated, err), f)"
    and "r = \<lparr>tr_Template = template, tr_Schema = schema\<rparr>"
  shows "migrated = filter (migrates U db name r) tenants
     \<and> map fst (fo_skipped f) = filter (moduleInactive U db name r) tenants
     \<and> map fst (fo_failures f) = filter (\<lambda>t. \<not> migrates U db name r t \<and> \<not> moduleInactive U db name r t) tenants
     \<and> fo_actions f = concat (map (\<lambda>t. case moduleActive U db name r t of None \<Rightarrow> [] | Some dsn \<Rightarrow> snd (Migrate U db dsn)) tenants)
     \<and> (\<forall>t. migrates U db name r t \<longrightarrow> \<not> moduleInactive U db name r t)
     \<and> err = (if fo_failures f = [] then None else Some (MigrationsFailed (length (fo_failures f)) (length tenants) (fo_failures f)))"
proof -
  let ?none = "\<lparr>fo_migrated = [], fo_skipped = [], fo_failures = [], fo_actions = []\<rparr>"
  from assms have f: "f = fold (migrateOne U db name r) tenants ?none" "migrated = fo_migrated f"
    "err = (if fo_failures f = [] then None else Some (MigrationsFailed (length (fo_failures f)) (length tenants) (fo_failures f)))"
    by (auto simp: MigrateAll_def Let_def split: if_splits)
  have "\<forall>t. migrates U db name r t \<longrightarrow> \<not> moduleInactive U db name r t"
    by (auto simp: migrates_def dest: active_or_not split: option.splits)
  moreover have "actionsOn U db name r = (\<lambda>t. case moduleActive U db name r t of None \<Rightarrow> [] | Some dsn \<Rightarrow> snd (Migrate U db dsn))"
    by (simp add: actionsOn_def fun_eq_iff)
  ultimately show ?thesis using fold_fields [of U db name r tenants ?none] f by simp
qed

section \<open>Witnesses\<close>

text \<open>
  A server whose list of databases follows the rules of \<open>LIKE\<close> for a pattern with one bare percent sign:
  an escape makes the next character literal. It shows that \<open>likeFaithful\<close> can hold, because reading an
  escaped text gives the text back.
\<close>

fun readLike :: "string \<Rightarrow> string \<times> string" where
  "readLike [] = ([], [])"
| "readLike (c # s) =
     (if c = CHR ''%'' then ([], fst (readLike s))
      else if c = CHR 0x5C \<and> s \<noteq> [] then (hd s # fst (readLike (tl s)), snd (readLike (tl s)))
      else (c # fst (readLike s), snd (readLike s)))"

lemma escapeLike_simps [simp]:
  "escapeLike [] = []"
  "escapeLike (c # s) = (if c \<in> {CHR 0x5C, CHR ''%'', CHR ''_''} then [CHR 0x5C, c] else [c]) @ escapeLike s"
  by (simp_all add: escapeLike_def)

lemma readLike_escaped: "readLike (escapeLike s @ t) = (s @ fst (readLike t), snd (readLike t))"
  by (induction s) auto

lemma readLike_pattern: "readLike (escapeLike pre @ ''%'' @ escapeLike post) = (pre, post)"
  using readLike_escaped [of pre "''%'' @ escapeLike post"] readLike_escaped [of post "[]"] by simp

definition sample_pg :: pg where
  "sample_pg = \<lparr>pg_list = (\<lambda>admin like only. Inr (filter (\<lambda>n. prefix (fst (readLike like)) n
         \<and> suffix (snd (readLike like)) (drop (length (fst (readLike like))) n)) [''db_zeta'', ''dbx'', ''db_acme''])),
     pg_hasSchema = (\<lambda>dsn schema. if dsn = ''/db_acme?options=-csearch_path=core'' then Inr True
       else Inl \<lparr>de_connect = True, de_code = Some ''42501'', de_text = ''denied''\<rparr>),
     pg_createSchema = (\<lambda>_ _. Inr ()), pg_goose = (\<lambda>_. Inr ())\<rparr>"

lemma sample_pg_list:
  "pg_list sample_pg admin (escapeLike pre @ ''%'' @ escapeLike post) only
     = Inr (filter (\<lambda>n. prefix pre n \<and> suffix post (drop (length pre) n)) [''db_zeta'', ''dbx'', ''db_acme''])"
  unfolding sample_pg_def pg.select_convs readLike_pattern fst_conv snd_conv ..

lemma sample_pg_faithful: "likeFaithful sample_pg"
  unfolding likeFaithful_def sample_pg_list
proof (intro allI impI ballI)
  fix pre post name :: string and names
  assume "Inr (filter (\<lambda>n. prefix pre n \<and> suffix post (drop (length pre) n)) [''db_zeta'', ''dbx'', ''db_acme'']) = (Inr names :: string + string list)"
    and "name \<in> set names"
  then have "name \<in> set (filter (\<lambda>n. prefix pre n \<and> suffix post (drop (length pre) n)) [''db_zeta'', ''dbx'', ''db_acme''])"
    by (simp only: sum.inject)
  then have "prefix pre name" "suffix post (drop (length pre) name)" unfolding set_filter by blast+
  then show "\<exists>mid. name = pre @ mid @ post" by (auto simp: prefix_def suffix_def)
qed

lemma sample_tenants: "Tenants sample_urls sample_pg [] ''/db_{slug}'' = Inr [''acme'', ''zeta'']"
proof -
  have "hasSlugMark ''/db_{slug}''" "Cut ''db_{slug}'' slugMark = Some (''db_'', [])" by code_simp+
  then have "adminAndPattern sample_urls ''/db_{slug}'' = Inr (''/postgres'',
      \<lparr>np_prefix = ''db_'', np_suffix = [], np_like = escapeLike ''db_'' @ ''%'' @ escapeLike []\<rparr>)"
    by (simp add: adminAndPattern_def sample_urls_def TrimPrefix_def)
  moreover have "pg_list sample_pg a (escapeLike ''db_'' @ ''%'' @ escapeLike []) only = Inr [''db_zeta'', ''db_acme'']" for a only
    unfolding sample_pg_list by simp
  moreover have "sortStable strLess (filter validSlug (map (slugOf \<lparr>np_prefix = ''db_'', np_suffix = [],
      np_like = escapeLike ''db_'' @ ''%'' @ escapeLike []\<rparr>) [''db_zeta'', ''db_acme''])) = [''acme'', ''zeta'']" by code_simp
  ultimately show ?thesis by (simp add: Tenants_def enumerateTenants_def withAppName_def)
qed

theorem enumerated_tenants_are_databases_witness:
  "validSlug ''zeta'' \<and> (\<exists>admin only names pre post. pg_list sample_pg admin (escapeLike pre @ ''%'' @ escapeLike post) only = Inr names
     \<and> pre @ ''zeta'' @ post \<in> set names)"
proof -
  have "''zeta'' \<in> set [''acme'', ''zeta'']" by simp
  from enumerated_tenants_are_databases [OF sample_pg_faithful sample_tenants [unfolded Tenants_def] this] show ?thesis by blast
qed

text \<open>The module is active for one tenant, and the role may not connect to the database of the other.\<close>

theorem MigrateAll_accounts_for_every_tenant_witness:
  "\<exists>f. MigrateAll sample_urls sample_pg [] ''/db_{slug}'' ''core'' = (([''acme''], None), f)
     \<and> map fst (fo_skipped f) = [''zeta''] \<and> fo_actions f = [GooseUp ''/db_acme?options=-csearch_path=core'']"
proof -
  let ?r = "\<lparr>tr_Template = ''/db_{slug}'', tr_Schema = ''core''\<rparr>"
  obtain migrated err f where m: "MigrateAll sample_urls sample_pg [] ''/db_{slug}'' ''core'' = ((migrated, err), f)"
    by (metis prod_cases3 prod.collapse)
  have "Resolve sample_urls ?r ''acme'' = Inr ''/db_acme?options=-csearch_path=core''"
    "Resolve sample_urls ?r ''zeta'' = Inr ''/db_zeta?options=-csearch_path=core''" by code_simp+
  then have a: "moduleActive sample_urls sample_pg [] ?r ''acme'' = Some ''/db_acme?options=-csearch_path=core''"
    "\<not> moduleInactive sample_urls sample_pg [] ?r ''acme''" "moduleActive sample_urls sample_pg [] ?r ''zeta'' = None"
    "moduleInactive sample_urls sample_pg [] ?r ''zeta''"
    by (simp_all add: moduleActive_def moduleInactive_def hasSchema_def withAppName_def sample_pg_def)
  have "Migrate sample_urls sample_pg ''/db_acme?options=-csearch_path=core''
      = (Inr (), [GooseUp ''/db_acme?options=-csearch_path=core''])" by code_simp
  with a have "migrates sample_urls sample_pg [] ?r ''acme''" "\<not> migrates sample_urls sample_pg [] ?r ''zeta''"
    by (simp_all add: migrates_def)
  with a \<open>Migrate _ _ _ = _\<close> MigrateAll_accounts_for_every_tenant [OF sample_tenants m refl] m show ?thesis by auto
qed

end
