(* ===== verification/Blob_Store.thy ===== *)
theory Blob_Store
  imports Tenant_Ctx Refinement
begin

text \<open>
  The contract of the attachment stores (\<open>src/blob/blob.go\<close>): keys that name their tenant, the bound on
  signed URLs, and \<open>MemStore\<close> (\<open>src/blob/mem.go\<close>), which is also the specification the store on disk is
  compared with. Bytes are strings.
\<close>

section \<open>Keys\<close>

datatype blob_error = InvalidKey string | BlobNotFound | TTLOutside duration | StoreFailed string

definition MaxPresignTTL :: duration where
  "MaxPresignTTL = Hour"

definition CheckKey :: "'a ctx_scheme \<Rightarrow> string \<Rightarrow> blob_error + unit" where
  "CheckKey ctx key =
     (let tenant = Tenant ctx; segs = splitOn CHR ''/'' key in
      if tenant = [] then Inl (InvalidKey ''no tenant in context'')
      else if key = [] \<or> length key > 1024 then Inl (InvalidKey ''empty or longer than 1024'')
      else if CHR 0x5C \<in> set key then Inl (InvalidKey ''backslash'')
      else if \<exists>r \<in> set (runes key). r < 32 \<or> r = 127 then Inl (InvalidKey ''control character'')
      else if length segs < 2 then Inl (InvalidKey ''want tenant/...'')
      else if \<exists>s \<in> set segs. s = [] \<or> s = ''.'' \<or> s = ''..'' then Inl (InvalidKey ''empty, . or .. segment'')
      else if hd segs \<noteq> tenant then Inl (InvalidKey ''key belongs to another tenant'')
      else Inr ())"

definition checkTTL :: "duration \<Rightarrow> blob_error + unit" where
  "checkTTL ttl = (if ttl \<le> 0 \<or> MaxPresignTTL < ttl then Inl (TTLOutside ttl) else Inr ())"

section \<open>The store in memory\<close>

text \<open>An object is its bytes and its content type.\<close>

type_synonym blob_object = "string \<times> string"
type_synonym mem_store = "string \<rightharpoonup> blob_object"

definition NewMemStore :: mem_store where
  "NewMemStore = Map.empty"

definition MemPut :: "'a ctx_scheme \<Rightarrow> string \<Rightarrow> string \<Rightarrow> string \<Rightarrow> mem_store \<Rightarrow> (blob_error + unit) \<times> mem_store" where
  "MemPut ctx key contentType data m = (case CheckKey ctx key of
       Inl e \<Rightarrow> (Inl e, m)
     | Inr _ \<Rightarrow> (Inr (), m(key \<mapsto> (data, contentType))))"

definition MemGet :: "'a ctx_scheme \<Rightarrow> string \<Rightarrow> mem_store \<Rightarrow> blob_error + blob_object" where
  "MemGet ctx key m = and_then (CheckKey ctx key) (\<lambda>_. case m key of None \<Rightarrow> Inl BlobNotFound | Some o' \<Rightarrow> Inr o')"

definition MemDelete :: "'a ctx_scheme \<Rightarrow> string \<Rightarrow> mem_store \<Rightarrow> (blob_error + unit) \<times> mem_store" where
  "MemDelete ctx key m = (case CheckKey ctx key of
       Inl e \<Rightarrow> (Inl e, m)
     | Inr _ \<Rightarrow> (Inr (), m(key := None)))"

text \<open>\<open>presign\<close>: \<open>url\<close> renders the method, the path and the time of expiry, as \<open>net/url\<close> does.\<close>

definition memPresign ::
    "(string \<Rightarrow> string \<Rightarrow> time \<Rightarrow> string) \<Rightarrow> 'a ctx_scheme \<Rightarrow> string \<Rightarrow> string \<Rightarrow> time \<Rightarrow> duration \<Rightarrow> blob_error + string" where
  "memPresign url ctx method key now ttl =
     and_then (CheckKey ctx key) (\<lambda>_. and_then (checkTTL ttl) (\<lambda>_. Inr (url method (CHR ''/'' # key) (now + ttl))))"

definition MemPresignGet where
  "MemPresignGet url ctx key now ttl = memPresign url ctx ''GET'' key now ttl"

definition MemPresignPut where
  "MemPresignPut url ctx key contentType now ttl = memPresign url ctx ''PUT'' key now ttl"

section \<open>Operations as steps\<close>

datatype blob_op = PutOp string string string | GetOp string | DeleteOp string

fun opKey :: "blob_op \<Rightarrow> string" where
  "opKey (PutOp k _ _) = k"
| "opKey (GetOp k) = k"
| "opKey (DeleteOp k) = k"

type_synonym blob_answer = "blob_error + blob_object option"

definition memStep :: "'a ctx_scheme \<times> blob_op \<Rightarrow> mem_store \<Rightarrow> mem_store \<times> blob_answer" where
  "memStep call m = (case call of
       (ctx, PutOp k ct data) \<Rightarrow> (case MemPut ctx k ct data m of (r, m') \<Rightarrow> (m', and_then r (\<lambda>_. Inr None)))
     | (ctx, GetOp k) \<Rightarrow> (m, and_then (MemGet ctx k m) (\<lambda>o'. Inr (Some o')))
     | (ctx, DeleteOp k) \<Rightarrow> (case MemDelete ctx k m of (r, m') \<Rightarrow> (m', and_then r (\<lambda>_. Inr None))))"

section \<open>What a checked key is\<close>

lemma CheckKey_Inr:
  assumes "CheckKey ctx key = Inr ()"
  shows "Tenant ctx \<noteq> []" "hd (splitOn CHR ''/'' key) = Tenant ctx" "2 \<le> length (splitOn CHR ''/'' key)"
    "[] \<notin> set (splitOn CHR ''/'' key)" "''.'' \<notin> set (splitOn CHR ''/'' key)" "''..'' \<notin> set (splitOn CHR ''/'' key)"
  using assms by (auto simp: CheckKey_def Let_def split: if_splits)

lemma CheckKey_splits:
  assumes "CheckKey ctx key = Inr ()"
  shows "\<exists>rest. key = Tenant ctx @ CHR ''/'' # rest"
proof -
  let ?s = "splitOn CHR ''/'' key"
  obtain x y ys where s: "?s = x # y # ys"
    using CheckKey_Inr(3) [OF assms] by (metis Suc_le_length_iff numeral_2_eq_2)
  with joinWith_splitOn [of "CHR ''/''" key] CheckKey_Inr(2) [OF assms] show ?thesis by (cases ys) auto
qed

text \<open>
  C21. No key reaches another tenant's bytes. A key passes \<open>CheckKey\<close> only if it starts with the
  tenant of the call and a slash and has neither empty nor dot segments, so that no key passes for two
  tenants; and no \<open>Put\<close> and no \<open>Delete\<close> changes, and no \<open>Get\<close> reads, what lies under a key that is not
  under the tenant of its call.
\<close>

theorem keys_stay_with_their_tenant:
  "(CheckKey ctx key = Inr () \<longrightarrow> (\<exists>rest. key = Tenant ctx @ CHR ''/'' # rest)
      \<and> set (splitOn CHR ''/'' key) \<inter> {[], ''.'', ''..''} = {}
      \<and> (\<forall>ctx' :: ctx. CheckKey ctx' key = Inr () \<longrightarrow> Tenant ctx' = Tenant ctx))
   \<and> ((\<nexists>rest. other = Tenant ctx @ CHR ''/'' # rest) \<longrightarrow>
      fst (memStep (ctx, op) m) other = m other
      \<and> (\<exists>e. snd (memStep (ctx, GetOp other) m) = Inl (InvalidKey e)))"
proof (intro conjI impI)
  assume k: "CheckKey ctx key = Inr ()"
  show "\<exists>rest. key = Tenant ctx @ CHR ''/'' # rest" by (rule CheckKey_splits [OF k])
  show "set (splitOn CHR ''/'' key) \<inter> {[], ''.'', ''..''} = {}" using CheckKey_Inr(4-6) [OF k] by auto
  show "\<forall>ctx' :: ctx. CheckKey ctx' key = Inr () \<longrightarrow> Tenant ctx' = Tenant ctx"
    using CheckKey_Inr(2) k by metis
next
  assume other: "\<nexists>rest. other = Tenant ctx @ CHR ''/'' # rest"
  then have bad: "CheckKey ctx other \<noteq> Inr ()" using CheckKey_splits by blast
  have "CheckKey ctx k = Inr () \<Longrightarrow> k \<noteq> other" for k using bad by blast
  then show "fst (memStep (ctx, op) m) other = m other"
    by (cases op) (auto simp: memStep_def MemPut_def MemDelete_def split: sum.split)
  from bad obtain e where "CheckKey ctx other = Inl (InvalidKey e)"
    by (auto simp: CheckKey_def Let_def split: if_splits)
  then show "\<exists>e. snd (memStep (ctx, GetOp other) m) = Inl (InvalidKey e)"
    by (simp add: memStep_def MemGet_def)
qed

text \<open>A signed URL is for a key of the tenant, and lives at most an hour.\<close>

lemma memPresign_Inr:
  "memPresign url ctx method key now ttl = Inr u \<Longrightarrow> CheckKey ctx key = Inr () \<and> 0 < ttl \<and> ttl \<le> Hour"
  by (auto simp: memPresign_def checkTTL_def MaxPresignTTL_def and_then_eq_Inr split: if_splits)

section \<open>Witness\<close>

definition acme :: ctx where
  "acme = WithTenant background ''acme''"

theorem keys_stay_with_their_tenant_witness:
  "CheckKey (WithTenant background ''acme'') ''acme/invoice/7/a.pdf'' = Inr ()
   \<and> (\<exists>rest. ''acme/invoice/7/a.pdf'' = Tenant (WithTenant background ''acme'') @ CHR ''/'' # rest)
   \<and> (\<exists>e. snd (memStep (WithTenant background ''acme'', GetOp ''zeta/x'') Map.empty) = Inl (InvalidKey e))"
proof -
  have k: "CheckKey (WithTenant background ''acme'') ''acme/invoice/7/a.pdf'' = Inr ()" by code_simp
  have "\<nexists>rest. ''zeta/x'' = Tenant (WithTenant background ''acme'') @ CHR ''/'' # rest" by simp
  with k keys_stay_with_their_tenant [of "WithTenant background ''acme''" "''acme/invoice/7/a.pdf''" "''zeta/x''" "GetOp []" Map.empty]
  show ?thesis by blast
qed

end
