(* ===== verification/Blob_Disk.thy ===== *)
theory Blob_Disk
  imports Blob_Store "HOL-Library.AList"
begin

text \<open>
  \<open>DiskStore\<close> (\<open>src/blob/disk.go\<close>) on a file system: each blob a file under the base directory, with a
  sidecar that holds its content type. The calls of \<open>os\<close> are modelled with their errors on the tree
  below the base directory, which exists; faults of the disk, permissions and the limit on the length
  of a name are not. On keys whose files cannot collide the store is the one in memory.
\<close>

section \<open>The file system\<close>

datatype fs_node = Dir | File string

type_synonym fs = "(string list \<times> fs_node) list"

datatype errno = ENOENT | ENOTDIR | EISDIR | ENOTEMPTY

text \<open>A name that is not there: below a file it is \<open>ENOTDIR\<close>, otherwise \<open>ENOENT\<close>.\<close>

definition fileAt :: "fs \<Rightarrow> string list \<Rightarrow> string option" where
  "fileAt fs p = (case map_of fs p of Some (File data) \<Rightarrow> Some data | _ \<Rightarrow> None)"

definition notThere :: "string list \<Rightarrow> fs \<Rightarrow> errno" where
  "notThere p fs = (if list_ex (\<lambda>n. fileAt fs (take n p) \<noteq> None) [0..<length p] then ENOTDIR else ENOENT)"

text \<open>\<open>os.MkdirAll\<close>: one directory after the other, those made before an error stay.\<close>

fun mkdirFrom :: "string list \<Rightarrow> string list \<Rightarrow> fs \<Rightarrow> (errno + unit) \<times> fs" where
  "mkdirFrom pre [] fs = (Inr (), fs)"
| "mkdirFrom pre (s # ss) fs = (case map_of fs (pre @ [s]) of
       Some (File _) \<Rightarrow> (Inl ENOTDIR, fs)
     | Some Dir \<Rightarrow> mkdirFrom (pre @ [s]) ss fs
     | None \<Rightarrow> mkdirFrom (pre @ [s]) ss (AList.update (pre @ [s]) Dir fs))"

definition MkdirAll :: "string list \<Rightarrow> fs \<Rightarrow> (errno + unit) \<times> fs" where
  "MkdirAll p fs = mkdirFrom [] p fs"

definition WriteFile :: "string list \<Rightarrow> string \<Rightarrow> fs \<Rightarrow> errno + fs" where
  "WriteFile p data fs =
     (if map_of fs p = Some Dir then Inl EISDIR
      else if butlast p = [] \<or> map_of fs (butlast p) = Some Dir then Inr (AList.update p (File data) fs)
      else Inl (notThere p fs))"

definition ReadFile :: "string list \<Rightarrow> fs \<Rightarrow> errno + string" where
  "ReadFile p fs = (case map_of fs p of
       Some (File data) \<Rightarrow> Inr data
     | Some Dir \<Rightarrow> Inl EISDIR
     | None \<Rightarrow> Inl (notThere p fs))"

definition Remove :: "string list \<Rightarrow> fs \<Rightarrow> errno + fs" where
  "Remove p fs = (case map_of fs p of
       Some (File _) \<Rightarrow> Inr (AList.delete p fs)
     | Some Dir \<Rightarrow> if \<exists>(q, _) \<in> set fs. strict_prefix p q then Inl ENOTEMPTY else Inr (AList.delete p fs)
     | None \<Rightarrow> Inl (notThere p fs))"

section \<open>The store\<close>

definition keyPath :: "string \<Rightarrow> string list" where
  "keyPath key = splitOn CHR ''/'' key"

definition sidecar :: "string list \<Rightarrow> string list" where
  "sidecar p = butlast p @ [last p @ ''.ct'']"

text \<open>\<open>ErrNotFound\<close> is \<open>fs.ErrNotExist\<close>, which \<open>ENOENT\<close> is and no other error here.\<close>

definition diskError :: "errno \<Rightarrow> blob_error" where
  "diskError e = (case e of ENOENT \<Rightarrow> BlobNotFound | ENOTDIR \<Rightarrow> StoreFailed ''not a directory''
     | EISDIR \<Rightarrow> StoreFailed ''is a directory'' | ENOTEMPTY \<Rightarrow> StoreFailed ''directory not empty'')"

definition diskPath :: "'a ctx_scheme \<Rightarrow> string \<Rightarrow> blob_error + string list" where
  "diskPath ctx key = and_then (CheckKey ctx key) (\<lambda>_. Inr (keyPath key))"

definition DiskPut :: "'a ctx_scheme \<Rightarrow> string \<Rightarrow> string \<Rightarrow> string \<Rightarrow> fs \<Rightarrow> (blob_error + unit) \<times> fs" where
  "DiskPut ctx key contentType data fs = (case diskPath ctx key of
       Inl e \<Rightarrow> (Inl e, fs)
     | Inr p \<Rightarrow> (case MkdirAll (butlast p) fs of
           (Inl e, fs1) \<Rightarrow> (Inl (diskError e), fs1)
         | (Inr _, fs1) \<Rightarrow> (case WriteFile p data fs1 of
               Inl e \<Rightarrow> (Inl (diskError e), fs1)
             | Inr fs2 \<Rightarrow> (case WriteFile (sidecar p) contentType fs2 of
                   Inl e \<Rightarrow> (Inl (diskError e), fs2)
                 | Inr fs3 \<Rightarrow> (Inr (), fs3)))))"

definition DiskGet :: "'a ctx_scheme \<Rightarrow> string \<Rightarrow> fs \<Rightarrow> blob_error + blob_object" where
  "DiskGet ctx key fs = and_then (diskPath ctx key) (\<lambda>p. case ReadFile p fs of
       Inl e \<Rightarrow> Inl (diskError e)
     | Inr data \<Rightarrow> Inr (data, case ReadFile (sidecar p) fs of Inl _ \<Rightarrow> [] | Inr ct \<Rightarrow> ct))"

definition DiskDelete :: "'a ctx_scheme \<Rightarrow> string \<Rightarrow> fs \<Rightarrow> (blob_error + unit) \<times> fs" where
  "DiskDelete ctx key fs = (case diskPath ctx key of
       Inl e \<Rightarrow> (Inl e, fs)
     | Inr p \<Rightarrow>
         let fs1 = (case Remove (sidecar p) fs of Inl _ \<Rightarrow> fs | Inr fs1 \<Rightarrow> fs1) in
         (case Remove p fs1 of
             Inl e \<Rightarrow> (if e \<noteq> ENOENT then Inl (diskError e) else Inr (), fs1)
           | Inr fs2 \<Rightarrow> (Inr (), fs2)))"

definition diskStep :: "'a ctx_scheme \<times> blob_op \<Rightarrow> fs \<Rightarrow> fs \<times> blob_answer" where
  "diskStep call fs = (case call of
       (ctx, PutOp k ct data) \<Rightarrow> (case DiskPut ctx k ct data fs of (r, fs') \<Rightarrow> (fs', and_then r (\<lambda>_. Inr None)))
     | (ctx, GetOp k) \<Rightarrow> (fs, and_then (DiskGet ctx k fs) (\<lambda>o'. Inr (Some o')))
     | (ctx, DeleteOp k) \<Rightarrow> (case DiskDelete ctx k fs of (r, fs') \<Rightarrow> (fs', and_then r (\<lambda>_. Inr None))))"

section \<open>Keys whose files cannot collide\<close>

text \<open>
  No key of the set is a directory of another's path, and the sidecar of none is the file of another
  or a directory of its path.
\<close>

definition separate :: "string set \<Rightarrow> bool" where
  "separate K \<longleftrightarrow> (\<forall>k \<in> K. \<forall>k' \<in> K.
     \<not> strict_prefix (keyPath k) (keyPath k') \<and> \<not> prefix (sidecar (keyPath k)) (keyPath k'))"

definition diskInv :: "string set \<Rightarrow> fs \<Rightarrow> bool" where
  "diskInv K fs \<longleftrightarrow> separate K \<and> (\<forall>q n. map_of fs q = Some n \<longrightarrow>
     (case n of Dir \<Rightarrow> \<exists>k \<in> K. strict_prefix q (keyPath k)
      | File _ \<Rightarrow> \<exists>k \<in> K. q = keyPath k \<or> q = sidecar (keyPath k)))"

definition storeOf :: "string set \<Rightarrow> fs \<Rightarrow> mem_store" where
  "storeOf K fs = (\<lambda>key. if key \<in> K
     then map_option (\<lambda>data. (data, case fileAt fs (sidecar (keyPath key)) of None \<Rightarrow> [] | Some ct \<Rightarrow> ct))
            (fileAt fs (keyPath key))
     else None)"

lemma keyPath_inject [simp]: "keyPath k = keyPath k' \<longleftrightarrow> k = k'"
  unfolding keyPath_def by (metis joinWith_splitOn)

lemma keyPath_nonempty [simp]: "keyPath k \<noteq> []"
  by (simp add: keyPath_def)

lemma sidecar_simps [simp]: "butlast (sidecar p) = butlast p" "sidecar p \<noteq> []"
  by (simp_all add: sidecar_def)

lemma sidecar_snoc: "sidecar (p @ [s]) = p @ [s @ ''.ct'']"
  by (simp add: sidecar_def)

lemma sidecar_neq [simp]: "p \<noteq> [] \<Longrightarrow> sidecar p \<noteq> p"
  by (cases p rule: rev_cases) (simp_all add: sidecar_snoc)

lemma sidecar_inject: "p \<noteq> [] \<Longrightarrow> q \<noteq> [] \<Longrightarrow> sidecar p = sidecar q \<longleftrightarrow> p = q"
  by (cases p rule: rev_cases; cases q rule: rev_cases) (simp_all add: sidecar_snoc)

lemma prefix_butlast_strict: "p \<noteq> [] \<Longrightarrow> prefix q (butlast p) \<longleftrightarrow> strict_prefix q p"
  by (cases p rule: rev_cases) (auto simp: strict_prefix_def)

lemma sidecar_prefix: "p \<noteq> [] \<Longrightarrow> strict_prefix (sidecar q) (sidecar p) \<longleftrightarrow> strict_prefix (sidecar q) p"
  using prefix_butlast_strict [of p "sidecar q"] prefix_butlast_strict [of "sidecar p" "sidecar q"] by simp

lemma strict_prefix_sidecar: "p \<noteq> [] \<Longrightarrow> strict_prefix q (sidecar p) \<longleftrightarrow> strict_prefix q p"
  using prefix_butlast_strict [of p q] prefix_butlast_strict [of "sidecar p" q] by simp

section \<open>The calls under the invariant\<close>

lemma mkdirFrom_ok:
  assumes "\<And>q d. prefix q (pre @ ss) \<Longrightarrow> map_of fs q \<noteq> Some (File d)"
  shows "\<exists>fs'. mkdirFrom pre ss fs = (Inr (), fs')
     \<and> map_of fs' = (\<lambda>q. if q \<noteq> pre \<and> prefix pre q \<and> prefix q (pre @ ss) then Some Dir else map_of fs q)"
  using assms
proof (induction pre ss fs rule: mkdirFrom.induct)
  case (1 pre fs)
  then show ?case by (auto intro!: ext dest: prefix_order.antisym)
next
  case (2 pre s ss fs)
  have split: "q \<noteq> pre \<and> prefix pre q \<and> prefix q (pre @ s # ss) \<longleftrightarrow>
      q = pre @ [s] \<or> (q \<noteq> pre @ [s] \<and> prefix (pre @ [s]) q \<and> prefix q ((pre @ [s]) @ ss))" for q
    by (auto simp: prefix_def append_eq_Cons_conv Cons_eq_append_conv)
  show ?case
  proof (cases "map_of fs (pre @ [s])")
    case None
    have "map_of (AList.update (pre @ [s]) Dir fs) q \<noteq> Some (File d)" if "prefix q ((pre @ [s]) @ ss)" for q d
      using 2(3) [of q d] that by (auto simp: update_conv')
    from 2(1) [OF None this] None show ?thesis
      unfolding split by (auto simp: update_conv' intro!: ext)
  next
    case (Some n)
    with 2(3) [of "pre @ [s]"] have n: "n = Dir" by (cases n) auto
    have "map_of fs q \<noteq> Some (File d)" if "prefix q ((pre @ [s]) @ ss)" for q d
      using 2(3) [of q d] that by simp
    from 2(2) [OF Some n this] Some n show ?thesis
      unfolding split by (auto intro!: ext)
  qed
qed

lemma separateD:
  assumes "separate K" and "k \<in> K" and "k' \<in> K"
  shows "\<not> strict_prefix (keyPath k) (keyPath k')" "\<not> strict_prefix (sidecar (keyPath k)) (keyPath k')"
    "sidecar (keyPath k) \<noteq> keyPath k'"
proof -
  have "\<not> strict_prefix (keyPath k) (keyPath k') \<and> \<not> prefix (sidecar (keyPath k)) (keyPath k')"
    using assms by (simp add: separate_def)
  then show "\<not> strict_prefix (keyPath k) (keyPath k')" "\<not> strict_prefix (sidecar (keyPath k)) (keyPath k')"
    "sidecar (keyPath k) \<noteq> keyPath k'" by (auto simp: strict_prefix_def)
qed

lemma diskInvD:
  assumes "diskInv K fs"
  shows "separate K" "map_of fs q = Some Dir \<Longrightarrow> \<exists>k \<in> K. strict_prefix q (keyPath k)"
    "map_of fs q = Some (File d) \<Longrightarrow> \<exists>k \<in> K. q = keyPath k \<or> q = sidecar (keyPath k)"
  using assms by (fastforce simp: diskInv_def)+

text \<open>Under the invariant a key's two files are no directories, and no file is above them.\<close>

lemma diskInv_own:
  assumes "diskInv K fs" and "key \<in> K"
  shows "map_of fs (keyPath key) \<noteq> Some Dir" "map_of fs (sidecar (keyPath key)) \<noteq> Some Dir"
    "strict_prefix q (keyPath key) \<Longrightarrow> map_of fs q \<noteq> Some (File d)"
  using diskInvD [OF assms(1)] separateD [OF diskInvD(1) [OF assms(1)]] assms(2) by blast+

lemma notThere_ENOENT:
  assumes "\<And>r d. strict_prefix r q \<Longrightarrow> map_of fs r \<noteq> Some (File d)"
  shows "notThere q fs = ENOENT"
proof -
  have "fileAt fs (take n q) = None" if "n < length q" for n
  proof -
    have "strict_prefix (take n q) q" using that
      by (metis length_take linorder_not_less min.absorb4 order_refl strict_prefix_def take_is_prefix)
    with assms show ?thesis by (auto simp: fileAt_def split: option.split fs_node.split)
  qed
  then show ?thesis by (auto simp: notThere_def list_ex_iff)
qed

lemma notThere_key:
  assumes "diskInv K fs" and "key \<in> K"
  shows "notThere (keyPath key) fs = ENOENT" "notThere (sidecar (keyPath key)) fs = ENOENT"
  using diskInv_own(3) [OF assms] by (auto intro!: notThere_ENOENT simp: strict_prefix_sidecar)

lemma ReadFile_key:
  assumes "diskInv K fs" and "key \<in> K" and "q = keyPath key \<or> q = sidecar (keyPath key)"
  shows "ReadFile q fs = (case fileAt fs q of None \<Rightarrow> Inl ENOENT | Some d \<Rightarrow> Inr d)"
  using assms(3) diskInv_own(1,2) [OF assms(1,2)] notThere_key [OF assms(1,2)]
  by (auto simp: ReadFile_def fileAt_def split: option.split fs_node.split)

lemma Remove_key:
  assumes "diskInv K fs" and "key \<in> K" and "q = keyPath key \<or> q = sidecar (keyPath key)"
  shows "Remove q fs = (case fileAt fs q of None \<Rightarrow> Inl ENOENT | Some _ \<Rightarrow> Inr (AList.delete q fs))"
  using assms(3) diskInv_own(1,2) [OF assms(1,2)] notThere_key [OF assms(1,2)]
  by (auto simp: Remove_def fileAt_def split: option.split fs_node.split)

lemma DiskGet_store:
  assumes "diskInv K fs" and "key \<in> K"
  shows "DiskGet ctx key fs = MemGet ctx key (storeOf K fs)"
  using assms(2) ReadFile_key [OF assms]
  by (auto simp: DiskGet_def MemGet_def diskPath_def storeOf_def diskError_def and_then_assoc
      intro!: and_then_cong split: option.split)

definition afterPut :: "string list \<Rightarrow> string \<Rightarrow> string \<Rightarrow> (string list \<rightharpoonup> fs_node) \<Rightarrow> string list \<rightharpoonup> fs_node" where
  "afterPut p data ct m = (\<lambda>q. if q \<noteq> [] \<and> strict_prefix q p then Some Dir else m q)(p \<mapsto> File data, sidecar p \<mapsto> File ct)"

lemma DiskPut_fs:
  assumes "diskInv K fs" and "key \<in> K" and "CheckKey ctx key = Inr ()"
  shows "\<exists>fs'. DiskPut ctx key ct data fs = (Inr (), fs') \<and> map_of fs' = afterPut (keyPath key) data ct (map_of fs)"
proof -
  let ?p = "keyPath key"
  let ?m = "\<lambda>q. if q \<noteq> [] \<and> strict_prefix q ?p then Some Dir else map_of fs q"
  have "\<exists>fs1. mkdirFrom [] (butlast ?p) fs = (Inr (), fs1) \<and> map_of fs1 = ?m"
    using mkdirFrom_ok [of "[]" "butlast ?p" fs] diskInv_own(3) [OF assms(1,2)] by (simp add: prefix_butlast_strict)
  then obtain fs1 where mk: "MkdirAll (butlast ?p) fs = (Inr (), fs1)" and fs1: "map_of fs1 = ?m"
    by (auto simp: MkdirAll_def)
  have "\<not> strict_prefix (sidecar ?p) ?p" using separateD(2) [OF diskInvD(1) [OF assms(1)]] assms(2) by blast
  then have nodir: "map_of fs1 ?p \<noteq> Some Dir" "map_of fs1 (sidecar ?p) \<noteq> Some Dir"
    unfolding fs1 using diskInv_own(1,2) [OF assms(1,2)] by auto
  have parent: "butlast ?p = [] \<or> map_of fs1 (butlast ?p) = Some Dir"
    unfolding fs1 using prefix_butlast_strict [of ?p "butlast ?p"] by auto
  have "butlast ?p \<noteq> ?p" using keyPath_nonempty [of key] by (metis prefix_butlast_strict prefix_order.refl prefix_order.less_irrefl)
  then have parent2: "butlast ?p = [] \<or> map_of (AList.update ?p (File data) fs1) (butlast ?p) = Some Dir"
    using parent by (auto simp: update_conv')
  show ?thesis
    using assms(3) mk nodir parent parent2
    by (auto simp: DiskPut_def diskPath_def WriteFile_def update_conv' fs1 afterPut_def)
qed

lemma storeOf_put:
  assumes "diskInv K fs" and "key \<in> K" and "map_of fs' = afterPut (keyPath key) data ct (map_of fs)"
  shows "diskInv K fs'" "storeOf K fs' = (storeOf K fs)(key \<mapsto> (data, ct))"
proof -
  note sep = diskInvD(1) [OF assms(1)]
  show "diskInv K fs'"
    using assms sep by (auto simp: diskInv_def afterPut_def split: if_splits)
  have "fileAt fs' (keyPath k) = (if k = key then Some data else fileAt fs (keyPath k))"
    "fileAt fs' (sidecar (keyPath k)) = (if k = key then Some ct else fileAt fs (sidecar (keyPath k)))" if "k \<in> K" for k
    using separateD [OF sep that assms(2)] separateD [OF sep assms(2) that]
    by (auto simp: fileAt_def assms(3) afterPut_def sidecar_inject)
  then show "storeOf K fs' = (storeOf K fs)(key \<mapsto> (data, ct))"
    using assms(2) by (auto simp: storeOf_def)
qed

lemma DiskDelete_fs:
  assumes "diskInv K fs" and "key \<in> K" and "CheckKey ctx key = Inr ()"
  shows "\<exists>fs'. DiskDelete ctx key fs = (Inr (), fs')
     \<and> map_of fs' = (map_of fs)(sidecar (keyPath key) := None, keyPath key := None)"
proof -
  let ?p = "keyPath key"
  define fs1 where "fs1 = (case Remove (sidecar ?p) fs of Inl _ \<Rightarrow> fs | Inr fs1 \<Rightarrow> fs1)"
  have gone: "fileAt fs q = None \<Longrightarrow> map_of fs q \<noteq> Some Dir \<Longrightarrow> map_of fs q = None" for fs q
    by (auto simp: fileAt_def split: option.splits fs_node.splits)
  have fs1: "map_of fs1 = (map_of fs)(sidecar ?p := None)"
    using Remove_key [OF assms(1,2), of "sidecar ?p"] gone [OF _ diskInv_own(2) [OF assms(1,2)]]
    by (auto simp: fs1_def delete_conv' split: option.splits)
  then have inv1: "diskInv K fs1" using assms(1) by (auto simp: diskInv_def split: if_splits)
  have "Remove ?p fs1 = Inl ENOENT \<and> map_of fs1 ?p = None \<or> Remove ?p fs1 = Inr (AList.delete ?p fs1)"
    using Remove_key [OF inv1 assms(2), of ?p] gone [OF _ diskInv_own(1) [OF inv1 assms(2)]]
    by (auto split: option.splits)
  then show ?thesis
    using assms(3) unfolding DiskDelete_def Let_def diskPath_def
    by (auto simp: fs1_def [symmetric] delete_conv' fun_upd_idem simp flip: fs1)
qed

lemma storeOf_delete:
  assumes "diskInv K fs" and "key \<in> K" and "map_of fs' = (map_of fs)(sidecar (keyPath key) := None, keyPath key := None)"
  shows "diskInv K fs'" "storeOf K fs' = (storeOf K fs)(key := None)"
proof -
  note sep = diskInvD(1) [OF assms(1)]
  show "diskInv K fs'" using assms by (auto simp: diskInv_def split: if_splits)
  have "fileAt fs' (keyPath k) = (if k = key then None else fileAt fs (keyPath k))"
    "k \<noteq> key \<Longrightarrow> fileAt fs' (sidecar (keyPath k)) = fileAt fs (sidecar (keyPath k))" if "k \<in> K" for k
    using separateD [OF sep that assms(2)] separateD [OF sep assms(2) that]
    by (auto simp: fileAt_def assms(3) sidecar_inject)
  then show "storeOf K fs' = (storeOf K fs)(key := None)"
    using assms(2) by (auto simp: storeOf_def)
qed

section \<open>The refinement\<close>

lemma DiskPut_refused: "CheckKey ctx key = Inl e \<Longrightarrow> DiskPut ctx key ct data fs = (Inl e, fs)"
  by (simp add: DiskPut_def diskPath_def)

lemma DiskDelete_refused: "CheckKey ctx key = Inl e \<Longrightarrow> DiskDelete ctx key fs = (Inl e, fs)"
  by (simp add: DiskDelete_def diskPath_def)

lemma diskStep_call:
  assumes "diskInv K fs" and "opKey op \<in> K"
  shows "diskInv K (fst (diskStep (ctx, op) fs))
     \<and> memStep (ctx, op) (storeOf K fs) = (storeOf K (fst (diskStep (ctx, op) fs)), snd (diskStep (ctx, op) fs))"
proof (cases "CheckKey ctx (opKey op)")
  case (Inl e)
  then show ?thesis using assms
    by (cases op) (simp_all add: diskStep_def memStep_def DiskPut_refused DiskDelete_refused DiskGet_store MemPut_def MemDelete_def)
next
  case (Inr u)
  then have key: "CheckKey ctx (opKey op) = Inr ()" by simp
  show ?thesis
  proof (cases op)
    case (PutOp k ct data)
    with key assms DiskPut_fs [of K fs k ctx ct data] obtain fs' where
      "DiskPut ctx k ct data fs = (Inr (), fs')" "map_of fs' = afterPut (keyPath k) data ct (map_of fs)" by auto
    with PutOp key assms storeOf_put [of K fs k fs' data ct] show ?thesis
      by (simp add: diskStep_def memStep_def MemPut_def)
  next
    case (GetOp k)
    with assms show ?thesis by (simp add: diskStep_def memStep_def DiskGet_store)
  next
    case (DeleteOp k)
    with key assms DiskDelete_fs [of K fs k ctx] obtain fs' where
      "DiskDelete ctx k fs = (Inr (), fs')" "map_of fs' = (map_of fs)(sidecar (keyPath k) := None, keyPath k := None)" by auto
    with DeleteOp key assms storeOf_delete [of K fs k fs'] show ?thesis
      by (simp add: diskStep_def memStep_def MemDelete_def)
  qed
qed

lemma diskStep_refines:
  assumes "diskInv K fs" and "opKey (snd call) \<in> K"
  shows "diskInv K (fst (diskStep call fs))"
    "memStep call (storeOf K fs) = (storeOf K (fst (diskStep call fs)), snd (diskStep call fs))"
  using diskStep_call [OF assms, of "fst call"] by simp_all

interpretation disk: simulation "diskInv K" "storeOf K" diskStep memStep "\<lambda>call. opKey (snd call) \<in> K" for K
  by unfold_locales (rule diskStep_refines; assumption)+

text \<open>
  C19. The store on disk is the store in memory. On any set of keys whose files cannot collide (no key
  a directory of another, no sidecar the file or a directory of another), any sequence of \<open>Put\<close>, \<open>Get\<close>
  and \<open>Delete\<close> for any tenants, from an empty directory, gives the answers of \<open>MemStore\<close>, and leaves
  the same blobs with the same content types.
\<close>

theorem disk_store_is_the_memory_store:
  assumes "separate K" and "opKey ` snd ` set calls \<subseteq> K"
  shows "runWith memStep calls NewMemStore
     = (storeOf K (fst (runWith diskStep calls [])), snd (runWith diskStep calls []))"
proof -
  have "diskInv K []" using assms(1) by (simp add: diskInv_def)
  moreover have "storeOf K [] = NewMemStore" by (auto simp: storeOf_def fileAt_def NewMemStore_def)
  ultimately show ?thesis
    using disk.refines_run [of K "[]" calls] assms(2) by (auto simp: list_all_iff)
qed

text \<open>
  The condition is needed: a blob named as the sidecar of another is its content type. Writing the
  second one changes what the first one is read as, which the store in memory does not.
\<close>

lemma sidecar_collides:
  "let calls = [(acme, PutOp ''acme/a'' ''text/plain'' ''hi''), (acme, PutOp ''acme/a.ct'' ''image/png'' ''x''), (acme, GetOp ''acme/a'')] in
   snd (runWith diskStep calls []) = [Inr None, Inr None, Inr (Some (''hi'', ''x''))]
   \<and> snd (runWith memStep calls NewMemStore) = [Inr None, Inr None, Inr (Some (''hi'', ''text/plain''))]"
  by code_simp

theorem disk_store_is_the_memory_store_witness:
  "let calls = [(acme, PutOp ''acme/a/1'' ''t'' ''x''), (acme, GetOp ''acme/a/1''), (acme, DeleteOp ''acme/b''),
       (acme, DeleteOp ''acme/a/1''), (acme, GetOp ''acme/a/1''), (acme, PutOp ''zeta/b'' ''t'' ''x'')] in
   runWith memStep calls NewMemStore
     = (storeOf {''acme/a/1'', ''acme/b'', ''zeta/b''} (fst (runWith diskStep calls [])), snd (runWith diskStep calls []))"
proof -
  have "separate {''acme/a/1'', ''acme/b'', ''zeta/b''}" by code_simp
  then show ?thesis unfolding Let_def by (rule disk_store_is_the_memory_store) simp
qed

end
