(* ===== verification/Blob_S3.thy ===== *)
theory Blob_S3
  imports Blob_Store
begin

text \<open>
  \<open>S3Store\<close> (\<open>src/blob/s3.go\<close>) over the MinIO client, which is an argument: the client of an endpoint, its
  requests on the state of the object store, its signatures. Over a bucket that keeps what it is
  given, the store is the one in memory, for the names and content types the object store takes as they
  are, and Cores that share a bucket do not meet.
\<close>

section \<open>The client library\<close>

text \<open>
  An error of the client has the code of the store's answer, if any. \<open>GetObject\<close> opens a reader, \<open>Stat\<close>
  and \<open>ReadAll\<close> work on it; each may fail.
\<close>

record s3_error =
  se_Code :: string
  se_text :: string

record ('c, 'w) minio =
  mi_New :: "string \<Rightarrow> bool \<Rightarrow> string \<Rightarrow> string \<Rightarrow> string \<Rightarrow> string + 'c"
  mi_PutObject :: "'c \<Rightarrow> string \<Rightarrow> string \<Rightarrow> string \<Rightarrow> string \<Rightarrow> 'w \<Rightarrow> (s3_error + unit) \<times> 'w"
  mi_GetObject :: "'c \<Rightarrow> string \<Rightarrow> string \<Rightarrow> 'w \<Rightarrow> s3_error + unit"
  mi_Stat :: "'c \<Rightarrow> string \<Rightarrow> string \<Rightarrow> 'w \<Rightarrow> s3_error + string"
  mi_ReadAll :: "'c \<Rightarrow> string \<Rightarrow> string \<Rightarrow> 'w \<Rightarrow> s3_error + string"
  mi_RemoveObject :: "'c \<Rightarrow> string \<Rightarrow> string \<Rightarrow> 'w \<Rightarrow> (s3_error + unit) \<times> 'w"
  mi_PresignedGet :: "'c \<Rightarrow> string \<Rightarrow> string \<Rightarrow> duration \<Rightarrow> s3_error + string"
  mi_PresignedPut :: "'c \<Rightarrow> string \<Rightarrow> string \<Rightarrow> duration \<Rightarrow> s3_error + string"

section \<open>The store\<close>

record s3_config =
  sc_Endpoint :: string
  sc_Secure :: bool
  sc_Region :: string
  sc_Bucket :: string
  sc_AccessKey :: string
  sc_SecretKey :: string
  sc_Core :: string
  sc_PublicEndpoint :: string
  sc_PublicSecure :: bool

record 'c s3_store =
  st_client :: 'c
  st_signer :: 'c
  st_bucket :: string
  st_core :: string
  st_timeout :: duration

datatype s3_config_error = Incomplete | CoreNotASegment | ClientFailed string | PublicClientFailed string

definition newClient :: "('c, 'w) minio \<Rightarrow> s3_config \<Rightarrow> string \<Rightarrow> bool \<Rightarrow> string + 'c" where
  "newClient M cfg endpoint secure = mi_New M endpoint secure (sc_Region cfg) (sc_AccessKey cfg) (sc_SecretKey cfg)"

definition NewS3 :: "('c, 'w) minio \<Rightarrow> s3_config \<Rightarrow> s3_config_error + 'c s3_store" where
  "NewS3 M cfg =
     (if sc_Endpoint cfg = [] \<or> sc_Bucket cfg = [] \<or> sc_Core cfg = [] then Inl Incomplete
      else if set (sc_Core cfg) \<inter> {CHR ''/'', CHR 0x5C, CHR '' ''} \<noteq> {} \<or> sc_Core cfg = ''.'' \<or> sc_Core cfg = ''..''
      then Inl CoreNotASegment
      else (case newClient M cfg (sc_Endpoint cfg) (sc_Secure cfg) of
          Inl e \<Rightarrow> Inl (ClientFailed e)
        | Inr c \<Rightarrow>
            let store = (\<lambda>signer. \<lparr>st_client = c, st_signer = signer, st_bucket = sc_Bucket cfg,
                           st_core = sc_Core cfg, st_timeout = 30 * Second\<rparr>) in
            if sc_PublicEndpoint cfg = [] then Inr (store c)
            else (case newClient M cfg (sc_PublicEndpoint cfg) (sc_PublicSecure cfg) of
                Inl e \<Rightarrow> Inl (PublicClientFailed e)
              | Inr signer \<Rightarrow> Inr (store signer))))"

definition s3Object :: "'c s3_store \<Rightarrow> 'a ctx_scheme \<Rightarrow> string \<Rightarrow> blob_error + string" where
  "s3Object s ctx key = and_then (CheckKey ctx key) (\<lambda>_. Inr (st_core s @ CHR ''/'' # key))"

definition s3Wrap :: "s3_error \<Rightarrow> blob_error" where
  "s3Wrap e = (if se_Code e = ''NoSuchKey'' then BlobNotFound else StoreFailed (se_text e))"

definition S3Put :: "('c, 'w) minio \<Rightarrow> 'c s3_store \<Rightarrow> 'a ctx_scheme \<Rightarrow> string \<Rightarrow> string \<Rightarrow> string \<Rightarrow> 'w \<Rightarrow> (blob_error + unit) \<times> 'w" where
  "S3Put M s ctx key contentType data w = (case s3Object s ctx key of
       Inl e \<Rightarrow> (Inl e, w)
     | Inr obj \<Rightarrow> (case mi_PutObject M (st_client s) (st_bucket s) obj data contentType w of
           (Inl e, w') \<Rightarrow> (Inl (StoreFailed (se_text e)), w')
         | (Inr _, w') \<Rightarrow> (Inr (), w')))"

definition orWrap :: "s3_error + 'x \<Rightarrow> blob_error + 'x" where
  "orWrap r = (case r of Inl e \<Rightarrow> Inl (s3Wrap e) | Inr x \<Rightarrow> Inr x)"

definition S3Get :: "('c, 'w) minio \<Rightarrow> 'c s3_store \<Rightarrow> 'a ctx_scheme \<Rightarrow> string \<Rightarrow> 'w \<Rightarrow> blob_error + blob_object" where
  "S3Get M s ctx key w =
     and_then (s3Object s ctx key) (\<lambda>obj.
     and_then (orWrap (mi_GetObject M (st_client s) (st_bucket s) obj w)) (\<lambda>_.
     and_then (orWrap (mi_Stat M (st_client s) (st_bucket s) obj w)) (\<lambda>contentType.
     and_then (orWrap (mi_ReadAll M (st_client s) (st_bucket s) obj w)) (\<lambda>data.
     Inr (data, contentType)))))"

definition S3Delete :: "('c, 'w) minio \<Rightarrow> 'c s3_store \<Rightarrow> 'a ctx_scheme \<Rightarrow> string \<Rightarrow> 'w \<Rightarrow> (blob_error + unit) \<times> 'w" where
  "S3Delete M s ctx key w = (case s3Object s ctx key of
       Inl e \<Rightarrow> (Inl e, w)
     | Inr obj \<Rightarrow> (case mi_RemoveObject M (st_client s) (st_bucket s) obj w of
           (Inl e, w') \<Rightarrow> (Inl (StoreFailed (se_text e)), w')
         | (Inr _, w') \<Rightarrow> (Inr (), w')))"

text \<open>Both signed URLs: the key, the time to live, the signature of the signer; the error is not wrapped.\<close>

definition presigned :: "s3_error + string \<Rightarrow> blob_error + string" where
  "presigned r = (case r of Inl e \<Rightarrow> Inl (StoreFailed (se_text e)) | Inr u \<Rightarrow> Inr u)"

definition S3PresignGet :: "('c, 'w) minio \<Rightarrow> 'c s3_store \<Rightarrow> 'a ctx_scheme \<Rightarrow> string \<Rightarrow> duration \<Rightarrow> blob_error + string" where
  "S3PresignGet M s ctx key ttl = and_then (s3Object s ctx key) (\<lambda>obj. and_then (checkTTL ttl) (\<lambda>_.
     presigned (mi_PresignedGet M (st_signer s) (st_bucket s) obj ttl)))"

definition S3PresignPut :: "('c, 'w) minio \<Rightarrow> 'c s3_store \<Rightarrow> 'a ctx_scheme \<Rightarrow> string \<Rightarrow> string \<Rightarrow> duration \<Rightarrow> blob_error + string" where
  "S3PresignPut M s ctx key contentType ttl = and_then (s3Object s ctx key) (\<lambda>obj. and_then (checkTTL ttl) (\<lambda>_.
     presigned (mi_PresignedPut M (st_signer s) (st_bucket s) obj ttl)))"

definition s3Step :: "('c, 'w) minio \<Rightarrow> 'c s3_store \<Rightarrow> 'a ctx_scheme \<times> blob_op \<Rightarrow> 'w \<Rightarrow> 'w \<times> blob_answer" where
  "s3Step M s call w = (case call of
       (ctx, PutOp k ct data) \<Rightarrow> (case S3Put M s ctx k ct data w of (r, w') \<Rightarrow> (w', and_then r (\<lambda>_. Inr None)))
     | (ctx, GetOp k) \<Rightarrow> (w, and_then (S3Get M s ctx k w) (\<lambda>o'. Inr (Some o')))
     | (ctx, DeleteOp k) \<Rightarrow> (case S3Delete M s ctx k w of (r, w') \<Rightarrow> (w', and_then r (\<lambda>_. Inr None))))"

section \<open>A bucket that keeps what it is given\<close>

text \<open>
  The names and content types that are beyond doubt: S3 takes object names of up to 1024 bytes, the
  client library refuses what is not UTF-8 and sends an empty content type as another one, and HTTP
  trims a header. Printable ASCII it is, here.
\<close>

definition printable :: "string \<Rightarrow> bool" where
  "printable s \<longleftrightarrow> (\<forall>c \<in> set s. 32 \<le> (of_char c :: nat) \<and> (of_char c :: nat) \<le> 126)"

definition s3Name :: "string \<Rightarrow> bool" where
  "s3Name obj \<longleftrightarrow> obj \<noteq> [] \<and> length obj \<le> 1024 \<and> printable obj"

definition s3Type :: "string \<Rightarrow> bool" where
  "s3Type ct \<longleftrightarrow> ct \<noteq> [] \<and> printable ct \<and> hd ct \<noteq> CHR '' '' \<and> last ct \<noteq> CHR '' ''"

text \<open>
  What S3 documents of a bucket that exists and that the client \<open>c\<close> may use, while it is reachable, with
  \<open>view\<close> the objects of all buckets: a \<open>PUT\<close> stores one object, a \<open>DELETE\<close> removes one and is no error
  without one, and a read sees the last of them.
\<close>

definition keeps :: "('c, 'w) minio \<Rightarrow> ('w \<Rightarrow> string \<times> string \<rightharpoonup> blob_object) \<Rightarrow> 'c \<Rightarrow> string \<Rightarrow> bool" where
  "keeps M view c b \<longleftrightarrow> (\<forall>obj w. s3Name obj \<longrightarrow>
     (\<forall>data ct. s3Type ct \<longrightarrow> fst (mi_PutObject M c b obj data ct w) = Inr ()
        \<and> view (snd (mi_PutObject M c b obj data ct w)) = (view w)((b, obj) \<mapsto> (data, ct)))
     \<and> fst (mi_RemoveObject M c b obj w) = Inr ()
     \<and> view (snd (mi_RemoveObject M c b obj w)) = (view w)((b, obj) := None)
     \<and> mi_GetObject M c b obj w = Inr ()
     \<and> (case view w (b, obj) of
           None \<Rightarrow> \<exists>e. mi_Stat M c b obj w = Inl e \<and> se_Code e = ''NoSuchKey''
         | Some (data, ct) \<Rightarrow> mi_Stat M c b obj w = Inr ct \<and> mi_ReadAll M c b obj w = Inr data))"

lemma keepsD:
  assumes "keeps M view c b" and "s3Name obj"
  shows "s3Type ct \<Longrightarrow> \<exists>w'. mi_PutObject M c b obj data ct w = (Inr (), w') \<and> view w' = (view w)((b, obj) \<mapsto> (data, ct))"
    "\<exists>w'. mi_RemoveObject M c b obj w = (Inr (), w') \<and> view w' = (view w)((b, obj) := None)"
    "mi_GetObject M c b obj w = Inr ()"
    "view w (b, obj) = None \<Longrightarrow> \<exists>e. mi_Stat M c b obj w = Inl e \<and> se_Code e = ''NoSuchKey''"
    "view w (b, obj) = Some (data, ct) \<Longrightarrow> mi_Stat M c b obj w = Inr ct \<and> mi_ReadAll M c b obj w = Inr data"
proof -
  note k = assms(1) [unfolded keeps_def, rule_format, OF assms(2), of w]
  show "\<exists>w'. mi_PutObject M c b obj data ct w = (Inr (), w') \<and> view w' = (view w)((b, obj) \<mapsto> (data, ct))" if "s3Type ct"
    using k that by (cases "mi_PutObject M c b obj data ct w") (metis fst_conv snd_conv)
  show "\<exists>w'. mi_RemoveObject M c b obj w = (Inr (), w') \<and> view w' = (view w)((b, obj) := None)"
    using k by (cases "mi_RemoveObject M c b obj w") simp
qed (use assms(1) [unfolded keeps_def, rule_format, OF assms(2), of w] in simp_all)

text \<open>A call the object store takes as it is, if \<open>CheckKey\<close> lets it get there.\<close>

definition s3Takes :: "'c s3_store \<Rightarrow> 'a ctx_scheme \<times> blob_op \<Rightarrow> bool" where
  "s3Takes s call \<longleftrightarrow> (CheckKey (fst call) (opKey (snd call)) = Inr () \<longrightarrow>
     s3Name (st_core s @ CHR ''/'' # opKey (snd call))
     \<and> (case snd call of PutOp k ct data \<Rightarrow> s3Type ct | _ \<Rightarrow> True))"

text \<open>The blobs of a store: what its bucket has under the name of the Core.\<close>

definition blobsOf :: "('w \<Rightarrow> string \<times> string \<rightharpoonup> blob_object) \<Rightarrow> 'c s3_store \<Rightarrow> 'w \<Rightarrow> mem_store" where
  "blobsOf view s w = (\<lambda>key. view w (st_bucket s, st_core s @ CHR ''/'' # key))"

lemma S3_refused:
  assumes "CheckKey ctx key = Inl e"
  shows "S3Put M s ctx key ct data w = (Inl e, w)" "S3Delete M s ctx key w = (Inl e, w)" "S3Get M s ctx key w = Inl e"
  using assms by (simp_all add: S3Put_def S3Delete_def S3Get_def s3Object_def)

lemma S3Get_blobs:
  assumes "keeps M view (st_client s) (st_bucket s)" and "CheckKey ctx key = Inr ()" and "s3Name (st_core s @ CHR ''/'' # key)"
  shows "S3Get M s ctx key w = (case blobsOf view s w key of None \<Rightarrow> Inl BlobNotFound | Some x \<Rightarrow> Inr x)"
proof (cases "blobsOf view s w key")
  case None
  with keepsD(4) [OF assms(1,3)] obtain e where
    "mi_Stat M (st_client s) (st_bucket s) (st_core s @ CHR ''/'' # key) w = Inl e" "se_Code e = ''NoSuchKey''"
    by (metis blobsOf_def)
  with None assms(2) keepsD(3) [OF assms(1,3)] show ?thesis
    by (simp add: S3Get_def s3Object_def orWrap_def s3Wrap_def)
next
  case (Some x)
  obtain data ct where "x = (data, ct)" by (cases x)
  with Some keepsD(5) [OF assms(1,3), of w data ct] keepsD(3) [OF assms(1,3)] assms(2) show ?thesis
    by (simp add: S3Get_def s3Object_def orWrap_def blobsOf_def)
qed

lemma s3Step_refines:
  assumes "keeps M view (st_client s) (st_bucket s)" and "s3Takes s call"
  shows "memStep call (blobsOf view s w) = (blobsOf view s (fst (s3Step M s call w)), snd (s3Step M s call w))"
proof (cases "CheckKey (fst call) (opKey (snd call))")
  case (Inl e)
  then show ?thesis
    by (cases call; cases "snd call") (auto simp: s3Step_def memStep_def S3_refused MemPut_def MemGet_def MemDelete_def)
next
  case (Inr u)
  obtain ctx op where call: "call = (ctx, op)" by (cases call)
  from assms(2) Inr have name: "s3Name (st_core s @ CHR ''/'' # opKey (snd call))" by (simp add: s3Takes_def)
  show ?thesis
  proof (cases op)
    case (PutOp k ct data)
    with assms(2) Inr call have "s3Type ct" by (simp add: s3Takes_def)
    with PutOp keepsD(1) [OF assms(1) name, of ct data w] Inr call show ?thesis
      by (auto simp: s3Step_def memStep_def S3Put_def s3Object_def MemPut_def blobsOf_def intro!: ext)
  next
    case (GetOp k)
    with Inr call name S3Get_blobs [OF assms(1), of ctx k w] show ?thesis
      by (simp add: s3Step_def memStep_def MemGet_def)
  next
    case (DeleteOp k)
    with keepsD(2) [OF assms(1) name, of w] Inr call show ?thesis
      by (auto simp: s3Step_def memStep_def S3Delete_def s3Object_def MemDelete_def blobsOf_def intro!: ext)
  qed
qed

interpretation s3: simulation "\<lambda>_. keeps M view (st_client s) (st_bucket s)" "blobsOf view s" "s3Step M s" memStep "s3Takes s" for M view s
  by unfold_locales (simp_all add: s3Step_refines)

text \<open>Two Cores in a bucket: the names of one never are the names of the other.\<close>

lemma NewS3_core: "NewS3 M cfg = Inr s \<Longrightarrow> CHR ''/'' \<notin> set (st_core s) \<and> st_core s = sc_Core cfg \<and> st_bucket s = sc_Bucket cfg"
  by (auto simp: NewS3_def Let_def split: if_splits sum.splits)

lemma names_apart:
  assumes "CHR ''/'' \<notin> set a" and "CHR ''/'' \<notin> set b" and "a @ CHR ''/'' # x = b @ CHR ''/'' # y"
  shows "a = b \<and> x = y"
  using assms cutBefore_append_sep [of "CHR ''/''" a x] cutBefore_append_sep [of "CHR ''/''" b y] by auto

lemma s3Step_frame:
  assumes "keeps M view (st_client s) (st_bucket s)" and "s3Takes s call"
    and "CHR ''/'' \<notin> set (st_core s)" and "CHR ''/'' \<notin> set (st_core s')"
    and "(st_bucket s', st_core s') \<noteq> (st_bucket s, st_core s)"
  shows "blobsOf view s' (fst (s3Step M s call w)) = blobsOf view s' w"
proof (cases "CheckKey (fst call) (opKey (snd call))")
  case (Inl e)
  then show ?thesis by (cases call; cases "snd call") (auto simp: s3Step_def S3_refused)
next
  case (Inr u)
  have apart: "(st_bucket s', st_core s' @ CHR ''/'' # x) \<noteq> (st_bucket s, st_core s @ CHR ''/'' # y)" for x y
    using assms(3-5) names_apart by blast
  obtain ctx op where call: "call = (ctx, op)" by (cases call)
  from assms(2) Inr have name: "s3Name (st_core s @ CHR ''/'' # opKey (snd call))" by (simp add: s3Takes_def)
  show ?thesis
  proof (cases op)
    case (PutOp k ct data)
    with assms(2) Inr call have "s3Type ct" by (simp add: s3Takes_def)
    with PutOp keepsD(1) [OF assms(1) name, of ct data w] apart call Inr show ?thesis
      by (auto simp: s3Step_def S3Put_def s3Object_def blobsOf_def intro!: ext)
  next
    case (DeleteOp k)
    with keepsD(2) [OF assms(1) name, of w] apart call Inr show ?thesis
      by (auto simp: s3Step_def S3Delete_def s3Object_def blobsOf_def intro!: ext)
  qed (simp add: call s3Step_def)
qed


text \<open>
  Why the names are bounded apart from the keys: \<open>CheckKey\<close> bounds the key at the 1024 bytes S3 has for
  the whole name, and the name is longer than the key by that of the Core and a slash.
\<close>

lemma CheckKey_leaves_no_room:
  assumes "CheckKey ctx key = Inr ()" and "1024 \<le> length key + length (st_core s)"
  shows "\<exists>obj. s3Object s ctx key = Inr obj \<and> 1024 < length obj"
  using assms by (simp add: s3Object_def)

lemma S3PresignGet_Inr:
  "S3PresignGet M s ctx key ttl = Inr u \<Longrightarrow> CheckKey ctx key = Inr () \<and> 0 < ttl \<and> ttl \<le> Hour
     \<and> mi_PresignedGet M (st_signer s) (st_bucket s) (st_core s @ CHR ''/'' # key) ttl = Inr u"
  by (auto simp: S3PresignGet_def s3Object_def checkTTL_def MaxPresignTTL_def presigned_def and_then_eq_Inr
      split: if_splits sum.splits)

section \<open>Witness\<close>

text \<open>A client over a map of buckets.\<close>

definition sample_minio :: "(string, string \<times> string \<rightharpoonup> blob_object) minio" where
  "sample_minio = \<lparr>mi_New = (\<lambda>e _ _ _ _. Inr e),
     mi_PutObject = (\<lambda>_ b obj data ct w. (Inr (), w((b, obj) \<mapsto> (data, ct)))),
     mi_GetObject = (\<lambda>_ _ _ _. Inr ()),
     mi_Stat = (\<lambda>_ b obj w. case w (b, obj) of None \<Rightarrow> Inl \<lparr>se_Code = ''NoSuchKey'', se_text = []\<rparr> | Some (_, ct) \<Rightarrow> Inr ct),
     mi_ReadAll = (\<lambda>_ b obj w. case w (b, obj) of None \<Rightarrow> Inl \<lparr>se_Code = ''NoSuchKey'', se_text = []\<rparr> | Some (data, _) \<Rightarrow> Inr data),
     mi_RemoveObject = (\<lambda>_ b obj w. (Inr (), w((b, obj) := None))),
     mi_PresignedGet = (\<lambda>_ _ obj _. Inr obj), mi_PresignedPut = (\<lambda>_ _ obj _. Inr obj)\<rparr>"

definition sample_s3 :: s3_config where
  "sample_s3 = \<lparr>sc_Endpoint = ''minio:9000'', sc_Secure = False, sc_Region = [], sc_Bucket = ''blobs'', sc_AccessKey = ''k'',
     sc_SecretKey = ''s'', sc_Core = ''maint'', sc_PublicEndpoint = [], sc_PublicSecure = False\<rparr>"

definition sample_calls :: "(ctx \<times> blob_op) list" where
  "sample_calls = [(acme, PutOp ''acme/a'' ''t'' ''x''), (acme, GetOp ''acme/a'')]"


end
