(* ===== verification/Measure.thy ===== *)
theory Measure
  imports Hcm_Values
begin

text \<open>
  Conversion of units of measure (\<open>src/measure/measure.go\<close>) over the decimals of \<^theory_text>\<open>Decimal_Lib\<close>:
  units and their dimensions, presentations (how a purchase unit holds a content), and what a purchase
  line is in the unit an article is consumed in. Messages are reduced to the sentinel they wrap and
  the data they name; a division by zero, which panics, is an error of its own.
\<close>

section \<open>Units\<close>

definition DimensionMass :: string where "DimensionMass = ''mass''"
definition DimensionVolume :: string where "DimensionVolume = ''volume''"
definition DimensionCount :: string where "DimensionCount = ''count''"
definition DimensionContainer :: string where "DimensionContainer = ''container''"

definition Dimensions :: "string list" where
  "Dimensions = [DimensionMass, DimensionVolume, DimensionCount, DimensionContainer]"

datatype measure_error =
    UnknownDimension string
  | FactorNotPositive
  | FactorOutOfBounds number_error
  | ZeroFactor string
  | IncompatibleDimensions string string
  | ContainerDoesNotConvert string string
  | ContainerNeedsContent string
  | NoName
  | ContentNotPositive
  | ContentMissing string
  | DividePanic

definition divisionScale :: int where "divisionScale = 12"

record 'd unit_of_measure =
  un_Code :: string
  un_Dimension :: string
  un_Factor :: 'd

definition IsContainer :: "'d unit_of_measure \<Rightarrow> bool" where
  "IsContainer u \<longleftrightarrow> un_Dimension u = DimensionContainer"

definition one :: "'d decimal_lib \<Rightarrow> 'd" where
  "one D = dc_NewFromInt D 1"

definition ValidateUnit :: "'d decimal_lib \<Rightarrow> 'd unit_of_measure \<Rightarrow> measure_error + 'd unit_of_measure" where
  "ValidateUnit D u0 =
     (if un_Dimension u0 \<notin> set Dimensions then Inl (UnknownDimension (un_Dimension u0))
      else let u = (if IsContainer u0 then u0\<lparr>un_Factor := one D\<rparr> else u0) in
        if \<not> IsPositive D (un_Factor u) then Inl FactorNotPositive
        else (case CheckWith D (un_Factor u) ''factor a la unidad base'' Factor of
            Inl e \<Rightarrow> Inl (FactorOutOfBounds e)
          | Inr _ \<Rightarrow> Inr u))"

definition Convert ::
    "'d decimal_lib \<Rightarrow> 'd \<Rightarrow> 'd unit_of_measure \<Rightarrow> 'd unit_of_measure \<Rightarrow> measure_error + 'd" where
  "Convert D qty source target =
     (if un_Code source \<noteq> [] \<and> un_Code source = un_Code target then Inr qty
      else if IsContainer source \<or> IsContainer target then Inl (ContainerDoesNotConvert (un_Code source) (un_Code target))
      else if un_Dimension source \<noteq> un_Dimension target then Inl (IncompatibleDimensions (un_Code source) (un_Code target))
      else if IsZero D (un_Factor target) then Inl (ZeroFactor (un_Code target))
      else (case dc_DivRound D (dc_Mul D qty (un_Factor source)) (un_Factor target) divisionScale of
          None \<Rightarrow> Inl DividePanic
        | Some q \<Rightarrow> Inr q))"

section \<open>Presentations\<close>

record 'd presentation =
  pr_Name :: string
  pr_Purchase :: "'d unit_of_measure"
  pr_Content :: "'d unit_of_measure"
  pr_Quantity :: 'd

text \<open>The content of one purchase unit, filled in when it was not given.\<close>

definition fillContent :: "'d decimal_lib \<Rightarrow> 'd presentation \<Rightarrow> measure_error + 'd presentation" where
  "fillContent D p =
     (if IsZero D (pr_Quantity p) then
        if IsContainer (pr_Purchase p) then Inr (p\<lparr>pr_Quantity := one D\<rparr>)
        else and_then (Convert D (one D) (pr_Purchase p) (pr_Content p)) (\<lambda>q. Inr (p\<lparr>pr_Quantity := q\<rparr>))
      else Inr p)"

definition ValidatePresentation ::
    "'d decimal_lib \<Rightarrow> 'd presentation \<Rightarrow> 'd unit_of_measure \<Rightarrow> measure_error + 'd presentation" where
  "ValidatePresentation D p0 consumption =
     (let p = p0\<lparr>pr_Name := TrimSpace (pr_Name p0)\<rparr> in
      if pr_Name p = [] then Inl NoName
      else if IsContainer (pr_Content p) then Inl (IncompatibleDimensions (un_Code (pr_Content p)) (un_Code consumption))
      else if un_Dimension (pr_Content p) \<noteq> un_Dimension consumption
      then Inl (IncompatibleDimensions (un_Code (pr_Content p)) (un_Code consumption))
      else if \<not> IsContainer (pr_Purchase p) \<and> un_Dimension (pr_Purchase p) \<noteq> un_Dimension consumption
      then Inl (IncompatibleDimensions (un_Code (pr_Purchase p)) (un_Code consumption))
      else and_then (fillContent D p) (\<lambda>p'.
        if \<not> IsPositive D (pr_Quantity p') then Inl ContentNotPositive else Inr p'))"

definition perUnit :: "'d decimal_lib \<Rightarrow> 'd presentation \<Rightarrow> 'd \<Rightarrow> 'd" where
  "perUnit D p perContainer =
     (if IsContainer (pr_Purchase p)
      then if \<not> IsPositive D perContainer \<and> dLess D (one D) (pr_Quantity p) then pr_Quantity p else perContainer
      else pr_Quantity p)"

definition ToConsumptionUnit ::
    "'d decimal_lib \<Rightarrow> 'd \<Rightarrow> 'd presentation \<Rightarrow> 'd \<Rightarrow> 'd unit_of_measure \<Rightarrow> measure_error + 'd" where
  "ToConsumptionUnit D amount p perContainer consumption =
     (let each = perUnit D p perContainer in
      if IsContainer (pr_Purchase p) \<and> \<not> IsPositive D each then Inl (ContainerNeedsContent (pr_Name p))
      else if \<not> IsPositive D each then Inl (ContentMissing (pr_Name p))
      else Convert D (dc_Mul D amount each) (pr_Content p) consumption)"

section \<open>Conversion\<close>

text \<open>A unit as \<open>ValidateUnit\<close> leaves it.\<close>

definition soundUnit :: "('d \<Rightarrow> rat) \<Rightarrow> 'd unit_of_measure \<Rightarrow> bool" where
  "soundUnit val u \<longleftrightarrow> un_Dimension u \<in> set Dimensions \<and> 0 < val (un_Factor u) \<and> (IsContainer u \<longrightarrow> val (un_Factor u) = 1)"

text \<open>Half a unit of the last decimal a division keeps.\<close>

definition halfUlp :: rat where
  "halfUlp = 1 / (2 * 10 ^ 12)"

context decimal_laws
begin

lemma ValidateUnit_sound: "ValidateUnit D u0 = Inr u \<Longrightarrow> soundUnit val u \<and> un_Code u = un_Code u0"
  by (auto simp: ValidateUnit_def soundUnit_def Let_def one_def IsContainer_def vals split: if_splits sum.splits)

lemma Convert_same: "un_Code a \<noteq> [] \<Longrightarrow> un_Code a = un_Code b \<Longrightarrow> Convert D q a b = Inr q"
  by (simp add: Convert_def)

lemma rounded_close: "\<bar>of_int (roundAway (x * 10 ^ 12)) / 10 ^ 12 - x\<bar> \<le> halfUlp"
  using roundAway_error [of "x * 10 ^ 12"] by (simp add: halfUlp_def field_simps abs_if split: if_splits)

lemma Convert_sound:
  assumes "soundUnit val b" and "un_Dimension a = un_Dimension b" and "\<not> IsContainer b"
    and "un_Code a = [] \<or> un_Code a \<noteq> un_Code b"
  shows "\<exists>r. Convert D q a b = Inr r \<and> \<bar>val r - val q * val (un_Factor a) / val (un_Factor b)\<bar> \<le> halfUlp"
proof -
  have f: "val (un_Factor b) \<noteq> 0" using assms(1) by (simp add: soundUnit_def)
  then obtain r where "dc_DivRound D (dc_Mul D q (un_Factor a)) (un_Factor b) (int 12) = Some r"
    "val r = of_int (roundAway (val (dc_Mul D q (un_Factor a)) / val (un_Factor b) * 10 ^ 12)) / 10 ^ 12"
    using val_DivRound [of "un_Factor b" "dc_Mul D q (un_Factor a)" 12] by blast
  moreover have "\<not> IsContainer a" using assms(2,3) by (simp add: IsContainer_def)
  ultimately show ?thesis
    using assms(2-4) f rounded_close [of "val q * val (un_Factor a) / val (un_Factor b)"]
    by (auto simp: Convert_def divisionScale_def vals)
qed

end

text \<open>
  C31. A conversion can be undone. Between two validated units of one physical dimension \<open>Convert\<close>
  always answers, and converting back misses the quantity by at most the rounding of the two
  divisions, half a unit of the twelfth decimal each, the first one scaled by the factors.
\<close>

theorem converting_there_and_back:
  assumes "decimal_laws D val" and "ValidateUnit D a0 = Inr a" and "ValidateUnit D b0 = Inr b"
    and "un_Dimension a = un_Dimension b" and "un_Dimension a \<noteq> ''container''"
  shows "\<exists>r q'. Convert D q a b = Inr r \<and> Convert D r b a = Inr q'
     \<and> \<bar>val q' - val q\<bar> \<le> (1 + val (un_Factor b) / val (un_Factor a)) / (2 * 10 ^ 12)"
proof -
  note laws = decimal_laws.Convert_sound [OF assms(1)]
  have u: "soundUnit val a" "soundUnit val b" "\<not> IsContainer a" "\<not> IsContainer b"
    using decimal_laws.ValidateUnit_sound [OF assms(1)] assms(2-5) by (auto simp: IsContainer_def DimensionContainer_def)
  then have f: "0 < val (un_Factor a)" "0 < val (un_Factor b)" by (simp_all add: soundUnit_def)
  then have half: "0 \<le> (1 + val (un_Factor b) / val (un_Factor a)) / (2 * 10 ^ 12)" by simp
  show ?thesis
  proof (cases "un_Code a \<noteq> [] \<and> un_Code a = un_Code b")
    case True
    then have "Convert D q a b = Inr q" "Convert D q b a = Inr q"
      using decimal_laws.Convert_same [OF assms(1)] by metis+
    with half show ?thesis by simp
  next
    case False
    with laws [of b a q] u assms(4) obtain r where
      r: "Convert D q a b = Inr r" "\<bar>val r - val q * val (un_Factor a) / val (un_Factor b)\<bar> \<le> halfUlp" by auto
    from False laws [of a b r] u assms(4) obtain q' where
      q': "Convert D r b a = Inr q'" "\<bar>val q' - val r * val (un_Factor b) / val (un_Factor a)\<bar> \<le> halfUlp" by auto
    define k where "k = val (un_Factor b) / val (un_Factor a)"
    have k: "0 < k" "val q * val (un_Factor a) / val (un_Factor b) = val q / k"
      "val r * val (un_Factor b) / val (un_Factor a) = val r * k" using f by (simp_all add: k_def)
    have "\<bar>val r - val q / k\<bar> * k \<le> halfUlp * k"
      using r(2) k by (intro mult_right_mono) simp_all
    moreover have "\<bar>val r - val q / k\<bar> * k = \<bar>val r * k - val q\<bar>"
      using k(1) abs_mult_pos [of k "val r - val q / k"] by (simp add: left_diff_distrib)
    ultimately have "\<bar>val q' - val q\<bar> \<le> halfUlp + halfUlp * k"
      using q'(2) unfolding k(3) by linarith
    then have "\<bar>val q' - val q\<bar> \<le> (1 + val (un_Factor b) / val (un_Factor a)) / (2 * 10 ^ 12)"
      unfolding k_def [symmetric] by (simp add: halfUlp_def add_divide_distrib)
    with r(1) q'(1) show ?thesis by blast
  qed
qed

section \<open>Presentations convert\<close>

text \<open>
  Units that carry the same code are one unit, as rows of one catalog are. \<open>worth\<close> is what an amount is
  in base units.
\<close>

definition sameCode :: "'d unit_of_measure \<Rightarrow> 'd unit_of_measure \<Rightarrow> bool" where
  "sameCode a b \<longleftrightarrow> (un_Code a = un_Code b \<longrightarrow> a = b)"

context decimal_laws
begin

lemma Convert_worth:
  assumes "soundUnit val b" and "un_Dimension a = un_Dimension b" and "\<not> IsContainer b" and "sameCode a b"
  shows "\<exists>r. Convert D q a b = Inr r \<and> \<bar>val r - val q * val (un_Factor a) / val (un_Factor b)\<bar> \<le> halfUlp"
proof (cases "un_Code a \<noteq> [] \<and> un_Code a = un_Code b")
  case True
  with assms(4) have "a = b" by (simp add: sameCode_def)
  with True assms(1) show ?thesis by (simp add: Convert_same soundUnit_def halfUlp_def)
next
  case False
  with Convert_sound [OF assms(1-3)] show ?thesis by blast
qed

lemma ValidatePresentation_Inr:
  assumes "ValidatePresentation D p0 consumption = Inr p"
  shows "pr_Purchase p = pr_Purchase p0" "pr_Content p = pr_Content p0" "\<not> IsContainer (pr_Content p)"
    "un_Dimension (pr_Content p) = un_Dimension consumption" "0 < val (pr_Quantity p)"
    "IsContainer (pr_Purchase p) \<or> un_Dimension (pr_Purchase p) = un_Dimension consumption"
    "val (pr_Quantity p0) \<noteq> 0 \<Longrightarrow> pr_Quantity p = pr_Quantity p0"
    "val (pr_Quantity p0) = 0 \<Longrightarrow> IsContainer (pr_Purchase p0) \<Longrightarrow> val (pr_Quantity p) = 1"
    "val (pr_Quantity p0) = 0 \<Longrightarrow> \<not> IsContainer (pr_Purchase p0) \<Longrightarrow>
       Convert D (one D) (pr_Purchase p0) (pr_Content p0) = Inr (pr_Quantity p)"
  using assms
  by (auto simp: ValidatePresentation_def fillContent_def Let_def and_then_eq_Inr vals one_def split: if_splits)

lemma perUnit_val:
  "perUnit D p perContainer = (if \<not> IsContainer (pr_Purchase p) \<or> \<not> 0 < val perContainer \<and> 1 < val (pr_Quantity p)
     then pr_Quantity p else perContainer)"
  by (auto simp: perUnit_def vals one_def)

end

text \<open>
  C28. A validated presentation converts every purchase line, or asks for the content. For a
  presentation that \<open>ValidatePresentation\<close> accepted over validated units, \<open>ToConsumptionUnit\<close> never
  fails on dimensions: the line is its amount times the content of each purchase unit, in the unit of
  consumption up to the rounding of one division; where the content is the line's for a container
  that was given one, else the declared one. A container with neither, the line giving no content and
  the declared one being the placeholder one, is refused for the missing content. (A declared content
  between zero and one is left out here: the code and its comment differ on it, see below.)
\<close>

theorem validated_presentation_converts:
  assumes "decimal_laws D val" and "ValidatePresentation D p0 consumption = Inr p"
    and "ValidateUnit D consumption0 = Inr consumption" and "sameCode (pr_Content p) consumption"
  shows "let container = un_Dimension (pr_Purchase p) = ''container'';
             each = (if container \<and> 0 < val perContainer then perContainer else pr_Quantity p) in
     (container \<and> \<not> 0 < val perContainer \<and> val (pr_Quantity p) = 1 \<longrightarrow>
        ToConsumptionUnit D amount p perContainer consumption = Inl (ContainerNeedsContent (pr_Name p)))
     \<and> (\<not> container \<or> 0 < val perContainer \<or> 1 < val (pr_Quantity p) \<longrightarrow>
        (\<exists>r. ToConsumptionUnit D amount p perContainer consumption = Inr r
         \<and> \<bar>val r - val amount * val each * val (un_Factor (pr_Content p)) / val (un_Factor consumption)\<bar> \<le> 1 / (2 * 10 ^ 12)))"
proof -
  note v = decimal_laws.ValidatePresentation_Inr [OF assms(1,2)]
  have cons: "soundUnit val consumption" "\<not> IsContainer consumption"
    using decimal_laws.ValidateUnit_sound [OF assms(1,3)] v(3,4) by (simp_all add: IsContainer_def)
  have conv: "\<exists>r. Convert D (dc_Mul D amount each) (pr_Content p) consumption = Inr r
     \<and> \<bar>val r - val amount * val each * val (un_Factor (pr_Content p)) / val (un_Factor consumption)\<bar> \<le> halfUlp" for each
    using decimal_laws.Convert_worth [OF assms(1) cons(1) v(4) cons(2) assms(4), of "dc_Mul D amount each"]
    by (simp add: decimal_laws.val_Mul [OF assms(1)])
  have c: "IsContainer (pr_Purchase p) \<longleftrightarrow> un_Dimension (pr_Purchase p) = ''container''"
    by (simp add: IsContainer_def DimensionContainer_def)
  show ?thesis
    using v(5) conv [of "pr_Quantity p"] conv [of perContainer]
    by (auto simp: ToConsumptionUnit_def Let_def c [symmetric] decimal_laws.perUnit_val [OF assms(1)]
        decimal_laws.vals [OF assms(1)] halfUlp_def)
qed

text \<open>
  A declared content between zero and one, such as three quarters of a kilo, is not the placeholder
  one, yet it is not used either: the code asks for more than one.
\<close>

lemma content_below_one_is_not_used:
  assumes "decimal_laws D val" and "IsContainer (pr_Purchase p)" and "0 < val (pr_Quantity p)" and "val (pr_Quantity p) < 1"
  shows "ToConsumptionUnit D amount p (dZero D) consumption = Inl (ContainerNeedsContent (pr_Name p))"
  using assms(2-4) by (simp add: ToConsumptionUnit_def decimal_laws.perUnit_val [OF assms(1)] decimal_laws.vals [OF assms(1)])

section \<open>Witnesses\<close>

definition kilo :: "dec unit_of_measure" where
  "kilo = \<lparr>un_Code = ''kg'', un_Dimension = ''mass'', un_Factor = Dec 1000 0\<rparr>"

definition gram :: "dec unit_of_measure" where
  "gram = \<lparr>un_Code = ''g'', un_Dimension = ''mass'', un_Factor = Dec 1 0\<rparr>"

definition sack :: "dec presentation" where
  "sack = \<lparr>pr_Name = ''saco'', pr_Purchase = \<lparr>un_Code = ''sack'', un_Dimension = ''container'', un_Factor = Dec 1 0\<rparr>,
     pr_Content = kilo, pr_Quantity = Dec 50 0\<rparr>"

lemma sample_units: "ValidateUnit decLib kilo = Inr kilo" "ValidateUnit decLib gram = Inr gram"
  by code_simp+

theorem converting_there_and_back_witness:
  "\<exists>r q'. Convert decLib (Dec 7 0) gram kilo = Inr r \<and> Convert decLib r kilo gram = Inr q'
     \<and> \<bar>dvalue q' - 7\<bar> \<le> 1001 / (2 * 10 ^ 12)"
  using converting_there_and_back [OF dec.decimal_laws_axioms sample_units(2) sample_units(1), of "Dec 7 0"]
  by (simp add: kilo_def gram_def)

theorem validated_presentation_converts_witness:
  "\<exists>r. ToConsumptionUnit decLib (Dec 3 0) sack (Dec 0 0) gram = Inr r \<and> \<bar>dvalue r - 150000\<bar> \<le> 1 / (2 * 10 ^ 12)"
proof -
  have "ValidatePresentation decLib sack gram = Inr sack"
    by (simp add: ValidatePresentation_def fillContent_def sack_def kilo_def gram_def IsContainer_def DimensionContainer_def
        dec.vals TrimSpace_def next_rune_def isSpace_def)
  from validated_presentation_converts [OF dec.decimal_laws_axioms this sample_units(2), of "Dec 0 0" "Dec 3 0"]
  show ?thesis by (simp add: sack_def kilo_def gram_def sameCode_def)
qed

end
