(* ===== verification/Parties.thy ===== *)
theory Parties
  imports Auth_Service "HOL-Library.Word"
begin

text \<open>
  The client for suppliers (\<open>src/parties/client.go\<close>): one lookup of a batch of ids, without a cache. Ids
  are \<open>int64\<close> here and \<open>uint32\<close> on the wire; the gRPC call is an argument.
\<close>

section \<open>The client\<close>

record supplier =
  sp_Id :: "32 word"
  sp_Code :: string
  sp_Name :: string
  sp_Active :: bool
  sp_IssuesReceipt :: bool
  sp_CreditDays :: "32 word"

record supplier_ref =
  sr_ID :: int
  sr_Code :: string
  sr_Name :: string
  sr_Active :: bool
  sr_IssuesReceipt :: bool
  sr_CreditDays :: int

datatype parties_error = NotConfigured | NoIdentity service_error | LookupFailed string

definition partiesAudience :: string where
  "partiesAudience = ''core-clients''"

text \<open>\<open>Dial\<close> on a connection that was created: the client is the service tokens its options give it.\<close>

datatype parties_option = WithServiceTokens "service_tokens option"

definition DialParties :: "parties_option list \<Rightarrow> service_tokens option" where
  "DialParties opts = foldl (\<lambda>c o'. case o' of WithServiceTokens ts \<Rightarrow> ts) None opts"

definition stubLookupSuppliers :: "int list \<Rightarrow> parties_error + (int \<rightharpoonup> supplier_ref)" where
  "stubLookupSuppliers ids = Inl NotConfigured"

text \<open>The ids that are asked: those the contract can name.\<close>

fun askedIds :: "int list \<Rightarrow> 32 word list" where
  "askedIds [] = []"
| "askedIds (i # is) = (if 0 < i \<and> i \<le> 4294967295 then word_of_int i # askedIds is else askedIds is)"

definition toSupplierRef :: "supplier \<Rightarrow> supplier_ref" where
  "toSupplierRef s = \<lparr>sr_ID = uint (sp_Id s), sr_Code = sp_Code s, sr_Name = sp_Name s, sr_Active = sp_Active s,
     sr_IssuesReceipt = sp_IssuesReceipt s, sr_CreditDays = sint (sp_CreditDays s)\<rparr>"

definition supplierMap :: "supplier list \<Rightarrow> int \<rightharpoonup> supplier_ref" where
  "supplierMap resp = foldl (\<lambda>out s. out(uint (sp_Id s) \<mapsto> toSupplierRef s)) Map.empty resp"

definition LookupSuppliers ::
    "('a ctx_scheme \<Rightarrow> 32 word list \<Rightarrow> string + supplier list) \<Rightarrow> token_env \<Rightarrow> 'a ctx_scheme \<Rightarrow> int list \<Rightarrow> service_tokens option
       \<Rightarrow> (parties_error + (int \<rightharpoonup> supplier_ref)) \<times> service_tokens option" where
  "LookupSuppliers api e ctx ids tokens =
     (if ids = [] then (Inr Map.empty, tokens)
      else (case Outgoing tokens e ctx partiesAudience of
          (Inl err, ts) \<Rightarrow> (Inl (NoIdentity err), ts)
        | (Inr outCtx, ts) \<Rightarrow> (case api outCtx (askedIds ids) of
              Inl err \<Rightarrow> (Inl (LookupFailed err), ts)
            | Inr resp \<Rightarrow> (Inr (supplierMap resp), ts))))"

section \<open>No id is confused with another\<close>

lemma askedIds_filter: "map uint (askedIds ids) = filter (\<lambda>i. 0 < i \<and> i \<le> 4294967295) ids"
proof (induction ids rule: askedIds.induct)
  case (2 i "is")
  have "0 < i \<Longrightarrow> i \<le> 4294967295 \<Longrightarrow> uint (word_of_int i :: 32 word) = i"
    by (simp add: uint_word_of_int)
  with 2 show ?case by simp
qed simp

lemma askedIds_iff: "w \<in> set (askedIds ids) \<longleftrightarrow> uint w \<in> set ids \<and> 0 < uint w"
proof -
  have "w \<in> set (askedIds ids) \<longleftrightarrow> uint w \<in> set (map uint (askedIds ids))" by (metis imageE image_eqI list.set_map word_uint_eqI)
  also have "\<dots> \<longleftrightarrow> uint w \<in> set ids \<and> 0 < uint w"
    unfolding askedIds_filter using uint_lt2p [of w] by auto
  finally show ?thesis .
qed

lemma supplierMap_Some:
  "supplierMap resp i = Some r \<Longrightarrow> \<exists>s \<in> set resp. r = toSupplierRef s \<and> uint (sp_Id s) = i"
  unfolding supplierMap_def
  by (induction resp rule: rev_induct) (auto split: if_splits)

text \<open>
  No supplier is taken for another. Whatever ids are asked, negative, zero or past 32 bits
  included, and a service that answers only about the ids it was sent: every entry of the answer is
  for an id that was asked, carries that id, and is what the service said of it at the time of this
  call; an id that does not fit the contract is absent, like one that does not exist, and never
  wraps around to another.
\<close>

theorem lookup_never_mistakes_a_supplier:
  assumes "LookupSuppliers api e ctx ids tokens = (Inr out, ts)"
    and "\<And>outCtx asked resp. api outCtx asked = Inr resp \<Longrightarrow> sp_Id ` set resp \<subseteq> set asked"
    and "out i = Some r"
  shows "i \<in> set ids \<and> 0 < i \<and> i < 2 ^ 32 \<and> sr_ID r = i
     \<and> (\<exists>outCtx resp s. api outCtx (askedIds ids) = Inr resp \<and> s \<in> set resp \<and> r = toSupplierRef s)"
proof -
  from assms(1,3) obtain outCtx resp where resp: "api outCtx (askedIds ids) = Inr resp" "supplierMap resp i = Some r"
    by (auto simp: LookupSuppliers_def split: if_splits sum.splits prod.splits)
  then obtain s where s: "s \<in> set resp" "r = toSupplierRef s" "uint (sp_Id s) = i" using supplierMap_Some by blast
  then have "sp_Id s \<in> set (askedIds ids)" using assms(2) [OF resp(1)] by blast
  with s resp uint_lt2p [of "sp_Id s"] show ?thesis by (auto simp: askedIds_iff toSupplierRef_def)
qed

definition sample_suppliers :: "32 word list \<Rightarrow> supplier list" where
  "sample_suppliers asked = map (\<lambda>i. \<lparr>sp_Id = i, sp_Code = ''P1'', sp_Name = ''Ferret'', sp_Active = True,
     sp_IssuesReceipt = False, sp_CreditDays = 30\<rparr>) (filter (\<lambda>i. i = 1) asked)"

definition no_idp :: token_env where
  "no_idp = \<lparr>te_now = 0, te_idp = (\<lambda>_. Unreachable []), te_minted = 0\<rparr>"

theorem lookup_never_mistakes_a_supplier_witness:
  "\<exists>out r. LookupSuppliers (\<lambda>_ asked. Inr (sample_suppliers asked)) no_idp (WithTenant background ''acme'') [4294967297, 1] None
        = (Inr out, None) \<and> out 1 = Some r \<and> sr_ID r = 1"
proof -
  let ?r = "LookupSuppliers (\<lambda>_ asked. Inr (sample_suppliers asked)) no_idp (WithTenant background ''acme'') [4294967297, 1] None"
  obtain out r where out: "?r = (Inr out, None)" "out 1 = Some r"
    by (simp add: LookupSuppliers_def Outgoing_def incomingBearer_def WithTenant_def background_def sample_suppliers_def supplierMap_def)
  have "sp_Id ` set (sample_suppliers asked) \<subseteq> set asked" for asked by (auto simp: sample_suppliers_def)
  with lookup_never_mistakes_a_supplier [OF out(1) _ out(2)] out show ?thesis by auto
qed

end
