(* ===== verification/Uiserve.thy ===== *)
theory Uiserve
  imports Kit_Prelude
begin

text \<open>
  The bundle of a Core's UI served with revalidation (\<open>src/uiserve/uiserve.go\<close>). The bundle is the walk
  of its file system in order; SHA-256 and the file server of \<open>net/http\<close> are arguments.
\<close>

section \<open>The handler\<close>

text \<open>What the walk meets at a path: an error, a directory, a file that reads or does not.\<close>

datatype walked = WalkError | Directory | Unreadable | Content string

type_synonym ui_bundle = "(string \<times> walked) list"

text \<open>The walk stops at the first error; the tags of the files before it stay.\<close>

fun etagsOf :: "(string \<Rightarrow> string) \<Rightarrow> ui_bundle \<Rightarrow> (string \<rightharpoonup> string) \<Rightarrow> string \<rightharpoonup> string" where
  "etagsOf sha [] m = m"
| "etagsOf sha ((path, w) # rest) m = (case w of
       WalkError \<Rightarrow> m
     | Directory \<Rightarrow> etagsOf sha rest m
     | Unreadable \<Rightarrow> m
     | Content d \<Rightarrow> etagsOf sha rest (m(path \<mapsto> CHR 0x22 # sha d @ [CHR 0x22])))"

record http_request =
  hr_Path :: string
  hr_IfNoneMatch :: string

record 'b http_reply =
  hp_headers :: "(string \<times> string) list"
  hp_body :: "'b option"

text \<open>\<^term>\<open>None\<close> for the body is the bare 304; otherwise it is what the file server writes.\<close>

definition Handler :: "(string \<Rightarrow> string) \<Rightarrow> (http_request \<Rightarrow> 'b) \<Rightarrow> ui_bundle \<Rightarrow> http_request \<Rightarrow> 'b http_reply" where
  "Handler sha files bundle r =
     (case etagsOf sha bundle Map.empty (TrimPrefix (hr_Path r) ''/ui/'') of
        Some etag \<Rightarrow>
          let hs = [(''Cache-Control'', ''no-cache''), (''ETag'', etag)] in
          if hr_IfNoneMatch r = etag then \<lparr>hp_headers = hs, hp_body = None\<rparr>
          else \<lparr>hp_headers = hs, hp_body = Some (files r)\<rparr>
      | None \<Rightarrow> \<lparr>hp_headers = [], hp_body = Some (files r)\<rparr>)"

section \<open>A deploy is visible\<close>

definition readable :: "ui_bundle \<Rightarrow> bool" where
  "readable bundle \<longleftrightarrow> distinct (map fst bundle) \<and> (\<forall>(_, w) \<in> set bundle. w \<noteq> WalkError \<and> w \<noteq> Unreadable)"

lemma etagsOf_other: "path \<notin> fst ` set bundle \<Longrightarrow> etagsOf sha bundle m path = m path"
  by (induction sha "bundle" m rule: etagsOf.induct) (auto split: walked.split)

lemma etagsOf_file:
  "readable bundle \<Longrightarrow> (path, Content d) \<in> set bundle \<Longrightarrow> etagsOf sha bundle m path = Some (CHR 0x22 # sha d @ [CHR 0x22])"
proof (induction sha "bundle" m rule: etagsOf.induct)
  case (2 sha p w rest m)
  have rest: "readable rest" "w \<noteq> WalkError" "w \<noteq> Unreadable" using 2(3) by (auto simp: readable_def)
  show ?case
  proof (cases "(path, Content d) = (p, w)")
    case True
    with 2(3) show ?thesis by (auto simp: readable_def etagsOf_other)
  next
    case False
    with 2(4) have "(path, Content d) \<in> set rest" by auto
    with 2(1,2) rest show ?thesis by (cases w) (simp_all del: fun_upd_apply)
  qed
qed simp

lemma Handler_file:
  assumes "readable ui" and "(path, Content d) \<in> set ui" and "hr_Path r = ''/ui/'' @ path"
  shows "Handler sha files ui r = \<lparr>hp_headers = [(''Cache-Control'', ''no-cache''), (''ETag'', CHR 0x22 # sha d @ [CHR 0x22])],
     hp_body = (if hr_IfNoneMatch r = CHR 0x22 # sha d @ [CHR 0x22] then None else Some (files r))\<rparr>"
proof -
  have "TrimPrefix (hr_Path r) ''/ui/'' = path" unfolding assms(3) by (simp add: TrimPrefix_def)
  with etagsOf_file [OF assms(1,2)] show ?thesis by (simp add: Handler_def Let_def)
qed

text \<open>
  A deploy is seen at the next request, and only a deploy costs one. A browser that keeps what an
  earlier handler sent for a file and revalidates it against a later one is answered a bare 304
  exactly when the file is the same; otherwise it gets what the file server serves now. Either
  way the answer must be revalidated again and carries the tag of the content served now.
\<close>

theorem a_deploy_is_visible:
  assumes "readable old" and "(path, Content d) \<in> set old" and "readable new" and "(path, Content d') \<in> set new"
    and "sha d = sha d' \<Longrightarrow> d = d'"
    and "(''ETag'', tag) \<in> set (hp_headers (Handler sha files old \<lparr>hr_Path = ''/ui/'' @ path, hr_IfNoneMatch = inm\<rparr>))"
    and "r = \<lparr>hr_Path = ''/ui/'' @ path, hr_IfNoneMatch = tag\<rparr>"
  shows "hp_body (Handler sha files new r) = (if d = d' then None else Some (files r))
     \<and> hp_headers (Handler sha files new r) = [(''Cache-Control'', ''no-cache''), (''ETag'', CHR 0x22 # sha d' @ [CHR 0x22])]"
proof -
  let ?r = "\<lparr>hr_Path = ''/ui/'' @ path, hr_IfNoneMatch = inm\<rparr>"
  have "hr_Path ?r = ''/ui/'' @ path" by (simp only: http_request.select_convs)
  from assms(6) [unfolded Handler_file [OF assms(1,2) this]] have "tag = CHR 0x22 # sha d @ [CHR 0x22]" by simp
  then show ?thesis
    using assms(5) Handler_file [OF assms(3,4), of r sha files] assms(7) by auto
qed

theorem a_deploy_is_visible_witness:
  "hp_body (Handler id (\<lambda>_. ''file'') [(''.'', Directory), (''app.js'', Content ''v2'')]
     \<lparr>hr_Path = ''/ui/'' @ ''app.js'', hr_IfNoneMatch = CHR 0x22 # ''v1'' @ [CHR 0x22]\<rparr>) = Some ''file''"
proof -
  have "readable [(''.'', Directory), (''app.js'', Content ''v1'')]" "readable [(''.'', Directory), (''app.js'', Content ''v2'')]"
    by (simp_all add: readable_def)
  from a_deploy_is_visible [OF this(1) _ this(2), of "''app.js''" "''v1''" "''v2''" id "CHR 0x22 # ''v1'' @ [CHR 0x22]" "\<lambda>_. ''file''" "[]"]
  show ?thesis by (simp add: Handler_def TrimPrefix_def)
qed

end
