(* ===== verification/Natsconn.thy ===== *)
theory Natsconn
  imports Tenant_Ctx
begin

text \<open>
  How a Core dials NATS (\<open>src/natsconn/natsconn.go\<close>): the options of the connection from the
  environment, exactly one credential or none, and a reply inbox of its own. The options of
  \<open>nats.go\<close> are values; reading a seed file and looking for a credentials file are arguments.
\<close>

section \<open>Options\<close>

datatype nats_option =
    RetryOnFailedConnect bool
  | MaxReconnects int
  | ReconnectWait duration
  | ReconnectJitter duration duration
  | UserCredentials string
  | Nkey string
  | UserInfo string string
  | ConnName string
  | CustomInboxPrefix string
  | RawOption string

record nats_config =
  nc_service :: string
  nc_getenv :: "string \<Rightarrow> string"
  nc_extra :: "nats_option list"

datatype conn_option = WithService string | WithNATSOptions "nats_option list" | WithEnv "string \<Rightarrow> string"

definition applyConn :: "nats_config \<Rightarrow> conn_option \<Rightarrow> nats_config" where
  "applyConn c o' = (case o' of
       WithService name \<Rightarrow> c\<lparr>nc_service := name\<rparr>
     | WithNATSOptions opts \<Rightarrow> c\<lparr>nc_extra := nc_extra c @ opts\<rparr>
     | WithEnv f \<Rightarrow> c\<lparr>nc_getenv := f\<rparr>)"

datatype nats_error =
    MoreThanOneCredential
  | CredsUnreadable string
  | SeedUnreadable string
  | HalfUserInfo
  | NotASubjectToken
  | ConnectFailed string

definition baseOptions :: "nats_option list" where
  "baseOptions = [RetryOnFailedConnect True, MaxReconnects (- 1), ReconnectWait (2 * Second),
     ReconnectJitter (500 * Millisecond) Second]"

definition credential ::
    "(string \<Rightarrow> string + unit) \<Rightarrow> (string \<Rightarrow> string + string) \<Rightarrow> (string \<Rightarrow> string) \<Rightarrow> nats_error + nats_option list" where
  "credential stat nkey getenv =
     (let creds = getenv ''NATS_CREDS_FILE''; seed = getenv ''NATS_NKEY_SEED_FILE'';
          user = getenv ''NATS_USER''; pass = getenv ''NATS_PASSWORD'' in
      if length (filter (\<lambda>v. v \<noteq> []) [creds, seed, user @ pass]) > 1 then Inl MoreThanOneCredential
      else if creds \<noteq> [] then (case stat creds of Inl e \<Rightarrow> Inl (CredsUnreadable e) | Inr _ \<Rightarrow> Inr [UserCredentials creds])
      else if seed \<noteq> [] then (case nkey seed of Inl e \<Rightarrow> Inl (SeedUnreadable e) | Inr k \<Rightarrow> Inr [Nkey k])
      else if user \<noteq> [] \<or> pass \<noteq> [] then (if user = [] \<or> pass = [] then Inl HalfUserInfo else Inr [UserInfo user pass])
      else Inr [])"

text \<open>A dot, a star, a greater-than, or white space cannot be in one token of a subject.\<close>

definition checkToken :: "string \<Rightarrow> nats_error + unit" where
  "checkToken s = (if set s \<inter> {CHR ''.'', CHR ''*'', CHR 0x3E, CHR '' '', CHR 0x09, CHR 0x0D, CHR 0x0A} \<noteq> {}
     then Inl NotASubjectToken else Inr ())"

definition inboxPrefix :: "string \<Rightarrow> string" where
  "inboxPrefix service = ''_INBOX.'' @ service"

definition identity :: "string \<Rightarrow> nats_error + nats_option list" where
  "identity service =
     (if service = [] then Inr []
      else and_then (checkToken service) (\<lambda>_. Inr [ConnName service, CustomInboxPrefix (inboxPrefix service)]))"

definition Options ::
    "(string \<Rightarrow> string) \<Rightarrow> (string \<Rightarrow> string + unit) \<Rightarrow> (string \<Rightarrow> string + string) \<Rightarrow> conn_option list \<Rightarrow> nats_error + nats_option list" where
  "Options osenv stat nkey opts =
     (let c = foldl applyConn \<lparr>nc_service = [], nc_getenv = osenv, nc_extra = []\<rparr> opts in
      and_then (credential stat nkey (nc_getenv c)) (\<lambda>cred.
      and_then (identity (if nc_service c = [] then nc_getenv c ''NATS_SERVICE_NAME'' else nc_service c)) (\<lambda>ident.
      Inr (baseOptions @ cred @ ident @ nc_extra c))))"

definition Connect where
  "Connect osenv stat nkey dial url opts = and_then (Options osenv stat nkey opts) (\<lambda>os.
     case dial url os of Inl e \<Rightarrow> Inl (ConnectFailed e) | Inr nc \<Rightarrow> Inr nc)"

section \<open>One credential, one inbox\<close>

definition isCredential :: "nats_option \<Rightarrow> bool" where
  "isCredential o' = (case o' of UserCredentials _ \<Rightarrow> True | Nkey _ \<Rightarrow> True | UserInfo _ _ \<Rightarrow> True | _ \<Rightarrow> False)"

text \<open>The forms of credential that the environment sets.\<close>

definition credentialForms :: "(string \<Rightarrow> string) \<Rightarrow> string list" where
  "credentialForms env = filter (\<lambda>v. v \<noteq> []) [env ''NATS_CREDS_FILE'', env ''NATS_NKEY_SEED_FILE'', env ''NATS_USER'' @ env ''NATS_PASSWORD'']"

lemma credential_Inr:
  "credential stat nkey env = Inr cred \<Longrightarrow> length cred = length (credentialForms env) \<and> length cred \<le> 1 \<and> list_all isCredential cred"
  by (auto simp: credential_def credentialForms_def Let_def isCredential_def split: if_splits sum.splits)

lemma identity_Inr:
  "identity service = Inr ident \<longleftrightarrow>
     (service = [] \<and> ident = []) \<or> (service \<noteq> [] \<and> checkToken service = Inr () \<and> ident = [ConnName service, CustomInboxPrefix (inboxPrefix service)])"
  by (auto simp: identity_def and_then_eq_Inr)

lemma checkToken_Inr: "checkToken s = Inr () \<Longrightarrow> CHR ''.'' \<notin> set s"
  by (auto simp: checkToken_def split: if_splits)

lemma inboxes_apart:
  assumes "CHR ''.'' \<notin> set s" and "CHR ''.'' \<notin> set s'"
    and "prefix (inboxPrefix s @ ''.'') subject" and "prefix (inboxPrefix s' @ ''.'') subject"
  shows "s = s'"
proof -
  obtain x where x: "subject = ''_INBOX.'' @ s @ CHR ''.'' # x" using assms(3) by (auto simp: inboxPrefix_def prefix_def)
  obtain y where y: "subject = ''_INBOX.'' @ s' @ CHR ''.'' # y" using assms(4) by (auto simp: inboxPrefix_def prefix_def)
  from x y have "s @ CHR ''.'' # x = s' @ CHR ''.'' # y" by simp
  with cutBefore_append_sep [OF assms(1), of x] cutBefore_append_sep [OF assms(2), of y] show ?thesis by simp
qed

text \<open>
  A Core connects with the one credential its environment names, and listens to its own replies.
  Whenever \<open>Options\<close> answers without raw options, it holds as many credentials as the environment has
  forms of them, at most one; the first dial is retried and reconnecting never gives up; and the inboxes of
  two connections with a service name share no subject unless the names are the same.
\<close>

theorem connections_are_their_own:
  assumes "Options env stat nkey [] = Inr os" and "Options env' stat' nkey' [] = Inr os'"
    and "CustomInboxPrefix p \<in> set os" and "CustomInboxPrefix p' \<in> set os'"
    and "prefix (p @ ''.'') subject" and "prefix (p' @ ''.'') subject"
  shows "length (filter isCredential os) = length (credentialForms env) \<and> length (credentialForms env) \<le> 1
     \<and> {RetryOnFailedConnect True, MaxReconnects (- 1)} \<subseteq> set os
     \<and> env ''NATS_SERVICE_NAME'' = env' ''NATS_SERVICE_NAME'' \<and> p = p'"
proof -
  from assms(1) obtain cred ident where o: "credential stat nkey env = Inr cred" "identity (env ''NATS_SERVICE_NAME'') = Inr ident"
    "os = baseOptions @ cred @ ident" by (auto simp: Options_def Let_def and_then_eq_Inr)
  from assms(2) obtain cred' ident' where o': "credential stat' nkey' env' = Inr cred'" "identity (env' ''NATS_SERVICE_NAME'') = Inr ident'"
    "os' = baseOptions @ cred' @ ident'" by (auto simp: Options_def Let_def and_then_eq_Inr)
  note c = credential_Inr [OF o(1)] and c' = credential_Inr [OF o'(1)]
  have no: "CustomInboxPrefix x \<notin> set baseOptions \<union> set cred" "CustomInboxPrefix x \<notin> set baseOptions \<union> set cred'" for x
    using c c' by (auto simp: baseOptions_def list_all_iff isCredential_def)
  have p: "p = inboxPrefix (env ''NATS_SERVICE_NAME'')" "checkToken (env ''NATS_SERVICE_NAME'') = Inr ()"
    using assms(3) no(1) [of p] o(2) unfolding o(3) identity_Inr by auto
  have p': "p' = inboxPrefix (env' ''NATS_SERVICE_NAME'')" "checkToken (env' ''NATS_SERVICE_NAME'') = Inr ()"
    using assms(4) no(2) [of p'] o'(2) unfolding o'(3) identity_Inr by auto
  have "env ''NATS_SERVICE_NAME'' = env' ''NATS_SERVICE_NAME''"
    by (rule inboxes_apart [OF checkToken_Inr [OF p(2)] checkToken_Inr [OF p'(2)]]) (use assms(5,6) p p' in simp_all)
  moreover have "filter isCredential ident = []" "filter isCredential baseOptions = []" "filter isCredential cred = cred"
    using o(2) c by (auto simp: identity_Inr isCredential_def baseOptions_def list_all_iff filter_id_conv)
  moreover from this have "length (filter isCredential os) = length cred" by (simp only: o(3) filter_append) simp
  moreover have "{RetryOnFailedConnect True, MaxReconnects (- 1)} \<subseteq> set os" by (simp add: o(3) baseOptions_def)
  ultimately show ?thesis using c p p' by (intro conjI) simp_all
qed

definition sample_nats_env :: "string \<Rightarrow> string" where
  "sample_nats_env k = (if k = ''NATS_CREDS_FILE'' then ''/vault/nats.creds'' else if k = ''NATS_SERVICE_NAME'' then ''core-hcm'' else [])"

theorem connections_are_their_own_witness:
  "\<exists>os. Options sample_nats_env (\<lambda>_. Inr ()) (\<lambda>_. Inl []) [] = Inr os \<and> length (filter isCredential os) = 1"
proof -
  obtain os where os: "Options sample_nats_env (\<lambda>_. Inr ()) (\<lambda>_. Inl []) [] = Inr os" "CustomInboxPrefix ''_INBOX.core-hcm'' \<in> set os"
    by (simp add: Options_def credential_def identity_def sample_nats_env_def checkToken_def inboxPrefix_def)
  have "length (credentialForms sample_nats_env) = 1" by (simp add: credentialForms_def sample_nats_env_def)
  with connections_are_their_own [OF os(1) os(1) os(2) os(2), of "''_INBOX.core-hcm.''"] os(1) show ?thesis by simp
qed

end
