(* ===== verification/Outbox_Consumer.thy ===== *)
theory Outbox_Consumer
  imports Tenant_Ctx
begin

text \<open>
  Binding a durable consumer (\<open>src/outbox/consumer.go\<close>). NATS is an argument: each round of the loop
  meets the state of the connection, the answers of JetStream, and whether the context ends during
  the wait. Waits are kept at 64 bits.
\<close>

section \<open>Dialing\<close>

text \<open>Without a URL there is no broker: no connection and no error.\<close>

definition DialWith :: "(string \<Rightarrow> string + 'c) \<Rightarrow> ('c \<Rightarrow> string + 'j) \<Rightarrow> string \<Rightarrow> string + ('c \<times> 'j) option" where
  "DialWith connect newJS url =
     (if url = [] then Inr None
      else (case connect url of
          Inl e \<Rightarrow> Inl e
        | Inr nc \<Rightarrow> (case newJS nc of Inl e \<Rightarrow> Inl e | Inr js \<Rightarrow> Inr (Some (nc, js)))))"

section \<open>The loop\<close>

definition firstRetry :: duration where "firstRetry = 5 * Second"
definition defaultMaxRetry :: duration where "defaultMaxRetry = 5 * Minute"
definition brokerPoll :: duration where "brokerPoll = 2 * Second"

record js_round =
  jr_connected :: bool
  jr_stream :: "string + unit"
  jr_consumer :: "string + unit"
  jr_consume :: "string + unit"
  jr_done :: bool

definition bind :: "js_round \<Rightarrow> string + unit" where
  "bind r = (case jr_stream r of Inl e \<Rightarrow> Inl e | Inr _ \<Rightarrow> (case jr_consumer r of Inl e \<Rightarrow> Inl e | Inr _ \<Rightarrow> jr_consume r))"

text \<open>
  What has become of the loop after the rounds it met, with the waits it took: consuming, returned
  because the context ended, or still trying.
\<close>

datatype sub_state = Subscribed | Stopped | Trying duration

fun subscribeLoop :: "duration \<Rightarrow> duration \<Rightarrow> js_round list \<Rightarrow> duration list \<times> sub_state" where
  "subscribeLoop maxRetry wait [] = ([], Trying wait)"
| "subscribeLoop maxRetry wait (r # rs) =
     (if jr_connected r \<and> bind r = Inr () then ([], Subscribed)
      else let retryIn = (if jr_connected r then min wait maxRetry else brokerPoll);
               wait' = (if jr_connected r then wrap64 (retryIn * 2) else wait)
           in if jr_done r then ([retryIn], Stopped)
              else (case subscribeLoop maxRetry wait' rs of (ws, s) \<Rightarrow> (retryIn # ws, s)))"

definition Subscribe :: "duration \<Rightarrow> js_round list \<Rightarrow> duration list \<times> sub_state" where
  "Subscribe maxRetry rs = subscribeLoop (if maxRetry \<le> 0 then defaultMaxRetry else maxRetry) firstRetry rs"

section \<open>It never gives up\<close>

definition binds :: "js_round \<Rightarrow> bool" where
  "binds r \<longleftrightarrow> jr_connected r \<and> bind r = Inr ()"

lemma subscribeLoop_tries:
  assumes "\<forall>r \<in> set rs. \<not> binds r \<and> \<not> jr_done r" and "0 < wait" and "wait \<le> 2 ^ 62" and "0 < m" and "m \<le> 2 ^ 61"
  shows "\<exists>ws wait'. (\<forall>rest. subscribeLoop m wait (rs @ rest) = (ws @ fst (subscribeLoop m wait' rest), snd (subscribeLoop m wait' rest)))
     \<and> 0 < wait' \<and> wait' \<le> 2 ^ 62 \<and> length ws = length rs
     \<and> (\<forall>i < length rs. ws ! i = (if jr_connected (rs ! i) then min (wait * 2 ^ length (filter jr_connected (take i rs))) m else brokerPoll))"
  using assms
proof (induction rs arbitrary: wait)
  case Nil
  then show ?case by (intro exI [of _ "[]"] exI [of _ wait]) simp
next
  case (Cons r rs)
  define retryIn where "retryIn = (if jr_connected r then min wait m else brokerPoll)"
  define next_wait where "next_wait = (if jr_connected r then wrap64 (retryIn * 2) else wait)"
  have nw: "next_wait = (if jr_connected r then min wait m * 2 else wait)"
    using Cons.prems by (auto simp: next_wait_def retryIn_def intro!: wrap64_id)
  have bounds: "0 < next_wait" "next_wait \<le> 2 ^ 62" using Cons.prems by (auto simp: nw)
  from Cons.IH [OF _ bounds Cons.prems(4,5)] Cons.prems(1) obtain ws wait' where
    IH: "\<And>rest. subscribeLoop m next_wait (rs @ rest) = (ws @ fst (subscribeLoop m wait' rest), snd (subscribeLoop m wait' rest))"
      "0 < wait'" "wait' \<le> 2 ^ 62" "length ws = length rs"
      "\<And>i. i < length rs \<Longrightarrow> ws ! i = (if jr_connected (rs ! i) then min (next_wait * 2 ^ length (filter jr_connected (take i rs))) m else brokerPoll)"
    by auto
  have step: "subscribeLoop m wait ((r # rs) @ rest) = (retryIn # fst (subscribeLoop m next_wait (rs @ rest)), snd (subscribeLoop m next_wait (rs @ rest)))" for rest
    using Cons.prems(1) by (auto simp: binds_def retryIn_def next_wait_def Let_def split: prod.split)
  have scale: "min (min wait m * 2 * 2 ^ k) m = min (wait * 2 * 2 ^ k) m" for k
  proof -
    define K :: int where "K = 2 * 2 ^ k"
    have "1 \<le> (2 :: int) ^ k" by simp
    then have K: "1 \<le> K" unfolding K_def by linarith
    then have "x \<le> x * K" if "0 < x" for x using that mult_left_mono [of 1 K x] by simp
    then have mK: "m \<le> m * K" and wK: "wait \<le> wait * K" using Cons.prems(2,4) by blast+
    have "min (min wait m * K) m = min (wait * K) m"
    proof (cases "wait \<le> m")
      case False
      with wK have "m \<le> wait * K" by linarith
      with False mK show ?thesis by (simp add: min_absorb2 del: mult_le_cancel_left1)
    qed simp
    then show ?thesis by (simp add: K_def mult.assoc)
  qed
  have "(retryIn # ws) ! i = (if jr_connected ((r # rs) ! i) then min (wait * 2 ^ length (filter jr_connected (take i (r # rs)))) m else brokerPoll)"
    if "i < length (r # rs)" for i
  proof (cases i)
    case 0
    then show ?thesis by (simp add: retryIn_def)
  next
    case (Suc j)
    with that IH(5) [of j] show ?thesis by (simp add: nw scale [unfolded mult.assoc] mult.assoc)
  qed
  with IH step show ?case by (intro exI [of _ "retryIn # ws"] exI [of _ wait']) auto
qed

text \<open>
  C38. A consumer never gives up, and never hammers the broker. As long as the context lives, every
  round that does not bind is followed by another: the wait after a round without the broker is two
  seconds and leaves the others as they were; the wait after the \<open>k\<close>-th refused bind is five seconds
  doubled \<open>k\<close> times, up to the cap of the subscription. The first round that binds ends the loop.
\<close>

theorem a_consumer_never_gives_up:
  assumes "\<And>r. r \<in> set rs \<Longrightarrow> \<not> binds r \<and> \<not> jr_done r" and "maxRetry \<le> 2 ^ 61"
  shows "\<exists>ws. length ws = length rs \<and> (\<exists>wait. Subscribe maxRetry rs = (ws, Trying wait))
     \<and> (\<forall>r rest. binds r \<longrightarrow> Subscribe maxRetry (rs @ r # rest) = (ws, Subscribed))
     \<and> (\<forall>i < length rs. ws ! i = (if jr_connected (rs ! i)
          then min (5 * Second * 2 ^ length (filter jr_connected (take i rs))) (if maxRetry \<le> 0 then 5 * Minute else maxRetry)
          else 2 * Second))"
proof -
  let ?m = "if maxRetry \<le> 0 then defaultMaxRetry else maxRetry"
  have "0 < firstRetry" "firstRetry \<le> 2 ^ 62" "0 < ?m" "?m \<le> 2 ^ 61"
    using assms(2) by (simp_all add: firstRetry_def defaultMaxRetry_def duration_defs)
  with subscribeLoop_tries [of rs firstRetry ?m] assms(1) obtain ws wait' where
    ws: "\<And>rest. Subscribe maxRetry (rs @ rest) = (ws @ fst (subscribeLoop ?m wait' rest), snd (subscribeLoop ?m wait' rest))"
      "length ws = length rs"
      "\<And>i. i < length rs \<Longrightarrow> ws ! i = (if jr_connected (rs ! i) then min (firstRetry * 2 ^ length (filter jr_connected (take i rs))) ?m else brokerPoll)"
    unfolding Subscribe_def by blast
  have "Subscribe maxRetry rs = (ws, Trying wait')" using ws(1) [of "[]"] by simp
  moreover have "binds r \<Longrightarrow> Subscribe maxRetry (rs @ r # rest) = (ws, Subscribed)" for r rest
    using ws(1) [of "r # rest"] by (simp add: binds_def)
  ultimately show ?thesis
    using ws(2,3) by (intro exI [of _ ws]) (auto simp: firstRetry_def defaultMaxRetry_def brokerPoll_def)
qed

definition noStream :: js_round where
  "noStream = \<lparr>jr_connected = True, jr_stream = Inl ''stream not found'', jr_consumer = Inr (), jr_consume = Inr (), jr_done = False\<rparr>"

theorem a_consumer_never_gives_up_witness:
  "\<exists>ws. ws ! 1 = 10 * Second \<and> Subscribe 0 ([noStream, noStream] @ noStream\<lparr>jr_stream := Inr ()\<rparr> # []) = (ws, Subscribed)"
proof -
  have none: "\<And>r. r \<in> set [noStream, noStream] \<Longrightarrow> \<not> binds r \<and> \<not> jr_done r"
    by (auto simp: noStream_def binds_def bind_def)
  have "(0 :: duration) \<le> 2 ^ 61" by simp
  from a_consumer_never_gives_up [OF none this] obtain ws where
    ws: "\<And>r rest. binds r \<Longrightarrow> Subscribe 0 ([noStream, noStream] @ r # rest) = (ws, Subscribed)"
      "\<forall>i < length [noStream, noStream]. ws ! i = (if jr_connected ([noStream, noStream] ! i)
          then min (5 * Second * 2 ^ length (filter jr_connected (take i [noStream, noStream])))
            (if (0 :: duration) \<le> 0 then 5 * Minute else 0) else 2 * Second)"
    by blast
  have "ws ! 1 = 10 * Second" using ws(2) [rule_format, of 1] by (simp add: noStream_def duration_defs)
  moreover have "binds (noStream\<lparr>jr_stream := Inr ()\<rparr>)" by (simp add: noStream_def binds_def bind_def)
  ultimately show ?thesis using ws(1) by blast
qed

end
