(* ===== verification/Outbox_Run.thy ===== *)
theory Outbox_Run
  imports Outbox_Relay Outbox_Consumer
begin

text \<open>
  The life of the relay in its process (\<open>Connect\<close>, \<open>start\<close>, \<open>wake\<close> and \<open>Run\<close> of
  \<open>src/outbox/relay.go\<close>): one goroutine sweeps on the ticks and on the wake-ups, while the transactions of
  the Core commit, flag their tenant and signal, each at its own pace. A step is what one of them does
  between two points where another can be seen: the schedule's methods hold its mutex, the channel
  holds one signal, a transaction commits as a whole. \<open>drain\<close> is one step: the rows it fetched are all
  it acts on, and a commit that meets it in the middle has its own wake-up still to come. The other
  processes change the databases as they like; the log of messages is what this relay published.
\<close>

section \<open>Connecting\<close>

text \<open>The schedule of a relay is made by \<open>start\<close>; until then the field means nothing.\<close>

definition newRelay :: "(string \<Rightarrow> 'd tenant_db) \<Rightarrow> message list \<Rightarrow> 'd relay" where
  "newRelay dbs log = \<lparr>rl_sched = newSweepSchedule 0 0, rl_disc = noDiscovery, rl_streamReady = False,
     rl_warned = False, rl_wakeSignal = False, rl_dbs = dbs, rl_log = log, rl_lines = []\<rparr>"

text \<open>\<open>Connect\<close>: no URL is no relay and no error; what it dials and meets is given.\<close>

definition Connect ::
    "(string \<Rightarrow> string + 'c) \<Rightarrow> ('c \<Rightarrow> string + 'j) \<Rightarrow> (string \<Rightarrow> duration option) \<Rightarrow> string \<Rightarrow> stream_answer
       \<Rightarrow> (string \<Rightarrow> 'd tenant_db) \<Rightarrow> message list \<Rightarrow> string \<Rightarrow> relay_config
       \<Rightarrow> string + (relay_config \<times> 'd relay) option" where
  "Connect connect newJS parseDuration idleEnv answer dbs log url cfg0 =
     (if url = [] then Inr None
      else let cfg = withDefaults parseDuration idleEnv cfg0 in
        case DialWith connect newJS url of
          Inl err \<Rightarrow> Inl err
        | Inr _ \<Rightarrow> Inr (Some (cfg, snd (ensureStream answer (newRelay dbs log)))))"

definition startRelay :: "(string \<Rightarrow> duration option) \<Rightarrow> string \<Rightarrow> relay_config \<Rightarrow> 'd relay \<Rightarrow> 'd relay" where
  "startRelay parseDuration idleEnv cfg r =
     r\<lparr>rl_sched := startSchedule parseDuration idleEnv cfg, rl_wakeSignal := False\<rparr>"

section \<open>The steps\<close>

text \<open>
  Where the goroutine of \<open>Run\<close> is: in the \<open>select\<close>, in a sweep before the stream is checked, before the
  flags are taken, before the tenants are listed, in the loop over the tenants left, or between the
  drain of a tenant and \<open>done\<close>.
\<close>

datatype todo = Flagged "string list" | Listed "string set" time "string list"

datatype phase =
    Selecting
  | Starting bool
  | Taking bool
  | Listing "string set"
  | Sweeping todo
  | Finishing string bool todo
  | Halted

text \<open>A committing goroutine that has its tenant to flag, or the signal to send.\<close>

datatype waker = ToFlag string | ToSignal

text \<open>
  \<open>ru_owed\<close> is a history, which no step reads: the tenants whose commit the listener of the Base heard
  and whose outbox the relay has not read since.
\<close>

record 'd run =
  ru_relay :: "'d relay"
  ru_marks :: "nat set"
  ru_wakers :: "waker list"
  ru_phase :: phase
  ru_owed :: "string set"

text \<open>The next turn of the loop: none, or the tenant to sweep, if it is flagged or due.\<close>

fun nextTurn :: "sweep_schedule \<Rightarrow> todo \<Rightarrow> (string option \<times> todo) option" where
  "nextTurn sched (Flagged []) = None"
| "nextTurn sched (Flagged (t # ts)) = Some (Some t, Flagged ts)"
| "nextTurn sched (Listed flagged now []) = None"
| "nextTurn sched (Listed flagged now (t # ts)) =
     Some (if t \<in> flagged \<or> due sched t now then Some t else None, Listed flagged now ts)"

inductive runStep :: "relay_config \<Rightarrow> codecs \<Rightarrow> 'd run \<Rightarrow> 'd run \<Rightarrow> bool" for cfg co where
  tick: "ru_phase s = Selecting \<Longrightarrow> runStep cfg co s (s\<lparr>ru_phase := Starting False\<rparr>)"
| woken: "ru_phase s = Selecting \<Longrightarrow> rl_wakeSignal (ru_relay s) \<Longrightarrow>
     runStep cfg co s (s\<lparr>ru_relay := (ru_relay s)\<lparr>rl_wakeSignal := False\<rparr>, ru_phase := Starting True\<rparr>)"
| cancel: "ru_phase s = Selecting \<Longrightarrow> runStep cfg co s (s\<lparr>ru_phase := Halted\<rparr>)"
| ensure: "ru_phase s = Starting w \<Longrightarrow> ensureStream answer (ru_relay s) = (ready, r) \<Longrightarrow>
     runStep cfg co s (s\<lparr>ru_relay := r, ru_phase := if ready then Taking w else Selecting\<rparr>)"
| takeAll: "ru_phase s = Taking True \<Longrightarrow> takeFlags (ru_relay s) = (flagged, r) \<Longrightarrow> distinct order \<Longrightarrow> set order = flagged \<Longrightarrow>
     runStep cfg co s (s\<lparr>ru_relay := r, ru_phase := Sweeping (Flagged order)\<rparr>)"
| takeTick: "ru_phase s = Taking False \<Longrightarrow> takeFlags (ru_relay s) = (flagged, r) \<Longrightarrow>
     runStep cfg co s (s\<lparr>ru_relay := r, ru_phase := Listing flagged\<rparr>)"
| list: "ru_phase s = Listing flagged \<Longrightarrow> listTenants cfg e (ru_relay s) = (tenants, r) \<Longrightarrow>
     runStep cfg co s (s\<lparr>ru_relay := r, ru_phase := Sweeping (Listed flagged (se_now e) tenants)\<rparr>)"
| skip: "ru_phase s = Sweeping todo \<Longrightarrow> nextTurn (rl_sched (ru_relay s)) todo = Some (None, rest) \<Longrightarrow>
     runStep cfg co s (s\<lparr>ru_phase := Sweeping rest\<rparr>)"
| drain: "ru_phase s = Sweeping todo \<Longrightarrow> nextTurn (rl_sched (ru_relay s)) todo = Some (Some t, rest) \<Longrightarrow>
     drainTenant cfg co e t (ru_relay s) = (busy, r) \<Longrightarrow>
     runStep cfg co s (s\<lparr>ru_owed := ru_owed s - {t}, ru_relay := r, ru_phase := Finishing t busy rest\<rparr>)"
| finish: "ru_phase s = Finishing t busy rest \<Longrightarrow>
     runStep cfg co s (s\<lparr>ru_relay := finishTenant t busy now (ru_relay s), ru_phase := Sweeping rest\<rparr>)"
| swept: "ru_phase s = Sweeping todo \<Longrightarrow> nextTurn (rl_sched (ru_relay s)) todo = None \<Longrightarrow>
     runStep cfg co s (s\<lparr>ru_phase := Selecting\<rparr>)"
| commit: "InTxFor 1 pool env tenant fn (rl_dbs (ru_relay s) tenant, ru_marks s) = (res, (db, marks), heard) \<Longrightarrow>
     runStep cfg co s (s\<lparr>ru_relay := (ru_relay s)\<lparr>rl_dbs := (rl_dbs (ru_relay s))(tenant := db)\<rparr>,
       ru_marks := marks, ru_wakers := ru_wakers s @ map ToFlag heard, ru_owed := ru_owed s \<union> set heard\<rparr>)"
| flag: "ru_wakers s = xs @ ToFlag t # ys \<Longrightarrow>
     runStep cfg co s (s\<lparr>ru_relay := flagTenant t (ru_relay s), ru_wakers := xs @ ToSignal # ys\<rparr>)"
| signal: "ru_wakers s = xs @ ToSignal # ys \<Longrightarrow>
     runStep cfg co s (s\<lparr>ru_relay := sendWake (ru_relay s), ru_wakers := xs @ ys\<rparr>)"
| elsewhere: "runStep cfg co s (s\<lparr>ru_relay := (ru_relay s)\<lparr>rl_dbs := dbs\<rparr>\<rparr>)"

text \<open>The first state is what \<open>Connect\<close> answered, started; the databases may have events already.\<close>

definition launched :: "(string \<Rightarrow> duration option) \<Rightarrow> string \<Rightarrow> relay_config \<Rightarrow> 'd relay \<Rightarrow> 'd run" where
  "launched parseDuration idleEnv cfg r =
     \<lparr>ru_relay = startRelay parseDuration idleEnv cfg r, ru_marks = {}, ru_wakers = [], ru_phase = Selecting, ru_owed = {}\<rparr>"

inductive runReach :: "relay_config \<Rightarrow> codecs \<Rightarrow> 'd run \<Rightarrow> bool" for cfg co where
  launch: "Connect (connect :: string \<Rightarrow> string + unit) (newJS :: unit \<Rightarrow> string + unit) parseDuration idleEnv answer
       dbs log url cfg0 = Inr (Some (cfg, r)) \<Longrightarrow> runReach cfg co (launched parseDuration idleEnv cfg r)"
| step: "runReach cfg co s \<Longrightarrow> runStep cfg co s s' \<Longrightarrow> runReach cfg co s'"

section \<open>A sweep is a run\<close>

definition runs :: "relay_config \<Rightarrow> codecs \<Rightarrow> 'd run \<Rightarrow> 'd run \<Rightarrow> bool" where
  "runs cfg co = (runStep cfg co)\<^sup>*\<^sup>*"

lemma runs_refl [simp]: "runs cfg co s s"
  by (simp add: runs_def)

lemma runs_step: "runStep cfg co s s' \<Longrightarrow> runs cfg co s' s'' \<Longrightarrow> runs cfg co s s''"
  by (simp add: runs_def converse_rtranclp_into_rtranclp)

lemma runs_one: "runStep cfg co s s' \<Longrightarrow> runs cfg co s s'"
  by (rule runs_step [OF _ runs_refl])

lemma turn_runs:
  assumes "ru_phase s = Sweeping todo" and "nextTurn (rl_sched (ru_relay s)) todo = Some (Some t, rest)"
    and "runs cfg co (s\<lparr>ru_owed := ru_owed s - {t}, ru_relay := sweepTenant cfg co e t (ru_relay s), ru_phase := Sweeping rest\<rparr>) s'"
  shows "runs cfg co s s'"
proof -
  obtain busy r where d: "drainTenant cfg co e t (ru_relay s) = (busy, r)" by (metis prod.exhaust)
  let ?s = "s\<lparr>ru_owed := ru_owed s - {t}, ru_relay := r, ru_phase := Finishing t busy rest\<rparr>"
  have "runStep cfg co ?s (s\<lparr>ru_owed := ru_owed s - {t}, ru_relay := sweepTenant cfg co e t (ru_relay s), ru_phase := Sweeping rest\<rparr>)"
    using runStep.finish [of ?s t busy rest cfg co "se_end e t"] by (simp add: sweepTenant_def d)
  from runs_step [OF this assms(3)] runStep.drain [OF assms(1,2) d] show ?thesis by (blast intro: runs_step)
qed

lemma flagged_runs:
  assumes "ru_phase s = Sweeping (Flagged order)"
  shows "\<exists>owed. runs cfg co s (s\<lparr>ru_owed := owed, ru_relay := foldl (\<lambda>r t. sweepTenant cfg co e t r) (ru_relay s) order,
     ru_phase := Selecting\<rparr>)"
  using assms
proof (induction order arbitrary: s)
  case Nil
  have "s\<lparr>ru_owed := ru_owed s, ru_phase := Selecting\<rparr> = s\<lparr>ru_phase := Selecting\<rparr>" by simp
  with runs_one [OF runStep.swept [OF Nil], of cfg co] show ?case
    by (intro exI [of _ "ru_owed s"]) simp
next
  case (Cons t order)
  let ?s = "s\<lparr>ru_owed := ru_owed s - {t}, ru_relay := sweepTenant cfg co e t (ru_relay s), ru_phase := Sweeping (Flagged order)\<rparr>"
  from Cons.IH [of ?s] obtain owed where
    "runs cfg co ?s (?s\<lparr>ru_owed := owed, ru_relay := foldl (\<lambda>r t. sweepTenant cfg co e t r) (ru_relay ?s) order, ru_phase := Selecting\<rparr>)"
    by auto
  then show ?case by (intro exI [of _ owed] turn_runs [OF Cons.prems, where e = e]) simp_all
qed

lemma listed_runs:
  assumes "ru_phase s = Sweeping (Listed flagged (se_now e) tenants)"
  shows "\<exists>owed. runs cfg co s (s\<lparr>ru_owed := owed, ru_relay := foldl (\<lambda>r t. if t \<in> flagged \<or> due (rl_sched r) t (se_now e)
       then sweepTenant cfg co e t r else r) (ru_relay s) tenants, ru_phase := Selecting\<rparr>)"
  using assms
proof (induction tenants arbitrary: s)
  case Nil
  have "s\<lparr>ru_owed := ru_owed s, ru_phase := Selecting\<rparr> = s\<lparr>ru_phase := Selecting\<rparr>" by simp
  with runs_one [OF runStep.swept [OF Nil], of cfg co] show ?case
    by (intro exI [of _ "ru_owed s"]) simp
next
  case (Cons t tenants)
  show ?case
  proof (cases "t \<in> flagged \<or> due (rl_sched (ru_relay s)) t (se_now e)")
    case True
    let ?s = "s\<lparr>ru_owed := ru_owed s - {t}, ru_relay := sweepTenant cfg co e t (ru_relay s), ru_phase := Sweeping (Listed flagged (se_now e) tenants)\<rparr>"
    from Cons.IH [of ?s] obtain owed where "runs cfg co ?s (?s\<lparr>ru_owed := owed, ru_relay := foldl (\<lambda>r t. if t \<in> flagged \<or> due (rl_sched r) t (se_now e)
       then sweepTenant cfg co e t r else r) (ru_relay ?s) tenants, ru_phase := Selecting\<rparr>)" by auto
    with True show ?thesis by (intro exI [of _ owed] turn_runs [OF Cons.prems, where e = e]) auto
  next
    case False
    let ?s = "s\<lparr>ru_phase := Sweeping (Listed flagged (se_now e) tenants)\<rparr>"
    have "runStep cfg co s ?s" using False by (intro runStep.skip [OF Cons.prems]) simp
    with Cons.IH [of ?s] False show ?thesis by (auto intro: runs_step)
  qed
qed

text \<open>
  Undisturbed, the steps of a sweep are \<open>sweep\<close>: the machine takes the relay from the start of a sweep to
  the \<open>select\<close> with exactly what the function computes.
\<close>

theorem sweep_is_a_run:
  assumes "ru_phase s = Starting w" and "distinct order" and "set order = sc_woken (rl_sched (ru_relay s))"
  shows "\<exists>owed. runs cfg co s (s\<lparr>ru_owed := owed, ru_relay := sweep cfg co e order w (ru_relay s), ru_phase := Selecting\<rparr>)"
proof -
  obtain ready r0 where en: "ensureStream (se_stream e) (ru_relay s) = (ready, r0)" by (metis prod.exhaust)
  note ensured = runStep.ensure [OF assms(1) en, of cfg co]
  show ?thesis
  proof (cases ready)
    case False
    have "s\<lparr>ru_owed := ru_owed s, ru_relay := r0, ru_phase := Selecting\<rparr> = s\<lparr>ru_relay := r0, ru_phase := Selecting\<rparr>" by simp
    with False en runs_one [OF ensured] show ?thesis by (intro exI [of _ "ru_owed s"]) (simp add: sweep_def)
  next
    case True
    have flags: "sc_woken (rl_sched r0) = sc_woken (rl_sched (ru_relay s))"
      using en by (auto simp: ensureStream_def warnOnce_def split: if_splits stream_answer.splits)
    obtain flagged r1 where t: "takeFlags r0 = (flagged, r1)" "flagged = sc_woken (rl_sched (ru_relay s))"
      using flags by (auto simp: takeFlags_def takeWoken_def)
    let ?s = "s\<lparr>ru_relay := r0, ru_phase := Taking w\<rparr>"
    have "\<exists>owed. runs cfg co ?s (s\<lparr>ru_owed := owed, ru_relay := sweep cfg co e order w (ru_relay s), ru_phase := Selecting\<rparr>)"
    proof (cases w)
      case w: True
      have st: "runStep cfg co ?s (?s\<lparr>ru_relay := r1, ru_phase := Sweeping (Flagged order)\<rparr>)"
        using w t assms(2,3) by (intro runStep.takeAll) auto
      from flagged_runs [of "s\<lparr>ru_relay := r1, ru_phase := Sweeping (Flagged order)\<rparr>" order cfg co e] obtain owed where
        "runs cfg co (s\<lparr>ru_relay := r1, ru_phase := Sweeping (Flagged order)\<rparr>)
          (s\<lparr>ru_owed := owed, ru_relay := foldl (\<lambda>r t. sweepTenant cfg co e t r) r1 order, ru_phase := Selecting\<rparr>)" by auto
      with runs_step [OF st] w t en True show ?thesis by (intro exI [of _ owed]) (simp add: sweep_def)
    next
      case w: False
      obtain tenants r2 where l: "listTenants cfg e r1 = (tenants, r2)" by (metis prod.exhaust)
      have "runStep cfg co ?s (s\<lparr>ru_relay := r1, ru_phase := Listing flagged\<rparr>)"
        using runStep.takeTick [of ?s flagged r1 cfg co] w t(1) by auto
      moreover have "runStep cfg co (s\<lparr>ru_relay := r1, ru_phase := Listing flagged\<rparr>)
          (s\<lparr>ru_relay := r2, ru_phase := Sweeping (Listed flagged (se_now e) tenants)\<rparr>)"
        using runStep.list [of "s\<lparr>ru_relay := r1, ru_phase := Listing flagged\<rparr>" flagged cfg e tenants r2 co] l by auto
      moreover have "\<exists>owed. runs cfg co (s\<lparr>ru_relay := r2, ru_phase := Sweeping (Listed flagged (se_now e) tenants)\<rparr>)
          (s\<lparr>ru_owed := owed, ru_relay := sweep cfg co e order w (ru_relay s), ru_phase := Selecting\<rparr>)"
        using listed_runs [of "s\<lparr>ru_relay := r2, ru_phase := Sweeping (Listed flagged (se_now e) tenants)\<rparr>" flagged e tenants cfg co] w t en True l
        by (simp add: sweep_def)
      ultimately show ?thesis by (blast intro: runs_step)
    qed
    with ensured True show ?thesis by (auto intro: runs_step)
  qed
qed

section \<open>What keeps a wake-up moving\<close>

text \<open>The flag of the tenant was taken by the sweep under way, and its turn is still to come.\<close>

fun inTodo :: "string \<Rightarrow> todo \<Rightarrow> bool" where
  "inTodo t (Flagged order) \<longleftrightarrow> t \<in> set order"
| "inTodo t (Listed flagged now tenants) \<longleftrightarrow> t \<in> flagged \<and> t \<in> set tenants"

fun toSweep :: "string \<Rightarrow> phase \<Rightarrow> bool" where
  "toSweep t (Listing flagged) \<longleftrightarrow> t \<in> flagged"
| "toSweep t (Sweeping todo) \<longleftrightarrow> inTodo t todo"
| "toSweep t (Finishing t' busy todo) \<longleftrightarrow> inTodo t todo"
| "toSweep t _ \<longleftrightarrow> False"

definition noted :: "'d run \<Rightarrow> string \<Rightarrow> bool" where
  "noted s t \<longleftrightarrow> ToFlag t \<in> set (ru_wakers s) \<or> t \<in> sc_woken (rl_sched (ru_relay s))"

text \<open>A tenant that is owed a sweep is noted, has its turn, or has no cadence at all to wait for.\<close>

definition cared :: "'d run \<Rightarrow> string \<Rightarrow> bool" where
  "cared s t \<longleftrightarrow> noted s t \<or> toSweep t (ru_phase s) \<or> sc_state (rl_sched (ru_relay s)) t = None"

definition careInv :: "'d run \<Rightarrow> bool" where
  "careInv s \<longleftrightarrow> (\<forall>t \<in> ru_owed s. cared s t)
     \<and> (\<forall>t busy rest. ru_phase s = Finishing t busy rest \<longrightarrow> t \<in> ru_owed s \<longrightarrow> noted s t)"

lemma careI:
  assumes "\<And>t. t \<in> ru_owed s \<Longrightarrow> cared s t"
    and "\<And>t busy rest. ru_phase s = Finishing t busy rest \<Longrightarrow> t \<in> ru_owed s \<Longrightarrow> noted s t"
  shows "careInv s"
  using assms by (simp add: careInv_def)

lemma nextTurn_todo:
  assumes "nextTurn sched todo = Some (next, rest)" and "inTodo t todo"
  shows "next = Some t \<or> inTodo t rest"
  using assms by (induction sched todo rule: nextTurn.induct) (auto split: if_splits)

lemma nextTurn_end: "nextTurn sched todo = None \<Longrightarrow> \<not> inTodo t todo"
  by (induction sched todo rule: nextTurn.induct) auto

lemma drain_idle:
  assumes "drainTenant cfg co e t r = (False, r')" and "rc_Batch cfg \<noteq> 0"
  shows "unpublished t (rl_dbs r t) = []"
proof -
  from assms(1) obtain failed db log where d:
    "drain cfg co t (se_fault e t) (se_fate e t) (rl_dbs r t, rl_log r) = (False, failed, db, log)" "rl_dbs r' t = db"
    by (auto simp: drainTenant_def split: prod.splits)
  from d(1) have "fetchRows (se_fault e t) t (rc_Batch cfg) (rc_TraceColumns cfg) (rl_dbs r t) = Inr []" "db = rl_dbs r t"
    by (auto simp: drain_def split: sum.splits prod.splits)
  then show ?thesis using assms(2) d(2) by (auto simp: fetchRows_def split: sum.splits if_splits)
qed

lemma drain_frame:
  assumes "drainTenant cfg co e t r = (busy, r')"
  shows "rl_sched r' = rl_sched r" and "rl_streamReady r' = rl_streamReady r" and "rl_lines r' = rl_lines r"
    and "rl_warned r' = rl_warned r" and "rl_wakeSignal r' = rl_wakeSignal r"
    and "\<And>t'. t' \<noteq> t \<Longrightarrow> rl_dbs r' t' = rl_dbs r t'"
  using assms by (auto simp: drainTenant_def split: prod.splits)

lemma ensure_frame:
  assumes "ensureStream answer r = (ready, r')"
  shows "rl_sched r' = rl_sched r" and "rl_dbs r' = rl_dbs r" and "rl_log r' = rl_log r"
    and "rl_streamReady r' = ready" and "rl_wakeSignal r' = rl_wakeSignal r"
  using assms by (auto simp: ensureStream_def warnOnce_def split: if_splits stream_answer.splits)

lemma finish_sched:
  "sc_woken (rl_sched (finishTenant t busy now r)) = sc_woken (rl_sched r)"
  "t' \<noteq> t \<Longrightarrow> sc_state (rl_sched (finishTenant t busy now r)) t' = sc_state (rl_sched r) t'"
  "rl_dbs (finishTenant t busy now r) = rl_dbs r" "rl_streamReady (finishTenant t busy now r) = rl_streamReady r"
  "rl_wakeSignal (finishTenant t busy now r) = rl_wakeSignal r" "rl_lines (finishTenant t busy now r) = rl_lines r"
  "rl_warned (finishTenant t busy now r) = rl_warned r" "rl_log (finishTenant t busy now r) = rl_log r"
  by (simp_all add: finishTenant_def sweepDone_def Let_def)

lemma take_flags:
  assumes "takeFlags r = (flagged, r')"
  shows "flagged = sc_woken (rl_sched r)" and "r' = r\<lparr>rl_sched := (rl_sched r)\<lparr>sc_woken := {}\<rparr>\<rparr>"
  using assms by (auto simp: takeFlags_def takeWoken_def)

lemma list_frame:
  assumes "listTenants cfg e r = (tenants, r')"
  shows "rl_sched r' = prune (rl_sched r) tenants" and "rl_dbs r' = rl_dbs r" and "rl_streamReady r' = rl_streamReady r"
    and "rl_lines r' = rl_lines r" and "rl_warned r' = rl_warned r" and "rl_wakeSignal r' = rl_wakeSignal r" and "rl_log r' = rl_log r"
  using assms by (auto simp: listTenants_def split: prod.splits)

lemma careInv_step:
  assumes "runStep cfg co s s'" and "careInv s"
  shows "careInv s'"
proof -
  note inv = assms(2) [unfolded careInv_def]
  from assms(1) show ?thesis
  proof cases
    case (ensure w answer ready r)
    with inv ensure_frame [OF ensure(3)] show ?thesis by (auto simp: careInv_def cared_def noted_def)
  next
    case (takeAll flagged r order)
    with inv take_flags [OF takeAll(3)] show ?thesis by (auto simp: careInv_def cared_def noted_def)
  next
    case (takeTick flagged r)
    with inv take_flags [OF takeTick(3)] show ?thesis by (auto simp: careInv_def cared_def noted_def)
  next
    case (list flagged e tenants r)
    with inv list_frame [OF list(3)] show ?thesis
      by (auto simp: careInv_def cared_def noted_def prune_def restrict_map_def)
  next
    case (skip todo rest)
    with inv show ?thesis by (auto simp: careInv_def cared_def noted_def dest: nextTurn_todo)
  next
    case (drain todo t rest e busy r)
    with inv drain_frame(1) [OF drain(4)] show ?thesis
      by (auto simp: careInv_def cared_def noted_def dest: nextTurn_todo)
  next
    case (finish t busy rest now)
    show ?thesis
    proof (rule careI)
      fix t' assume "t' \<in> ru_owed s'"
      with inv finish have "cared s t'" "t' = t \<longrightarrow> noted s t'" by auto
      with finish show "cared s' t'" by (cases "t' = t") (auto simp: cared_def noted_def finish_sched)
    qed (use finish in auto)
  next
    case (swept todo)
    with inv show ?thesis by (auto simp: careInv_def cared_def noted_def dest: nextTurn_end)
  next
    case (flag xs t ys)
    with inv show ?thesis
      by (auto simp: careInv_def cared_def noted_def flagTenant_def wakeTenant_def)
  next
    case (signal xs ys)
    with inv show ?thesis by (auto simp: careInv_def cared_def noted_def sendWake_def)
  qed (use inv in \<open>auto simp: careInv_def cared_def noted_def\<close>)
qed

section \<open>The stream and the signal\<close>

text \<open>
  A sweep that is past the stream has it; a flag that is up has its signal sent, on its way, or taken
  by a sweep that has yet to take the flags, unless the stream is not there; and the log has at
  most two lines about the stream.
\<close>

fun inSweep :: "phase \<Rightarrow> bool" where
  "inSweep (Taking _) \<longleftrightarrow> True"
| "inSweep (Listing _) \<longleftrightarrow> True"
| "inSweep (Sweeping _) \<longleftrightarrow> True"
| "inSweep (Finishing _ _ _) \<longleftrightarrow> True"
| "inSweep _ \<longleftrightarrow> False"

fun takesFlags :: "phase \<Rightarrow> bool" where
  "takesFlags (Starting _) \<longleftrightarrow> True"
| "takesFlags (Taking _) \<longleftrightarrow> True"
| "takesFlags Halted \<longleftrightarrow> True"
| "takesFlags _ \<longleftrightarrow> False"

definition linesOf :: "'d relay \<Rightarrow> bool" where
  "linesOf r \<longleftrightarrow> (if rl_warned r then \<exists>reason. rl_lines r = StreamNotReady reason # (if rl_streamReady r then [StreamReady] else [])
     else rl_lines r = [])"

definition streamInv :: "'d run \<Rightarrow> bool" where
  "streamInv s \<longleftrightarrow> (inSweep (ru_phase s) \<longrightarrow> rl_streamReady (ru_relay s))
     \<and> (sc_woken (rl_sched (ru_relay s)) \<noteq> {} \<longrightarrow> rl_wakeSignal (ru_relay s) \<or> ToSignal \<in> set (ru_wakers s)
          \<or> takesFlags (ru_phase s) \<or> \<not> rl_streamReady (ru_relay s))
     \<and> linesOf (ru_relay s)"

lemma ensure_lines: "linesOf r \<Longrightarrow> ensureStream answer r = (ready, r') \<Longrightarrow> linesOf r'"
  by (auto simp: ensureStream_def warnOnce_def linesOf_def split: if_splits stream_answer.splits)

lemma streamInv_step:
  assumes "runStep cfg co s s'" and "streamInv s"
  shows "streamInv s'"
proof -
  note inv = assms(2) [unfolded streamInv_def]
  from assms(1) show ?thesis
  proof cases
    case (ensure w answer ready r)
    with inv ensure_frame [OF ensure(3)] ensure_lines [OF _ ensure(3)] show ?thesis by (auto simp: streamInv_def)
  next
    case (takeAll flagged r order)
    with inv take_flags [OF takeAll(3)] show ?thesis by (auto simp: streamInv_def linesOf_def)
  next
    case (takeTick flagged r)
    with inv take_flags [OF takeTick(3)] show ?thesis by (auto simp: streamInv_def linesOf_def)
  next
    case (list flagged e tenants r)
    with inv list_frame [OF list(3)] show ?thesis by (auto simp: streamInv_def linesOf_def prune_def)
  next
    case (drain todo t rest e busy r)
    with inv drain_frame [OF drain(4)] show ?thesis by (auto simp: streamInv_def linesOf_def)
  next
    case (finish t busy rest now)
    with inv show ?thesis by (auto simp: streamInv_def linesOf_def finish_sched)
  next
    case (flag xs t ys)
    with inv show ?thesis by (auto simp: streamInv_def linesOf_def flagTenant_def)
  next
    case (signal xs ys)
    with inv show ?thesis by (auto simp: streamInv_def linesOf_def sendWake_def)
  qed (use inv in \<open>auto simp: streamInv_def linesOf_def\<close>)
qed

lemma launch_inv:
  assumes "Connect connect newJS parseDuration idleEnv answer dbs log url cfg0 = Inr (Some (cfg, r))"
  shows "rc_Batch cfg \<noteq> 0" and "careInv (launched parseDuration idleEnv cfg r)"
    and "streamInv (launched parseDuration idleEnv cfg r)"
proof -
  from assms have c: "cfg = withDefaults parseDuration idleEnv cfg0" "r = snd (ensureStream answer (newRelay dbs log))"
    by (auto simp: Connect_def Let_def split: if_splits sum.splits)
  show "rc_Batch cfg \<noteq> 0" by (simp add: c withDefaults_def Let_def)
  show "careInv (launched parseDuration idleEnv cfg r)"
    by (simp add: careInv_def cared_def launched_def startRelay_def startSchedule_def newSweepSchedule_def)
  have "linesOf (newRelay dbs log :: 'a relay)" by (simp add: linesOf_def newRelay_def)
  then have "linesOf r" using ensure_lines [of "newRelay dbs log" answer] c(2) by (metis prod.collapse)
  then show "streamInv (launched parseDuration idleEnv cfg r)"
    by (simp add: streamInv_def launched_def startRelay_def startSchedule_def newSweepSchedule_def linesOf_def)
qed

lemma run_inv: "runReach cfg co s \<Longrightarrow> rc_Batch cfg \<noteq> 0 \<and> careInv s \<and> streamInv s"
  by (induction rule: runReach.induct) (auto dest: launch_inv careInv_step streamInv_step)


text \<open>
  Nothing is published before the stream exists, and an outage is two lines of log. Only a relay
  whose stream is ready adds a message, once it is ready it stays so, and the log says at most that the
  stream was not ready, once, and then that it is.
\<close>

theorem stream_before_events:
  assumes "runReach cfg co s" and "runStep cfg co s s'"
  shows "(rl_log (ru_relay s') \<noteq> rl_log (ru_relay s) \<longrightarrow> rl_streamReady (ru_relay s))
    \<and> (rl_streamReady (ru_relay s) \<longrightarrow> rl_streamReady (ru_relay s'))
    \<and> (\<exists>reason. prefix (rl_lines (ru_relay s')) [StreamNotReady reason, StreamReady])"
proof (intro conjI impI)
  from run_inv [OF assms(1)] have inv: "streamInv s" by simp
  show "rl_streamReady (ru_relay s)" if "rl_log (ru_relay s') \<noteq> rl_log (ru_relay s)"
    using assms(2) that inv
    by cases (auto simp: streamInv_def finish_sched flagTenant_def sendWake_def
        dest: ensure_frame(3) take_flags(2) list_frame(7))
  show "rl_streamReady (ru_relay s')" if "rl_streamReady (ru_relay s)"
    using assms(2) that
    by cases (auto simp: finish_sched flagTenant_def sendWake_def ensureStream_def
        dest: take_flags(2) list_frame(3) drain_frame(2))
  from streamInv_step [OF assms(2) inv] show "\<exists>reason. prefix (rl_lines (ru_relay s')) [StreamNotReady reason, StreamReady]"
    by (auto simp: streamInv_def linesOf_def split: if_splits)
qed

section \<open>A wake-up of a tenant nobody listed\<close>

lemma foldl_frame: "(\<And>r x. x \<in> set xs \<Longrightarrow> P r \<Longrightarrow> P (f r x)) \<Longrightarrow> P r \<Longrightarrow> P (foldl f r xs)"
  by (induction xs arbitrary: r) auto

text \<open>
  A tick takes every flag, and sweeps the tenants discovery listed: the wake-up of a tenant that is not
  in the list, such as one activated since discovery was last asked, is taken and forgotten, and its
  first event stays where it is until a later listing has the tenant.
\<close>

theorem tick_forgets_an_unlisted_wake:
  fixes r :: "'a relay"
  assumes "rl_streamReady r" and "t \<in> sc_woken (rl_sched r)"
    and "t \<notin> set (fst (sweepTenants cfg (se_known e) (se_found e) (se_asked e) (rl_disc r)))"
  shows "rl_dbs (sweep cfg co e order False r) t = rl_dbs r t \<and> t \<notin> sc_woken (rl_sched (sweep cfg co e order False r))"
proof -
  obtain tenants disc where l: "sweepTenants cfg (se_known e) (se_found e) (se_asked e) (rl_disc r) = (tenants, disc)"
    by (metis prod.exhaust)
  define P where "P = (\<lambda>r' :: 'a relay. rl_dbs r' t = rl_dbs r t \<and> sc_woken (rl_sched r') = {})"
  have keep: "P (sweepTenant cfg co e t' r')" if "P r'" "t' \<in> set tenants" for t' and r' :: "'a relay"
  proof -
    obtain busy r1 where d: "drainTenant cfg co e t' r' = (busy, r1)" by (metis prod.exhaust)
    have "t' \<noteq> t" using that(2) assms(3) l by auto
    with that(1) drain_frame [OF d] show ?thesis by (simp add: P_def sweepTenant_def d finish_sched)
  qed
  have "P (sweep cfg co e order False r)"
    using assms(1) l
    by (auto simp: sweep_def ensureStream_def takeFlags_def takeWoken_def listTenants_def
        intro!: foldl_frame [where P = P] keep) (simp_all add: P_def prune_def)
  then show ?thesis by (simp add: P_def)
qed

section \<open>Witnesses\<close>

definition sample_relay :: "unit relay" where
  "sample_relay = newRelay (\<lambda>_. \<lparr>db_rows = [], db_columns = True, db_processed = [], db_domain = ()\<rparr>) []"

definition sample_run :: "unit run" where
  "sample_run = launched (\<lambda>_. None) [] (withDefaults (\<lambda>_. None) [] sample_relay_config) (snd (ensureStream NotConnected sample_relay))"

text \<open>The broker is not there yet when the first event commits, and its wake-up is on its way.\<close>

lemma sample_run_reach: "runReach (withDefaults (\<lambda>_. None) [] sample_relay_config) co sample_run"
proof -
  have "Connect (\<lambda>_. Inr () :: string + unit) (\<lambda>_. Inr () :: string + unit) (\<lambda>_. None) [] NotConnected (rl_dbs sample_relay) [] ''nats'' sample_relay_config
      = Inr (Some (withDefaults (\<lambda>_. None) [] sample_relay_config, snd (ensureStream NotConnected sample_relay)))"
    by (simp add: Connect_def DialWith_def sample_relay_def newRelay_def)
  from runReach.launch [OF this] show ?thesis by (simp add: sample_run_def)
qed

definition sample_body :: "(unit, unit) tx_step" where
  "sample_body = andStep (Insert Some \<lparr>ge_id = 1, ge_event = ''e-1'', ge_now = 0\<rparr> 7 ''acme'' ''core.x'' ''{}'') (\<lambda>_ w. (Inr (), w))"

definition sample_committed :: "unit run" where
  "sample_committed = (case InTxFor 1 (Inr ()) sample_tx ''acme'' sample_body (rl_dbs (ru_relay sample_run) ''acme'', {}) of
     (res, (db, marks), heard) \<Rightarrow> sample_run\<lparr>ru_relay := (ru_relay sample_run)\<lparr>rl_dbs := (rl_dbs (ru_relay sample_run))(''acme'' := db)\<rparr>,
       ru_marks := marks, ru_wakers := ru_wakers sample_run @ map ToFlag heard, ru_owed := ru_owed sample_run \<union> set heard\<rparr>)"

lemma sample_step: "runStep cfg co sample_run sample_committed"
proof -
  have "ru_marks sample_run = {}" by (simp add: sample_run_def launched_def)
  then show ?thesis
    unfolding sample_committed_def by (auto split: prod.splits intro: runStep.commit)
qed


theorem stream_before_events_witness:
  "rl_log (ru_relay sample_committed) = [] \<and> (\<exists>reason. prefix (rl_lines (ru_relay sample_committed)) [StreamNotReady reason, StreamReady])"
  using stream_before_events [OF sample_run_reach sample_step]
  by (auto simp: sample_run_def launched_def startRelay_def sample_relay_def newRelay_def ensureStream_def warnOnce_def)

definition sample_sweep :: sweep_env where
  "sample_sweep = \<lparr>se_stream = StreamCreated, se_known = [''acme''], se_found = Inl ''off'', se_asked = 0, se_now = 0,
     se_fault = (\<lambda>_. Inr ()), se_fate = (\<lambda>_ _. \<lparr>rf_publish = StoredAcked, rf_mark = Inr 5, rf_bump = Inr ()\<rparr>), se_end = (\<lambda>_. 0)\<rparr>"

theorem tick_forgets_an_unlisted_wake_witness:
  "''beta'' \<in> sc_woken (rl_sched (flagTenant ''beta'' (sample_relay\<lparr>rl_streamReady := True\<rparr>)))
   \<and> ''beta'' \<notin> sc_woken (rl_sched (sweep sample_relay_config sample_codecs sample_sweep [] False
      (flagTenant ''beta'' (sample_relay\<lparr>rl_streamReady := True\<rparr>))))"
proof -
  let ?r = "flagTenant ''beta'' (sample_relay\<lparr>rl_streamReady := True\<rparr>)"
  have "rl_streamReady ?r" "''beta'' \<in> sc_woken (rl_sched ?r)"
    by (simp_all add: flagTenant_def wakeTenant_def)
  moreover have "''beta'' \<notin> set (fst (sweepTenants sample_relay_config (se_known sample_sweep) (se_found sample_sweep)
      (se_asked sample_sweep) (rl_disc ?r)))"
    by (simp add: sweepTenants_def sample_relay_config_def fallbackTenants_def sample_sweep_def)
  ultimately show ?thesis
    using tick_forgets_an_unlisted_wake [of ?r "''beta''" sample_relay_config sample_sweep sample_codecs "[]"] by blast
qed

end
