(* ===== verification/Outbox_Envelope.thy ===== *)
theory Outbox_Envelope
  imports Outbox_Relay
begin

text \<open>
  A received event and what its handler knows of it (\<open>ParseEnvelope\<close>, \<open>ContextWithEnvelope\<close> and the
  accessors of \<open>src/outbox/meta.go\<close>), and the whole way of a causal chain: written by \<open>InsertWith\<close>, read
  and put on the wire by the relay, parsed by the next handler, extended by \<open>NextCausation\<close>. JSON, the
  canonical text of \<open>jsonb\<close> and the trace propagator are arguments.
\<close>

section \<open>Handling an event\<close>

record event_ctx = ctx +
  ev_envelope :: "envelope option"

definition ParseEnvelope :: "(string \<Rightarrow> string + envelope) \<Rightarrow> string \<Rightarrow> string + envelope" where
  "ParseEnvelope decode data = (case decode data of
     Inl err \<Rightarrow> Inl (''outbox: parse envelope: '' @ err) | Inr env \<Rightarrow> Inr env)"

text \<open>\<open>extract\<close> makes the traceparent of a carrier the remote parent of a context.\<close>

definition ContextWithEnvelope ::
    "((string \<rightharpoonup> string) \<Rightarrow> 'a event_ctx_scheme \<Rightarrow> 'a event_ctx_scheme) \<Rightarrow> 'a event_ctx_scheme \<Rightarrow> envelope
       \<Rightarrow> 'a event_ctx_scheme" where
  "ContextWithEnvelope extract ctx env =
     (let ctx1 = (if en_Traceparent env \<noteq> [] then extract [''traceparent'' \<mapsto> en_Traceparent env] ctx else ctx)
      in ctx1\<lparr>ev_envelope := Some env\<rparr>)"

definition EnvelopeFrom :: "'a event_ctx_scheme \<Rightarrow> envelope option" where
  "EnvelopeFrom ctx = ev_envelope ctx"

definition TraceparentFrom :: "'a event_ctx_scheme \<Rightarrow> string" where
  "TraceparentFrom ctx = (case EnvelopeFrom ctx of None \<Rightarrow> [] | Some env \<Rightarrow> en_Traceparent env)"

definition CausationFrom :: "'a event_ctx_scheme \<Rightarrow> (string \<times> causation option) option" where
  "CausationFrom ctx = map_option (\<lambda>env. (en_EventID env, en_Causation env)) (EnvelopeFrom ctx)"

lemma EnvelopeFrom_context [simp]:
  "EnvelopeFrom (ContextWithEnvelope extract ctx env) = Some env"
  by (simp add: EnvelopeFrom_def ContextWithEnvelope_def Let_def)

lemma from_context [simp]:
  "TraceparentFrom (ContextWithEnvelope extract ctx env) = en_Traceparent env"
  "CausationFrom (ContextWithEnvelope extract ctx env) = Some (en_EventID env, en_Causation env)"
  by (simp_all add: TraceparentFrom_def CausationFrom_def)

section \<open>Over the wire\<close>

text \<open>
  What the code relies on in its codecs, on strings that are valid UTF-8: a parsed envelope is the one
  that was marshalled, up to the layout of its raw data; and a causation read back from its \<open>jsonb\<close>
  column is the one that was written.
\<close>

record event_codecs =
  ec_relay :: codecs
  ec_jsonb :: "string \<Rightarrow> string option"
  ec_marshalCausation :: "causation \<Rightarrow> string option"
  ec_decode :: "string \<Rightarrow> string + envelope"

definition envelopesRead :: "event_codecs \<Rightarrow> bool" where
  "envelopesRead K \<longleftrightarrow> (\<forall>env data. co_marshal (ec_relay K) env = Some data \<longrightarrow>
     (\<exists>raw. ec_decode K data = Inr (env\<lparr>en_Data := raw\<rparr>)))"

definition causationsRead :: "event_codecs \<Rightarrow> bool" where
  "causationsRead K \<longleftrightarrow> (\<forall>c written stored. ec_marshalCausation K c = Some written \<longrightarrow> ec_jsonb K written = Some stored \<longrightarrow>
     stored \<noteq> [] \<and> co_parseCausation (ec_relay K) stored = Some c)"

text \<open>The rows a statement added.\<close>

definition addedRows :: "'d tenant_db \<Rightarrow> 'd tenant_db \<Rightarrow> outbox_row set" where
  "addedRows db db' = set (db_rows db') - set (db_rows db)"

lemma InsertWith_row:
  assumes "InsertWith jsonb marshal gen tx tenant subject payload m (db, marks) = (Inr event, db', marks')"
    and "row \<in> addedRows db db'"
  shows "\<exists>p. jsonb payload = Some p \<and> event = ge_event gen \<and> or_event row = event \<and> or_tenant row = tenant
     \<and> or_subject row = subject \<and> or_payload row = p \<and> or_created row = ge_now gen
     \<and> or_traceparent row = (if me_Traceparent m = [] then None else Some (me_Traceparent m))
     \<and> (case me_Causation m of None \<Rightarrow> or_causation row = None
        | Some c \<Rightarrow> \<exists>written stored. marshal c = Some written \<and> jsonb written = Some stored \<and> or_causation row = Some stored)"
  using assms
  by (auto simp: InsertWith_def addedRows_def newRow_def Let_def split: option.splits if_splits)

lemma envelope_of_row:
  assumes "InsertWith (ec_jsonb K) (ec_marshalCausation K) gen tx tenant subject payload m (db, marks) = (Inr event, db', marks')"
    and "row \<in> addedRows db db'" and "causationsRead K"
    and "envelopeFor (ec_relay K) (toRow True row) = Some data"
  shows "\<exists>p. ec_jsonb K payload = Some p \<and> co_marshal (ec_relay K) \<lparr>en_EventID = event, en_TenantID = tenant,
     en_Subject = subject, en_OccurredAt = co_time (ec_relay K) (ge_now gen), en_Data = p,
     en_Traceparent = me_Traceparent m, en_Causation = me_Causation m\<rparr> = Some data"
proof -
  from InsertWith_row [OF assms(1,2)] obtain p where p: "ec_jsonb K payload = Some p" "event = ge_event gen"
    "or_event row = event" "or_tenant row = tenant" "or_subject row = subject" "or_payload row = p" "or_created row = ge_now gen"
    "or_traceparent row = (if me_Traceparent m = [] then None else Some (me_Traceparent m))"
    and c: "case me_Causation m of None \<Rightarrow> or_causation row = None
        | Some c \<Rightarrow> \<exists>written stored. ec_marshalCausation K c = Some written \<and> ec_jsonb K written = Some stored \<and> or_causation row = Some stored"
    by blast
  have cols: "rw_EventID (toRow True row) = event" "rw_TenantID (toRow True row) = tenant" "rw_Subject (toRow True row) = subject"
    "rw_Payload (toRow True row) = p" "rw_CreatedAt (toRow True row) = ge_now gen"
    "rw_Traceparent (toRow True row) = me_Traceparent m"
    using p by (auto simp: toRow_def)
  show ?thesis
  proof (cases "me_Causation m")
    case None
    with c have "rw_Causation (toRow True row) = []" by (simp add: toRow_def)
    with cols p(1) None assms(4) show ?thesis by (simp add: envelopeFor_def Let_def)
  next
    case (Some why)
    with c obtain written stored where "ec_marshalCausation K why = Some written" "ec_jsonb K written = Some stored"
      "rw_Causation (toRow True row) = stored" by (auto simp: toRow_def)
    with assms(3) have "rw_Causation (toRow True row) \<noteq> []"
      "co_parseCausation (ec_relay K) (rw_Causation (toRow True row)) = Some why"
      by (auto simp: causationsRead_def)
    with cols p(1) Some assms(4) show ?thesis by (simp add: envelopeFor_def Let_def)
  qed
qed

lemma publish_sent:
  "publish co fate row log = (True, log') \<longleftrightarrow> fate = StoredAcked \<and> (\<exists>data. envelopeFor co row = Some data
     \<and> log' = log @ [\<lparr>ms_subject = rw_Subject row, ms_data = data, ms_id = rw_EventID row\<rparr>])"
  by (cases "envelopeFor co row"; cases fate) (auto simp: publish_def Let_def)

text \<open>
  C30. An event says over the wire what it was written with. The row that \<open>InsertWith\<close> added, read by a
  relay with the trace columns and published, is received as an envelope of the same event, tenant and
  subject, and its handler finds in its context the event id, the traceparent and the causation the
  writer gave, none for a root event.
\<close>

theorem cause_survives_the_wire:
  assumes "InsertWith (ec_jsonb K) (ec_marshalCausation K) gen tx tenant subject payload m (db, marks) = (Inr event, db', marks')"
    and "row \<in> addedRows db db'"
    and "publish (ec_relay K) fate (toRow True row) log = (True, log')"
    and "envelopesRead K" and "causationsRead K"
  shows "\<exists>msg env. log' = log @ [msg] \<and> ms_id msg = event \<and> ms_subject msg = subject
     \<and> ParseEnvelope (ec_decode K) (ms_data msg) = Inr env
     \<and> en_EventID env = event \<and> en_TenantID env = tenant \<and> en_Subject env = subject
     \<and> TraceparentFrom (ContextWithEnvelope extract ctx env) = me_Traceparent m
     \<and> CausationFrom (ContextWithEnvelope extract ctx env) = Some (event, me_Causation m)"
proof -
  from assms(3) obtain data where d: "envelopeFor (ec_relay K) (toRow True row) = Some data"
    "log' = log @ [\<lparr>ms_subject = rw_Subject (toRow True row), ms_data = data, ms_id = rw_EventID (toRow True row)\<rparr>]"
    unfolding publish_sent by blast
  from envelope_of_row [OF assms(1,2,5) d(1)] obtain p where
    "co_marshal (ec_relay K) \<lparr>en_EventID = event, en_TenantID = tenant, en_Subject = subject,
       en_OccurredAt = co_time (ec_relay K) (ge_now gen), en_Data = p, en_Traceparent = me_Traceparent m,
       en_Causation = me_Causation m\<rparr> = Some data" by blast
  from assms(4) [unfolded envelopesRead_def, rule_format, OF this] obtain env where
    "ec_decode K data = Inr env" "en_EventID env = event" "en_TenantID env = tenant" "en_Subject env = subject"
    "en_Traceparent env = me_Traceparent m" "en_Causation env = me_Causation m" by auto
  moreover have "rw_EventID (toRow True row) = event" "rw_Subject (toRow True row) = subject"
    using InsertWith_row [OF assms(1,2)] by (auto simp: toRow_def)
  ultimately show ?thesis using d(2) by (simp add: ParseEnvelope_def)
qed

section \<open>The loop guard over the wire\<close>

text \<open>
  A path of reactions across Cores. It starts at a received event with no cause; each principal takes
  the causation out of its handler's context, asks \<open>NextCausation\<close> with a depth of its own, at most
  the bound, and writes its event with what it answers; the relay puts that row on the wire.
\<close>

inductive wirePath :: "event_codecs \<Rightarrow> int \<Rightarrow> string \<Rightarrow> string list \<Rightarrow> string \<Rightarrow> bool" for K bound root where
  root: "ParseEnvelope (ec_decode K) root = Inr env \<Longrightarrow> en_Causation env = None \<Longrightarrow> wirePath K bound root [] root"
| react: "wirePath K bound root ps data \<Longrightarrow> ParseEnvelope (ec_decode K) data = Inr env \<Longrightarrow>
     CausationFrom (ContextWithEnvelope ext (ctx :: event_ctx) env) = Some (trigger, why) \<Longrightarrow>
     depthOrDefault depth \<le> bound \<Longrightarrow> NextCausation trigger why ptype pid depth = Inr c \<Longrightarrow>
     InsertWith (ec_jsonb K) (ec_marshalCausation K) gen tx tenant subject payload
       \<lparr>me_Traceparent = traceparent, me_Causation = Some c\<rparr> (db :: unit tenant_db, marked) = (Inr event, db', marked') \<Longrightarrow>
     row \<in> addedRows db db' \<Longrightarrow> envelopeFor (ec_relay K) (toRow True row) = Some data' \<Longrightarrow>
     wirePath K bound root (ps @ [pid]) data'"

lemma wirePath_chain:
  assumes "wirePath K bound root ps data" and "envelopesRead K" and "causationsRead K"
  shows "distinct ps \<and> [] \<notin> set ps \<and> (ps = [] \<or> int (length ps) \<le> bound)
     \<and> (\<exists>env. ec_decode K data = Inr env \<and> chainOf (en_Causation env) = ps)"
  using assms
proof (induction rule: wirePath.induct)
  case (root env)
  then show ?case by (auto simp: ParseEnvelope_def chainOf_def split: sum.splits)
next
  case (react ps data env ext ctx trigger why depth ptype pid c gen tx tenant subject payload traceparent db marked event db' marked' row data')
  from react.IH react.prems obtain env0 where IH: "distinct ps" "[] \<notin> set ps" "ec_decode K data = Inr env0"
    "chainOf (en_Causation env0) = ps" by blast
  with react.hyps(2,3) have why: "chainOf why = ps" by (auto simp: ParseEnvelope_def)
  from react.hyps(5) [unfolded NextCausation_Inr] why react.hyps(4)
  have c: "pid \<noteq> []" "distinct (ps @ [pid])" "int (length (ps @ [pid])) \<le> bound" "ca_Chain c = ps @ [pid]" by auto
  from envelope_of_row [OF react.hyps(6,7) react.prems(2) react.hyps(8)] obtain p where
    "co_marshal (ec_relay K) \<lparr>en_EventID = event, en_TenantID = tenant, en_Subject = subject,
       en_OccurredAt = co_time (ec_relay K) (ge_now gen), en_Data = p, en_Traceparent = traceparent,
       en_Causation = Some c\<rparr> = Some data'" by auto
  from react.prems(1) [unfolded envelopesRead_def, rule_format, OF this] obtain env' where
    "ec_decode K data' = Inr env'" "en_Causation env' = Some c" by auto
  with c IH(2) show ?case by (auto simp: chainOf_def)
qed

text \<open>
  C29. Agents that answer each other's events stop. Along any path of reactions across Cores and over
  the wire, from an event that nothing caused, no principal acts twice and there are at most as many
  reactions as the largest depth a Core was given (8 when none was); the event at its end carries
  exactly the principals of the path, oldest first.
\<close>

theorem reactions_end_over_the_wire:
  assumes "wirePath K bound root ps data" and "envelopesRead K" and "causationsRead K"
  shows "distinct ps \<and> int (length ps) \<le> max 0 bound
     \<and> (\<exists>env. ParseEnvelope (ec_decode K) data = Inr env \<and> chainOf (en_Causation env) = ps)"
  using wirePath_chain [OF assms] by (auto simp: ParseEnvelope_def)

text \<open>
  The relay has its part in it. Without \<open>TraceColumns\<close> it reads neither column, and what it puts on the
  wire has no cause, whatever the row says: the next handler takes the event for a root.
\<close>

lemma envelopeFor_without_columns:
  "envelopeFor co (toRow False row) = co_marshal co \<lparr>en_EventID = or_event row, en_TenantID = or_tenant row,
     en_Subject = or_subject row, en_OccurredAt = co_time co (or_created row), en_Data = or_payload row,
     en_Traceparent = [], en_Causation = None\<rparr>"
  by (simp add: envelopeFor_def toRow_def Let_def)

section \<open>Witnesses\<close>

definition sample_event :: "causation option \<Rightarrow> string \<Rightarrow> envelope" where
  "sample_event why event = \<lparr>en_EventID = event, en_TenantID = ''acme'', en_Subject = ''core.x'', en_OccurredAt = [], en_Data = ''{}'',
     en_Traceparent = [], en_Causation = why\<rparr>"

definition sample_cause :: causation where
  "sample_cause = \<lparr>ca_EventID = ''e-0'', ca_PrincipalType = ''agent'', ca_PrincipalID = ''bot'', ca_Chain = [''bot'']\<rparr>"

text \<open>A codec of the two events and the one causation of the sample.\<close>

definition sample_event_codecs :: event_codecs where
  "sample_event_codecs =
     \<lparr>ec_relay = \<lparr>co_time = (\<lambda>_. []), co_parseCausation = (\<lambda>s. if s = ''c'' then Some sample_cause else None),
        co_marshal = (\<lambda>e. if e = sample_event (Some sample_cause) ''e-1'' then Some ''1'' else None)\<rparr>,
      ec_jsonb = Some, ec_marshalCausation = (\<lambda>c. if c = sample_cause then Some ''c'' else None),
      ec_decode = (\<lambda>s. if s = ''0'' then Inr (sample_event None ''e-0'')
        else if s = ''1'' then Inr (sample_event (Some sample_cause) ''e-1'') else Inl ''bad'')\<rparr>"

lemma sample_codecs_read: "envelopesRead sample_event_codecs" "causationsRead sample_event_codecs"
  by (auto simp: envelopesRead_def causationsRead_def sample_event_codecs_def sample_event_def split: if_splits)

definition sample_event_db :: "unit tenant_db" where
  "sample_event_db = \<lparr>db_rows = [], db_columns = True, db_processed = [], db_domain = ()\<rparr>"

definition sample_event_row :: outbox_row where
  "sample_event_row = newRow \<lparr>ge_id = 1, ge_event = ''e-1'', ge_now = 0\<rparr> ''acme'' ''core.x'' ''{}'' None (Some ''c'')"

lemma sample_written:
  "InsertWith (ec_jsonb sample_event_codecs) (ec_marshalCausation sample_event_codecs) \<lparr>ge_id = 1, ge_event = ''e-1'', ge_now = 0\<rparr> 7
     ''acme'' ''core.x'' ''{}'' \<lparr>me_Traceparent = [], me_Causation = Some sample_cause\<rparr> (sample_event_db, {})
   = (Inr ''e-1'', sample_event_db\<lparr>db_rows := [sample_event_row]\<rparr>, {})"
  "sample_event_row \<in> addedRows sample_event_db (sample_event_db\<lparr>db_rows := [sample_event_row]\<rparr>)"
  "envelopeFor (ec_relay sample_event_codecs) (toRow True sample_event_row) = Some ''1''"
  by (simp_all add: InsertWith_def sample_event_codecs_def sample_event_db_def sample_event_row_def addedRows_def
      envelopeFor_def toRow_def newRow_def sample_event_def Let_def)

definition sample_event_ctx :: event_ctx where
  "sample_event_ctx = ctx.extend background \<lparr>ev_envelope = None\<rparr>"

theorem cause_survives_the_wire_witness:
  "\<exists>msg env. publish (ec_relay sample_event_codecs) StoredAcked (toRow True sample_event_row) [] = (True, [msg])
     \<and> ParseEnvelope (ec_decode sample_event_codecs) (ms_data msg) = Inr env
     \<and> CausationFrom (ContextWithEnvelope (\<lambda>_ c. c) sample_event_ctx env)
         = Some (''e-1'', Some sample_cause)"
proof -
  obtain log' where p: "publish (ec_relay sample_event_codecs) StoredAcked (toRow True sample_event_row) [] = (True, log')"
    using sample_written(3) by (auto simp: publish_sent)
  from cause_survives_the_wire [OF sample_written(1,2) p sample_codecs_read] p show ?thesis by fastforce
qed

theorem reactions_end_over_the_wire_witness:
  "\<exists>env. ParseEnvelope (ec_decode sample_event_codecs) ''1'' = Inr env \<and> chainOf (en_Causation env) = [''bot'']"
proof -
  have "wirePath sample_event_codecs 8 ''0'' [] ''0''"
    by (rule wirePath.root [of _ _ "sample_event None ''e-0''"])
      (simp_all add: ParseEnvelope_def sample_event_codecs_def sample_event_def)
  moreover have "ParseEnvelope (ec_decode sample_event_codecs) ''0'' = Inr (sample_event None ''e-0'')"
    by (simp add: ParseEnvelope_def sample_event_codecs_def)
  moreover have "CausationFrom (ContextWithEnvelope (\<lambda>_ c. c) sample_event_ctx (sample_event None ''e-0'')) = Some (''e-0'', None)"
    by (simp add: sample_event_def)
  moreover have "depthOrDefault 0 \<le> 8" by (simp add: depthOrDefault_def DefaultMaxCausationDepth_def)
  moreover have "NextCausation ''e-0'' None ''agent'' ''bot'' 0 = Inr sample_cause"
    by (simp add: NextCausation_Inr chainOf_def depthOrDefault_def DefaultMaxCausationDepth_def sample_cause_def)
  ultimately have "wirePath sample_event_codecs 8 ''0'' ([] @ [''bot'']) ''1''"
    by (rule wirePath.react [OF _ _ _ _ _ sample_written])
  from reactions_end_over_the_wire [OF this sample_codecs_read] show ?thesis by simp
qed

end
