(* ===== verification/Outbox_Journey.thy ===== *)
theory Outbox_Journey
  imports Outbox_Delivery Outbox_Envelope
begin

text \<open>
  The journey of a tenant's events from one Core to the data of another: committed to the outbox
  (\<^theory_text>\<open>Outbox_Store\<close>), published by any number of replicas (\<^theory_text>\<open>Outbox_Delivery\<close>), read from
  the broker in any order and as often as it delivers them, and handled by a consumer that marks what
  it processed in the transaction of the effect (\<open>deliverAll\<close>). Every part may fail and repeat.
\<close>

section \<open>From commit to effect\<close>

text \<open>An answer after which a consumer acknowledges: done, or processed already.\<close>

definition settled :: "tx_error + unit \<Rightarrow> bool" where
  "settled r \<longleftrightarrow> r = Inr () \<or> r = Inl (Body AlreadyProcessed)"

text \<open>
  JSON keeps the event ids of a history: the envelope of one of them is decoded, and to the same id.
  (They are UUIDs, so their text is ASCII.)
\<close>

definition eventsRead :: "event_codecs \<Rightarrow> string set \<Rightarrow> bool" where
  "eventsRead K ids \<longleftrightarrow> (\<forall>env data. en_EventID env \<in> ids \<longrightarrow> co_marshal (ec_relay K) env = Some data \<longrightarrow>
     (\<exists>env'. ec_decode K data = Inr env' \<and> en_EventID env' = en_EventID env))"

lemma envelopeFor_event: "envelopeFor co row = Some data \<Longrightarrow> \<exists>env. co_marshal co env = Some data \<and> en_EventID env = rw_EventID row"
  by (auto simp: envelopeFor_def Let_def split: if_splits option.splits)

text \<open>What the broker stored is read as the event of a committed row, the one its message id names.\<close>

lemma stored_message_read:
  assumes "fleetReach cfg (ec_relay K) tenant s" and "T = tenantRows tenant (fl_db s)"
    and "eventsRead K (or_event ` set T)" and "m \<in> set (fl_log s)"
  shows "ms_id m \<in> or_event ` set T \<and> (\<exists>env. ParseEnvelope (ec_decode K) (ms_data m) = Inr env \<and> en_EventID env = ms_id m)"
proof -
  from fleetInv_log(1) [OF fleetReach_inv [OF assms(1)] assms(2) refl assms(4)] obtain r where
    r: "r \<in> set T" "ms_id m = or_event r" "envelopeFor (ec_relay K) (toRow (rc_TraceColumns cfg) r) = Some (ms_data m)"
    by (auto simp: messageOf_def)
  from envelopeFor_event [OF r(3)] obtain env where
    env: "co_marshal (ec_relay K) env = Some (ms_data m)" "en_EventID env = or_event r" by auto
  with r(1) have "en_EventID env \<in> or_event ` set T" by simp
  from assms(3) [unfolded eventsRead_def, rule_format, OF this env(1)] env(2)
  obtain env' where "ec_decode K (ms_data m) = Inr env'" "en_EventID env' = or_event r" by auto
  with r(1,2) show ?thesis by (auto simp: ParseEnvelope_def)
qed

lemma applied_were_delivered:
  "deliverAll hooks tenant effect ds (db, marks) = (rs, db', marks') \<Longrightarrow>
     fst ` set (db_processed db') \<subseteq> fst ` set (db_processed db) \<union> dv_event ` set ds"
proof (induction ds arbitrary: db marks rs)
  case (Cons d ds)
  obtain r db1 marks1 heard where step: "InTxFor hooks (dv_pool d) (dv_env d) tenant
      (applyOnce (dv_fault d) tenant (dv_event d) (dv_subject d) effect) (db, marks) = (r, (db1, marks1), heard)"
    by (metis prod.exhaust)
  with Cons.prems obtain rs' where rest: "deliverAll hooks tenant effect ds (db1, marks1) = (rs', db', marks')"
    by (auto split: prod.splits)
  from deliver_step [OF step] have "fst ` set (db_processed db1) \<subseteq> insert (dv_event d) (fst ` set (db_processed db))"
    by (elim disjE conjE) auto
  with Cons.IH [OF rest] show ?case by auto
qed simp

text \<open>
  C5. What one Core committed is what the other one applied, each event once. Let any number of
  replicas of a Core commit and publish, with failures and repetitions anywhere, and a consumer that has
  processed nothing yet be delivered what the broker stored, in any order and any number of times, in
  transactions that fail or lose the answer to their commit as they like. Then its data is what it was with the effects of
  distinct committed events, each exactly once, in the order they were first applied; every event
  whose delivery was settled is among them; and once every stored message is settled, so is every
  event the outbox of the producer marks as published.
\<close>

theorem committed_history_is_applied:
  assumes "fleetReach cfg (ec_relay K) tenant s" and "T = tenantRows tenant (fl_db s)"
    and "eventsRead K (or_event ` set T)"
    and "\<forall>d \<in> set ds. \<exists>m \<in> set (fl_log s). \<exists>env. ParseEnvelope (ec_decode K) (ms_data m) = Inr env \<and> dv_event d = en_EventID env"
    and "deliverAll hooks ctenant effect ds (db, started) = (rs, db', started')" and "db_processed db = []"
  shows "\<exists>applied. distinct applied \<and> set applied \<subseteq> or_event ` set T
    \<and> db_domain db' = fold effect applied (db_domain db)
    \<and> (\<forall>event r. (event, r) \<in> set rs \<and> settled r \<longrightarrow> event \<in> set applied)
    \<and> ((\<forall>m \<in> set (fl_log s). \<exists>r. (ms_id m, r) \<in> set rs \<and> settled r) \<longrightarrow>
         or_event ` {r \<in> set T. or_published r \<noteq> None} \<subseteq> set applied)"
proof -
  let ?applied = "rev (map fst (db_processed db'))"
  have "appliedOnce effect (db_domain db) db" using assms(6) by (simp add: appliedOnce_def)
  note once = deliverAll_applied [OF assms(5) this]
  have "fst ` set (db_processed db') \<subseteq> dv_event ` set ds" using applied_were_delivered [OF assms(5)] assms(6) by simp
  also have "\<dots> \<subseteq> or_event ` set T"
    using assms(4) stored_message_read [OF assms(1-3)] by fastforce
  finally have sub: "set ?applied \<subseteq> or_event ` set T" by simp
  have settled: "event \<in> set ?applied" if "(event, r) \<in> set rs" "settled r" for event r
    using once that unfolding settled_def by fastforce
  have "or_event r \<in> set ?applied"
    if all: "\<forall>m \<in> set (fl_log s). \<exists>r. (ms_id m, r) \<in> set rs \<and> settled r" and r: "r \<in> set T" "or_published r \<noteq> None" for r
  proof -
    from fleetInv_log(2) [OF fleetReach_inv [OF assms(1)] assms(2) refl r] obtain m where
      "m \<in> set (fl_log s)" "ms_id m = or_event r" by (force simp: messageOf_def)
    with all settled show ?thesis by metis
  qed
  with once sub settled show ?thesis by (intro exI [of _ ?applied]) (auto simp: appliedOnce_def)
qed

section \<open>Witness\<close>

definition journey_codecs :: event_codecs where
  "journey_codecs = \<lparr>ec_relay = sample_codecs\<lparr>co_marshal := (\<lambda>e. Some (en_EventID e))\<rparr>,
     ec_jsonb = Some, ec_marshalCausation = (\<lambda>_. None),
     ec_decode = (\<lambda>s. Inr \<lparr>en_EventID = s, en_TenantID = ''acme'', en_Subject = ''core.x'', en_OccurredAt = [],
       en_Data = ''{}'', en_Traceparent = [], en_Causation = None\<rparr>)\<rparr>"

definition journey_delivery :: "commit_fate \<Rightarrow> delivery" where
  "journey_delivery fate = \<lparr>dv_event = ''e-2'', dv_subject = ''core.x'', dv_env = sample_tx\<lparr>tx_commit := fate\<rparr>,
     dv_pool = Inr (), dv_fault = Inr ()\<rparr>"

lemma journey_published:
  "fleetReach sample_relay_config (ec_relay journey_codecs) ''acme''
     (fleetOf [(sample_outbox_row 2 ''e-2'')\<lparr>or_published := Some 5\<rparr>]
        [\<lparr>ms_subject = ''core.x'', ms_data = ''e-2'', ms_id = ''e-2''\<rparr>] Idle)"
  by (rule one_delivered) (simp add: publish_def envelopeFor_def journey_codecs_def sample_codecs_def sample_outbox_row_def toRow_def)

text \<open>The event is delivered three times: the commit fails, then its answer is lost, then it is found processed.\<close>

theorem committed_history_is_applied_witness:
  "db_domain (fst (snd (deliverAll 0 ''acme'' (\<lambda>_ n. n + 1)
      [journey_delivery (NotCommitted ''down''), journey_delivery (AnswerLost ''timeout''), journey_delivery Committed] (sample_db, {})))) = 1"
proof -
  let ?ds = "[journey_delivery (NotCommitted ''down''), journey_delivery (AnswerLost ''timeout''), journey_delivery Committed]"
  let ?s = "fleetOf [(sample_outbox_row 2 ''e-2'')\<lparr>or_published := Some 5\<rparr>] [\<lparr>ms_subject = ''core.x'', ms_data = ''e-2'', ms_id = ''e-2''\<rparr>] Idle"
  obtain rs db' started' where r: "deliverAll 0 ''acme'' (\<lambda>_ n. n + 1) ?ds (sample_db, {}) = (rs, db', started')"
    by (metis prod.exhaust)
  then have "(''e-2'', Inl (Body AlreadyProcessed)) \<in> set rs"
    by (auto simp: journey_delivery_def InTxFor_def runTx_def applyOnce_def andStep_def MarkProcessed_def sample_store_defs)
  moreover have T: "tenantRows ''acme'' (fl_db ?s) = [(sample_outbox_row 2 ''e-2'')\<lparr>or_published := Some 5\<rparr>]"
    by (simp add: tenantRows_def sample_outbox_row_def)
  moreover have "eventsRead journey_codecs ids" for ids
    by (simp add: eventsRead_def journey_codecs_def)
  moreover have "\<forall>d \<in> set ?ds. \<exists>m \<in> set (fl_log ?s). \<exists>env. ParseEnvelope (ec_decode journey_codecs) (ms_data m) = Inr env
      \<and> dv_event d = en_EventID env"
    by (simp add: journey_delivery_def journey_codecs_def ParseEnvelope_def)
  ultimately obtain applied where
    "distinct applied" "set applied \<subseteq> {''e-2''}" "''e-2'' \<in> set applied" "db_domain db' = fold (\<lambda>_ n. n + 1) applied (0 :: nat)"
    using committed_history_is_applied [OF journey_published refl _ _ r]
    by (auto simp: sample_db_def settled_def sample_outbox_row_def)
  moreover have "xs = [x]" if "distinct xs" "set xs \<subseteq> {x}" "x \<in> set xs" for xs :: "string list" and x
    using that by (cases xs; cases "tl xs") auto
  ultimately have "applied = [''e-2'']" by blast
  with \<open>db_domain db' = fold (\<lambda>_ n. n + 1) applied 0\<close> r show ?thesis by simp
qed

end
