(* ===== verification/Bccr.thy ===== *)
theory Bccr
  imports Tenant_Ctx Civil_Date Decimal_Lib
begin

text \<open>
  The reader of the Banco Central's reference rate (\<open>src/fx/bccr/bccr.go\<close>): the retrying request, the
  series read out of the body, and the rate of a day. The HTTP exchange of each attempt, the decoder
  of JSON, \<open>net/url\<close>, SHA-256 and the decimals are arguments. A day is its date in the location of
  the time it was given as, so \<open>civil\<close> has nothing left to do.
\<close>

section \<open>Configuration\<close>

definition DefaultBaseURL :: string where
  "DefaultBaseURL = ''https://apim.bccr.fi.cr/SDDE/api/Bccr.GE.SDDE.Publico.Indicadores.API''"

definition maxBody :: nat where
  "maxBody = 4194304"

record bccr_config =
  bc_Token :: string
  bc_BaseURL :: string
  bc_Timeout :: duration
  bc_MaxAttempts :: int
  bc_Backoff :: duration
  bc_MaxBackoff :: duration

record bccr_client =
  cl_cfg :: bccr_config
  cl_base :: string

datatype config_error = TokenRequired | NotHTTPS string | NegativeLimit

definition TrimRightChar :: "char \<Rightarrow> string \<Rightarrow> string" where
  "TrimRightChar c s = rev (dropWhile (\<lambda>x. x = c) (rev s))"

definition TrimChar :: "char \<Rightarrow> string \<Rightarrow> string" where
  "TrimChar c s = TrimRightChar c (dropWhile (\<lambda>x. x = c) s)"

text \<open>\<open>New\<close>: \<open>parse\<close> gives the scheme and the host of a URL. No redirect is ever followed by its client.\<close>

definition orDefault :: "int \<Rightarrow> int \<Rightarrow> int" where
  "orDefault d v = (if v = 0 then d else v)"

definition NewClient :: "(string \<Rightarrow> (string \<times> string) option) \<Rightarrow> bccr_config \<Rightarrow> config_error + bccr_client" where
  "NewClient parse cfg0 =
     (let token = TrimSpace (bc_Token cfg0);
          base = (if bc_BaseURL cfg0 = [] then DefaultBaseURL else bc_BaseURL cfg0) in
      if token = [] then Inl TokenRequired
      else if (case parse base of None \<Rightarrow> True | Some (scheme, host) \<Rightarrow> scheme \<noteq> ''https'' \<or> host = [])
      then Inl (NotHTTPS base)
      else if bc_Timeout cfg0 < 0 \<or> bc_MaxAttempts cfg0 < 0 \<or> bc_Backoff cfg0 < 0 \<or> bc_MaxBackoff cfg0 < 0
      then Inl NegativeLimit
      else Inr \<lparr>cl_cfg = \<lparr>bc_Token = token, bc_BaseURL = base,
                   bc_Timeout = orDefault (20 * Second) (bc_Timeout cfg0),
                   bc_MaxAttempts = orDefault 4 (bc_MaxAttempts cfg0),
                   bc_Backoff = orDefault Second (bc_Backoff cfg0),
                   bc_MaxBackoff = orDefault (30 * Second) (bc_MaxBackoff cfg0)\<rparr>,
                cl_base = TrimRightChar CHR ''/'' base\<rparr>)"

section \<open>The request\<close>

text \<open>What an attempt meets: no response, one whose body cannot be read, or one.\<close>

datatype exchange = NoResponse string | BodyError string | Response int string string

record api_error =
  ae_StatusCode :: int
  ae_Code :: string
  ae_Message :: string

datatype bccr_error =
    Transport string
  | ReadFailed string
  | BodyTooLarge
  | API api_error
  | WaitInterrupted api_error string
  | InvalidIndicator int
  | EndsBeforeStarts
  | Unreadable string
  | Unrecognized
  | ListsTwice string
  | ValueNotANumber string string
  | NotAnExchangeRate string
  | IndicatorMissing
  | UnexpectedDate string
  | NotPublished

datatype sentinel = ErrTokenRejected | ErrEndpointNotFound

definition apiUnwrap :: "api_error \<Rightarrow> sentinel option" where
  "apiUnwrap e = (if ae_StatusCode e = 401 \<or> ae_StatusCode e = 403 then Some ErrTokenRejected
     else if ae_StatusCode e = 404 then Some ErrEndpointNotFound else None)"

text \<open>
  \<open>decodeErr\<close> gives the raw code and the message of an error body, when it is one; \<open>statusText\<close> the
  phrase of a status. Decoded JSON is valid UTF-8, so that its first runes are their bytes.
\<close>

definition newAPIError :: "(string \<Rightarrow> (string \<times> string) option) \<Rightarrow> (int \<Rightarrow> string) \<Rightarrow> int \<Rightarrow> string \<Rightarrow> api_error" where
  "newAPIError decodeErr statusText status body =
     (let code = (case decodeErr body of None \<Rightarrow> [] | Some (c, _) \<Rightarrow> TrimChar CHR 0x22 c);
          msg0 = (case decodeErr body of None \<Rightarrow> [] | Some (_, m) \<Rightarrow> m);
          msg = (if msg0 = [] then statusText status else msg0)
      in \<lparr>ae_StatusCode = status, ae_Code = code,
          ae_Message = (if length (runes msg) > 200 then concat (map snd (take 200 (rune_segs msg))) else msg)\<rparr>)"

text \<open>\<open>once\<close>. The product of the header is 64 bits wide.\<close>

definition retryAfterOf :: "string \<Rightarrow> duration" where
  "retryAfterOf header = (case goAtoi (TrimSpace header) of
       Some secs \<Rightarrow> if 0 < secs then wrap64 (secs * Second) else 0
     | None \<Rightarrow> 0)"

definition once :: "exchange \<Rightarrow> bccr_error + string \<times> int \<times> duration" where
  "once x = (case x of
       NoResponse e \<Rightarrow> Inl (Transport e)
     | BodyError e \<Rightarrow> Inl (ReadFailed e)
     | Response status header body \<Rightarrow>
         if maxBody < length body then Inl BodyTooLarge else Inr (body, status, retryAfterOf header))"

definition success :: "int \<Rightarrow> bool" where
  "success status \<longleftrightarrow> 200 \<le> status \<and> status < 300"

definition retryable :: "int \<Rightarrow> bool" where
  "retryable status \<longleftrightarrow> status = 429 \<or> 500 \<le> status"

text \<open>
  \<open>get\<close>: attempt number \<open>n\<close> meets \<open>world n\<close>, and the wait after it is interrupted when \<open>stop n\<close> says so.
  The waits it asked for are part of the result.
\<close>

function getFrom ::
    "(int \<Rightarrow> string \<Rightarrow> api_error) \<Rightarrow> bccr_config \<Rightarrow> (nat \<Rightarrow> exchange) \<Rightarrow> (nat \<Rightarrow> string option) \<Rightarrow> nat \<Rightarrow> duration
       \<Rightarrow> (bccr_error + string) \<times> duration list" where
  "getFrom apiErr cfg world stop n wait = (case once (world n) of
       Inl e \<Rightarrow> (Inl e, [])
     | Inr (body, status, retryAfter) \<Rightarrow>
         if success status then (Inr body, [])
         else if \<not> retryable status \<or> bc_MaxAttempts cfg \<le> int n then (Inl (API (apiErr status body)), [])
         else let d = min (max wait retryAfter) (bc_MaxBackoff cfg) in
           (case stop n of
              Some e \<Rightarrow> (Inl (WaitInterrupted (apiErr status body) e), [d])
            | None \<Rightarrow> (case getFrom apiErr cfg world stop (Suc n) (min (wrap64 (wait * 2)) (bc_MaxBackoff cfg)) of
                  (r, ds) \<Rightarrow> (r, d # ds))))"
  by pat_completeness auto
termination
  by (relation "measure (\<lambda>(_, cfg, _, _, n, _). nat (bc_MaxAttempts cfg - int n))") auto

declare getFrom.simps [simp del]

definition getBody where
  "getBody apiErr cfg world stop = getFrom apiErr cfg world stop 1 (bc_Backoff cfg)"

section \<open>The series\<close>

record series_value =
  sv_fecha :: string
  sv_valor :: string

record series_entry =
  sx_codigo :: string
  sx_series :: "series_value list"

record series_response =
  sr_estado :: "bool option"
  sr_mensaje :: string
  sr_datos :: "series_entry list option"

definition parseFecha :: "string \<Rightarrow> bccr_error + date" where
  "parseFecha s =
     (if 10 \<le> length s \<and> (length s = 10 \<or> s ! 10 = CHR ''T'' \<or> s ! 10 = CHR '' '')
      then (case timeParse (take 10 s) of Some d \<Rightarrow> Inr d | None \<Rightarrow> Inl (UnexpectedDate s))
      else Inl (UnexpectedDate s))"

type_synonym 'd points = "date set \<times> (date \<times> 'd) list"

definition readValue :: "'d decimal_lib \<Rightarrow> 'd points \<Rightarrow> series_value \<Rightarrow> bccr_error + 'd points" where
  "readValue D st s = (case st of (seen, points) \<Rightarrow>
     and_then (parseFecha (sv_fecha s)) (\<lambda>day.
       if day \<in> seen then Inl (ListsTwice (sv_fecha s))
       else let raw = TrimSpace (sv_valor s) in
         if raw = [] \<or> raw = ''null'' then Inr (insert day seen, points)
         else (case dc_NewFromString D (TrimChar CHR 0x22 raw) of
             None \<Rightarrow> Inl (ValueNotANumber (sv_fecha s) raw)
           | Some v \<Rightarrow> if \<not> IsPositive D v then Inl (NotAnExchangeRate (sv_fecha s))
               else Inr (insert day seen, points @ [(day, v)]))))"

fun readValues :: "'d decimal_lib \<Rightarrow> series_value list \<Rightarrow> 'd points \<Rightarrow> bccr_error + 'd points" where
  "readValues D [] st = Inr st"
| "readValues D (s # ss) st = and_then (readValue D st s) (readValues D ss)"

definition ofIndicator :: "int \<Rightarrow> series_entry \<Rightarrow> bool" where
  "ofIndicator indicator e \<longleftrightarrow> goAtoi (TrimChar CHR 0x22 (sx_codigo e)) = Some indicator"

definition parseSeries ::
    "'d decimal_lib \<Rightarrow> (string \<Rightarrow> string + series_response) \<Rightarrow> string \<Rightarrow> int \<Rightarrow> bccr_error + (date \<times> 'd) list" where
  "parseSeries D decode body indicator = (case decode body of
       Inl e \<Rightarrow> Inl (Unreadable e)
     | Inr resp \<Rightarrow>
         if sr_estado resp = Some False then Inl (API \<lparr>ae_StatusCode = 200, ae_Code = [], ae_Message = sr_mensaje resp\<rparr>)
         else if sr_estado resp = None \<and> sr_datos resp = None then Inl Unrecognized
         else (case sr_datos resp of
             None \<Rightarrow> Inr []
           | Some [] \<Rightarrow> Inr []
           | Some es \<Rightarrow>
               let mine = filter (ofIndicator indicator) es in
               and_then (readValues D (concat (map sx_series mine)) ({}, [])) (\<lambda>(_, points).
                 if mine = [] then Inl IndicatorMissing else Inr points)))"

section \<open>Rates\<close>

record 'd rate =
  rt_Indicator :: int
  rt_Date :: date
  rt_Value :: 'd
  rt_Endpoint :: string
  rt_Raw :: string
  rt_RawSHA256 :: string
  rt_FetchedAt :: time

text \<open>The slashes of the dates are escaped, the parameters in the order of their names.\<close>

definition queryDate :: "date \<Rightarrow> string" where
  "queryDate d = concat (map (\<lambda>c. if c = CHR ''-'' then ''%2F'' else [c]) (formatDate d))"

definition endpointOf :: "bccr_client \<Rightarrow> int \<Rightarrow> date \<Rightarrow> date \<Rightarrow> string" where
  "endpointOf c indicator begin_day end_day =
     cl_base c @ ''/indicadoresEconomicos/'' @ itoa (nat indicator) @ ''/series?fechaFin='' @ queryDate end_day
       @ ''&fechaInicio='' @ queryDate begin_day @ ''&idioma=ES''"

text \<open>The world of a call: the library, what the requests meet, the decoders, and the clock after them.\<close>

record 'd bccr_world =
  bw_decimals :: "'d decimal_lib"
  bw_exchange :: "string \<Rightarrow> nat \<Rightarrow> exchange"
  bw_stop :: "nat \<Rightarrow> string option"
  bw_apiError :: "int \<Rightarrow> string \<Rightarrow> api_error"
  bw_decode :: "string \<Rightarrow> string + series_response"
  bw_sha256 :: "string \<Rightarrow> string"
  bw_now :: time

definition Series :: "'d bccr_world \<Rightarrow> bccr_client \<Rightarrow> int \<Rightarrow> date \<Rightarrow> date \<Rightarrow> bccr_error + 'd rate list" where
  "Series W c indicator begin_day end_day =
     (if indicator \<le> 0 then Inl (InvalidIndicator indicator)
      else if Before end_day begin_day then Inl EndsBeforeStarts
      else let endpoint = endpointOf c indicator begin_day end_day in
        and_then (fst (getBody (bw_apiError W) (cl_cfg c) (bw_exchange W endpoint) (bw_stop W))) (\<lambda>body.
        and_then (parseSeries (bw_decimals W) (bw_decode W) body indicator) (\<lambda>points.
        Inr (sortStable (\<lambda>a b. Before (rt_Date a) (rt_Date b))
          (map (\<lambda>(day, v). \<lparr>rt_Indicator = indicator, rt_Date = day, rt_Value = v, rt_Endpoint = endpoint,
               rt_Raw = body, rt_RawSHA256 = bw_sha256 W body, rt_FetchedAt = bw_now W\<rparr>)
            (filter (\<lambda>(day, _). \<not> Before day begin_day \<and> \<not> Before end_day day) points))))))"

definition RateOn :: "'d bccr_world \<Rightarrow> bccr_client \<Rightarrow> int \<Rightarrow> date \<Rightarrow> bccr_error + 'd rate" where
  "RateOn W c indicator day = and_then (Series W c indicator day day) (\<lambda>rates.
     case find (\<lambda>r. rt_Date r = day) rates of Some r \<Rightarrow> Inr r | None \<Rightarrow> Inl NotPublished)"

section \<open>The retries\<close>

lemma getFrom_bounded:
  assumes "getFrom apiErr cfg world stop n wait = (r, ds)" and "0 \<le> wait" and "wait < 2 ^ 62" and "0 \<le> bc_MaxBackoff cfg"
    and "bc_MaxBackoff cfg < 2 ^ 62" and "int n \<le> bc_MaxAttempts cfg"
  shows "int (n + length ds) \<le> bc_MaxAttempts cfg \<and> (\<forall>d \<in> set ds. 0 \<le> d \<and> d \<le> bc_MaxBackoff cfg)
     \<and> (\<forall>i < length ds. \<exists>status h b. world (n + i) = Response status h b \<and> retryable status)
     \<and> (\<forall>body. r = Inr body \<longrightarrow> (\<exists>status h. world (n + length ds) = Response status h body \<and> success status))"
  using assms
proof (induction apiErr cfg world stop n wait arbitrary: r ds rule: getFrom.induct)
  case (1 apiErr cfg world stop n wait)
  note g = "1.prems"(1) [unfolded getFrom.simps [of apiErr cfg world stop n wait]]
  show ?case
  proof (cases "once (world n)")
    case (Inl e)
    with g "1.prems"(6) show ?thesis by auto
  next
    case (Inr reply)
    obtain body status ra where reply: "reply = (body, status, ra)" by (cases reply)
    with Inr obtain h where w: "world n = Response status h body"
      by (auto simp: once_def split: exchange.splits if_splits)
    show ?thesis
    proof (cases "success status \<or> \<not> retryable status \<or> bc_MaxAttempts cfg \<le> int n")
      case True
      with g Inr reply w "1.prems"(6) show ?thesis by (auto split: if_splits)
    next
      case False
      define d where "d = min (max wait ra) (bc_MaxBackoff cfg)"
      have d: "0 \<le> d" "d \<le> bc_MaxBackoff cfg" using "1.prems"(2,4) by (auto simp: d_def)
      show ?thesis
      proof (cases "stop n")
        case (Some e)
        with g Inr reply False d w "1.prems"(6) show ?thesis by (auto simp: d_def [symmetric] Let_def)
      next
        case None
        define wait' where "wait' = min (wrap64 (wait * 2)) (bc_MaxBackoff cfg)"
        have wait': "0 \<le> wait'" "wait' < 2 ^ 62"
          using "1.prems"(2-5) wrap64_id [of "wait * 2"] by (auto simp: wait'_def)
        obtain r1 ds1 where rec: "getFrom apiErr cfg world stop (Suc n) wait' = (r1, ds1)" by (meson surj_pair)
        from g Inr reply False None rec have r: "r = r1" "ds = d # ds1"
          by (auto simp: d_def wait'_def Let_def)
        have go: "\<not> success status" "\<not> (\<not> retryable status \<or> bc_MaxAttempts cfg \<le> int n)" "int (Suc n) \<le> bc_MaxAttempts cfg"
          using False by auto
        note IH = "1.IH" [OF Inr reply [symmetric] refl go(1,2) d_def None rec [unfolded wait'_def]
            wait' [unfolded wait'_def] "1.prems"(4,5) go(3)]
        have "\<exists>status h b. world (n + i) = Response status h b \<and> retryable status" if "i < length ds" for i
          using that IH w False by (cases i) (auto simp: r)
        with IH d show ?thesis by (auto simp: r)
      qed
    qed
  qed
qed

text \<open>
  C37. The retries are bounded and selective. A client that \<open>New\<close> built makes at most its number of
  attempts, waits between them never longer than its longest wait, retries only after a 429 or a
  5xx, and answers a body only when the last attempt was a success with that body. (Backoffs of
  \<open>2 ^ 62\<close> nanoseconds, a century and a half, would overflow the doubling.)
\<close>

theorem retries_are_bounded:
  assumes "NewClient parse cfg0 = Inr c" and "bc_Backoff cfg0 < 2 ^ 62" and "bc_MaxBackoff cfg0 < 2 ^ 62"
    and "getBody apiErr (cl_cfg c) world stop = (r, ds)"
  shows "1 + int (length ds) \<le> bc_MaxAttempts (cl_cfg c) \<and> (\<forall>d \<in> set ds. 0 \<le> d \<and> d \<le> bc_MaxBackoff (cl_cfg c))
     \<and> (\<forall>i < length ds. \<exists>status h b. world (1 + i) = Response status h b \<and> retryable status)
     \<and> (\<forall>body. r = Inr body \<longrightarrow> (\<exists>status h. world (1 + length ds) = Response status h body \<and> success status))"
proof -
  have "0 \<le> bc_Backoff (cl_cfg c)" "bc_Backoff (cl_cfg c) < 2 ^ 62" "0 \<le> bc_MaxBackoff (cl_cfg c)"
    "bc_MaxBackoff (cl_cfg c) < 2 ^ 62" "int 1 \<le> bc_MaxAttempts (cl_cfg c)"
    using assms(1-3) by (auto simp: NewClient_def Let_def orDefault_def duration_defs split: if_splits)
  with getFrom_bounded [of apiErr "cl_cfg c" world stop 1 "bc_Backoff (cl_cfg c)" r ds] assms(4)
  show ?thesis by (simp add: getBody_def)
qed

text \<open>A \<open>Retry-After\<close> of three centuries wraps to a negative time and is not honoured.\<close>

lemma retry_after_overflows: "retryAfterOf ''9223372037'' < 0"
proof -
  have "goAtoi ''9223372037'' = Some 9223372037" by (simp add: goAtoi_def atoi_Cons atoi_def [of "[]"] isDigit_def Let_def)
  moreover have "TrimSpace ''9223372037'' = ''9223372037''"
    by (simp add: TrimSpace_def next_rune_def isSpace_def)
  ultimately show ?thesis by (simp add: retryAfterOf_def wrap64_def duration_defs)
qed

section \<open>The rate of a day\<close>

text \<open>What one value of the series says: its day, and the number when it has one.\<close>

definition published :: "'d decimal_lib \<Rightarrow> series_value \<Rightarrow> (date \<times> 'd) option" where
  "published D s = (case parseFecha (sv_fecha s) of
       Inl _ \<Rightarrow> None
     | Inr day \<Rightarrow> if TrimSpace (sv_valor s) = [] \<or> TrimSpace (sv_valor s) = ''null'' then None
         else map_option (Pair day) (dc_NewFromString D (TrimChar CHR 0x22 (TrimSpace (sv_valor s)))))"

lemma readValue_Inr:
  "readValue D (seen, points) s = Inr st \<Longrightarrow> \<exists>day. parseFecha (sv_fecha s) = Inr day \<and> day \<notin> seen
     \<and> st = (insert day seen, points @ (case published D s of None \<Rightarrow> [] | Some p \<Rightarrow> [p]))
     \<and> (\<forall>p. published D s = Some p \<longrightarrow> IsPositive D (snd p))"
  by (auto simp: readValue_def published_def and_then_eq_Inr Let_def split: if_splits option.splits sum.splits)

lemma readValues_Inr:
  "readValues D ss (seen, points) = Inr (seen', points') \<Longrightarrow>
     \<exists>days. map (\<lambda>s. parseFecha (sv_fecha s)) ss = map Inr days \<and> distinct days \<and> set days \<inter> seen = {}
       \<and> points' = points @ List.map_filter (published D) ss \<and> (\<forall>s \<in> set ss. \<forall>p. published D s = Some p \<longrightarrow> IsPositive D (snd p))"
proof (induction ss arbitrary: seen points)
  case (Cons s ss)
  then obtain st where s: "readValue D (seen, points) s = Inr st" and rest: "readValues D ss st = Inr (seen', points')"
    by (auto simp: and_then_eq_Inr)
  from readValue_Inr [OF s] obtain day where day: "parseFecha (sv_fecha s) = Inr day" "day \<notin> seen"
    "st = (insert day seen, points @ (case published D s of None \<Rightarrow> [] | Some p \<Rightarrow> [p]))"
    "\<forall>p. published D s = Some p \<longrightarrow> IsPositive D (snd p)" by blast
  from Cons.IH rest day(3) obtain days where
    "map (\<lambda>s. parseFecha (sv_fecha s)) ss = map Inr days" "distinct days" "set days \<inter> insert day seen = {}"
    "points' = (points @ (case published D s of None \<Rightarrow> [] | Some p \<Rightarrow> [p])) @ List.map_filter (published D) ss"
    "\<forall>s \<in> set ss. \<forall>p. published D s = Some p \<longrightarrow> IsPositive D (snd p)" by blast
  with day show ?case
    by (intro exI [of _ "day # days"]) (auto simp: List.map_filter_simps split: option.splits)
qed (simp add: List.map_filter_simps)

text \<open>The values that a body has for an indicator.\<close>

definition valuesOf :: "series_response \<Rightarrow> int \<Rightarrow> series_value list" where
  "valuesOf resp indicator = (case sr_datos resp of None \<Rightarrow> []
     | Some es \<Rightarrow> concat (map sx_series (filter (ofIndicator indicator) es)))"

lemma parseSeries_Inr:
  assumes "parseSeries D decode body indicator = Inr points"
  shows "\<exists>resp days. decode body = Inr resp
     \<and> map (\<lambda>s. parseFecha (sv_fecha s)) (valuesOf resp indicator) = map Inr days \<and> distinct days
     \<and> points = List.map_filter (published D) (valuesOf resp indicator)
     \<and> (\<forall>s \<in> set (valuesOf resp indicator). \<forall>p. published D s = Some p \<longrightarrow> IsPositive D (snd p))"
proof -
  from assms obtain resp where resp: "decode body = Inr resp" "sr_estado resp \<noteq> Some False"
    by (auto simp: parseSeries_def split: sum.splits if_splits)
  have "\<exists>seen'. readValues D (valuesOf resp indicator) ({}, []) = Inr (seen', points)"
    using assms resp by (cases "sr_datos resp")
      (auto simp: parseSeries_def valuesOf_def and_then_eq_Inr Let_def split: if_splits list.splits)
  then obtain seen' where "readValues D (valuesOf resp indicator) ({}, []) = Inr (seen', points)" ..
  from readValues_Inr [OF this]
  show ?thesis using resp(1) by blast
qed

lemma getFrom_success:
  "getFrom apiErr cfg world stop n wait = (r, ds) \<Longrightarrow>
     r \<noteq> Inl NotPublished \<and> (\<forall>body. r = Inr body \<longrightarrow> (\<exists>m status h. world m = Response status h body \<and> success status))"
proof (induction apiErr cfg world stop n wait arbitrary: r ds rule: getFrom.induct)
  case (1 apiErr cfg world stop n wait)
  show ?case
    using "1.prems" "1.IH" unfolding getFrom.simps [of apiErr cfg world stop n wait]
    by (fastforce simp: once_def Let_def split: exchange.splits if_splits option.splits prod.splits)
qed

lemma readValues_error: "readValues D ss st \<noteq> Inl NotPublished"
  by (induction ss arbitrary: st)
    (auto simp: and_then_eq_Inl readValue_def parseFecha_def Let_def split: prod.splits if_splits option.splits)

lemma parseSeries_error: "parseSeries D decode body indicator \<noteq> Inl NotPublished"
  by (auto simp: parseSeries_def and_then_eq_Inl readValues_error Let_def split: sum.splits option.splits list.splits)

lemma map_filter_in: "x \<in> set (List.map_filter f xs) \<longleftrightarrow> (\<exists>s \<in> set xs. f s = Some x)"
  by (induction xs) (auto simp: List.map_filter_simps split: option.splits)

lemma published_day: "published D s = Some (day, v) \<Longrightarrow> parseFecha (sv_fecha s) = Inr day"
  by (auto simp: published_def split: sum.splits if_splits)

definition publishedOnce :: "'d decimal_lib \<Rightarrow> series_value list \<Rightarrow> date \<Rightarrow> 'd \<Rightarrow> bool" where
  "publishedOnce D ss day v \<longleftrightarrow> (\<exists>xs s ys. ss = xs @ s # ys \<and> published D s = Some (day, v)
     \<and> (\<forall>s' \<in> set xs \<union> set ys. parseFecha (sv_fecha s') \<noteq> Inr day))"

lemma points_origin:
  assumes "parseSeries D decode body indicator = Inr points"
  shows "\<exists>resp. decode body = Inr resp
     \<and> (\<forall>day v. (day, v) \<in> set points \<longleftrightarrow> (\<exists>s \<in> set (valuesOf resp indicator). published D s = Some (day, v)))
     \<and> (\<forall>day v. (day, v) \<in> set points \<longrightarrow> IsPositive D v \<and> publishedOnce D (valuesOf resp indicator) day v)"
proof -
  from parseSeries_Inr [OF assms] obtain resp days where p: "decode body = Inr resp"
    "map (\<lambda>s. parseFecha (sv_fecha s)) (valuesOf resp indicator) = map Inr days" "distinct days"
    "points = List.map_filter (published D) (valuesOf resp indicator)"
    "\<forall>s \<in> set (valuesOf resp indicator). \<forall>p. published D s = Some p \<longrightarrow> IsPositive D (snd p)" by blast
  have "IsPositive D v \<and> publishedOnce D (valuesOf resp indicator) day v" if "(day, v) \<in> set points" for day v
  proof -
    from that p(4) obtain s where s: "s \<in> set (valuesOf resp indicator)" "published D s = Some (day, v)"
      by (auto simp: map_filter_in)
    from split_list [OF s(1)] obtain xs ys where xs: "valuesOf resp indicator = xs @ s # ys" by blast
    have "distinct (map (\<lambda>s. parseFecha (sv_fecha s)) (valuesOf resp indicator))"
      unfolding p(2) using p(3) by (simp add: distinct_map)
    then have "\<forall>s' \<in> set xs \<union> set ys. parseFecha (sv_fecha s') \<noteq> Inr day"
      using published_day [OF s(2)] unfolding xs by (auto simp: image_iff)
    with xs s p(5) show ?thesis by (fastforce simp: publishedOnce_def)
  qed
  with p(1,4) show ?thesis by (auto simp: map_filter_in)
qed

text \<open>The rate that \<open>Series\<close> makes of a value of the day out of a body.\<close>

definition rateOf :: "'d bccr_world \<Rightarrow> bccr_client \<Rightarrow> int \<Rightarrow> date \<Rightarrow> string \<Rightarrow> 'd \<Rightarrow> 'd rate" where
  "rateOf W c indicator day body v = \<lparr>rt_Indicator = indicator, rt_Date = day, rt_Value = v,
     rt_Endpoint = endpointOf c indicator day day, rt_Raw = body, rt_RawSHA256 = bw_sha256 W body, rt_FetchedAt = bw_now W\<rparr>"

lemma Series_day:
  assumes "Series W c indicator day day = Inr rs"
  shows "\<exists>body points n status h. parseSeries (bw_decimals W) (bw_decode W) body indicator = Inr points
     \<and> bw_exchange W (endpointOf c indicator day day) n = Response status h body \<and> success status
     \<and> set rs = rateOf W c indicator day body ` {v. (day, v) \<in> set points}"
proof -
  let ?x = "bw_exchange W (endpointOf c indicator day day)"
  have only: "\<not> Before d day \<and> \<not> Before day d \<longleftrightarrow> d = day" for d by (auto simp: Before_def)
  from assms obtain body points where b: "fst (getBody (bw_apiError W) (cl_cfg c) ?x (bw_stop W)) = Inr body"
    "parseSeries (bw_decimals W) (bw_decode W) body indicator = Inr points"
    by (auto simp: Series_def Let_def and_then_eq_Inr split: if_splits)
  from b(1) getFrom_success [of "bw_apiError W" "cl_cfg c" ?x "bw_stop W" 1 "bc_Backoff (cl_cfg c)"]
  obtain n status h where "?x n = Response status h body" "success status"
    unfolding getBody_def by (metis prod.collapse)
  moreover have "set rs = rateOf W c indicator day body ` {v. (day, v) \<in> set points}"
    using assms b by (force simp: Series_def Let_def only rateOf_def split: if_splits)
  ultimately show ?thesis using b(2) by blast
qed

lemma Series_error: "Series W c indicator a b \<noteq> Inl NotPublished"
proof
  let ?g = "getFrom (bw_apiError W) (cl_cfg c) (bw_exchange W (endpointOf c indicator a b)) (bw_stop W) 1 (bc_Backoff (cl_cfg c))"
  assume "Series W c indicator a b = Inl NotPublished"
  then have "fst ?g = Inl NotPublished"
    by (auto simp: Series_def getBody_def Let_def and_then_eq_Inl parseSeries_error split: if_splits)
  with getFrom_success [of _ _ _ _ _ _ "fst ?g" "snd ?g"] show False by (metis prod.collapse)
qed

lemma RateOn_Inr:
  assumes "RateOn W c indicator day = Inr r"
  shows "\<exists>rs. Series W c indicator day day = Inr rs \<and> r \<in> set rs"
proof -
  from assms obtain rs where rs: "Series W c indicator day day = Inr rs" "find (\<lambda>r. rt_Date r = day) rs = Some r"
    by (auto simp: RateOn_def and_then_eq_Inr split: option.splits)
  then show ?thesis by (auto simp: find_Some_iff)
qed

lemma RateOn_missing:
  "RateOn W c indicator day = Inl NotPublished \<Longrightarrow> \<exists>rs. Series W c indicator day day = Inr rs \<and> (\<forall>r \<in> set rs. rt_Date r \<noteq> day)"
  by (auto simp: RateOn_def and_then_eq_Inl Series_error find_None_iff split: option.splits)

text \<open>
  C18. The rate of a day is the value that was published for that day, or an error. A rate that \<open>Rate\<close>
  answers is positive and of the day and indicator asked; it is the value that the body has for them, in
  the only entry of that day, of a successful response which the rate carries whole with its hash.
  And \<open>ErrNotPublished\<close> is said only of a successful, readable response that has no value for the day:
  never because the reply was broken, and never in place of another day's figure.
\<close>

theorem rate_is_the_published_value:
  "(RateOn W c indicator day = Inr r \<longrightarrow>
      rt_Date r = day \<and> rt_Indicator r = indicator \<and> IsPositive (bw_decimals W) (rt_Value r)
      \<and> rt_RawSHA256 r = bw_sha256 W (rt_Raw r)
      \<and> (\<exists>n status h resp. bw_exchange W (rt_Endpoint r) n = Response status h (rt_Raw r) \<and> success status
           \<and> bw_decode W (rt_Raw r) = Inr resp
           \<and> publishedOnce (bw_decimals W) (valuesOf resp indicator) day (rt_Value r)))
   \<and> (RateOn W c indicator day = Inl NotPublished \<longrightarrow>
      (\<exists>n status h body resp. bw_exchange W (endpointOf c indicator day day) n = Response status h body \<and> success status
           \<and> bw_decode W body = Inr resp
           \<and> (\<forall>s \<in> set (valuesOf resp indicator). \<forall>v. published (bw_decimals W) s \<noteq> Some (day, v))))"
proof (intro conjI impI)
  assume "RateOn W c indicator day = Inr r"
  from RateOn_Inr [OF this] obtain rs where rs: "Series W c indicator day day = Inr rs" "r \<in> set rs" by blast
  from Series_day [OF rs(1)] obtain body points n status h where b:
    "parseSeries (bw_decimals W) (bw_decode W) body indicator = Inr points"
    "bw_exchange W (endpointOf c indicator day day) n = Response status h body" "success status"
    "set rs = rateOf W c indicator day body ` {v. (day, v) \<in> set points}" by blast
  from rs(2) b(4) obtain v where r: "(day, v) \<in> set points"
    "r = rateOf W c indicator day body v" by auto
  from points_origin [OF b(1)] r(1) obtain resp where "bw_decode W body = Inr resp" "IsPositive (bw_decimals W) v"
    "publishedOnce (bw_decimals W) (valuesOf resp indicator) day v" by blast
  with b(2,3) r(2) show "rt_Date r = day" "rt_Indicator r = indicator" "IsPositive (bw_decimals W) (rt_Value r)"
    "rt_RawSHA256 r = bw_sha256 W (rt_Raw r)"
    "\<exists>n status h resp. bw_exchange W (rt_Endpoint r) n = Response status h (rt_Raw r) \<and> success status
       \<and> bw_decode W (rt_Raw r) = Inr resp \<and> publishedOnce (bw_decimals W) (valuesOf resp indicator) day (rt_Value r)"
    by (auto simp: rateOf_def)
next
  assume "RateOn W c indicator day = Inl NotPublished"
  from RateOn_missing [OF this] obtain rs where rs: "Series W c indicator day day = Inr rs" "\<forall>r \<in> set rs. rt_Date r \<noteq> day" by blast
  from Series_day [OF rs(1)] obtain body points n status h where b:
    "parseSeries (bw_decimals W) (bw_decode W) body indicator = Inr points"
    "bw_exchange W (endpointOf c indicator day day) n = Response status h body" "success status"
    "set rs = rateOf W c indicator day body ` {v. (day, v) \<in> set points}" by blast
  have "(day, v) \<notin> set points" for v using rs(2) b(4) by (auto simp: rateOf_def)
  with b(2,3) points_origin [OF b(1)] show "\<exists>n status h body resp. bw_exchange W (endpointOf c indicator day day) n = Response status h body
     \<and> success status \<and> bw_decode W body = Inr resp
     \<and> (\<forall>s \<in> set (valuesOf resp indicator). \<forall>v. published (bw_decimals W) s \<noteq> Some (day, v))" by metis
qed

section \<open>Witnesses\<close>

definition sample_bccr :: bccr_config where
  "sample_bccr = \<lparr>bc_Token = ''t'', bc_BaseURL = [], bc_Timeout = 0, bc_MaxAttempts = 0, bc_Backoff = 0, bc_MaxBackoff = 0\<rparr>"

text \<open>A first attempt that is told to come back later, and a second one that is answered.\<close>

definition sample_world :: "dec bccr_world" where
  "sample_world = \<lparr>bw_decimals = decLib,
     bw_exchange = (\<lambda>_ n. if n = 1 then Response 429 ''2'' [] else Response 200 [] ''ok''),
     bw_stop = (\<lambda>_. None), bw_apiError = (\<lambda>s b. \<lparr>ae_StatusCode = s, ae_Code = [], ae_Message = b\<rparr>),
     bw_decode = (\<lambda>_. Inr \<lparr>sr_estado = Some True, sr_mensaje = [], sr_datos = Some
       [\<lparr>sx_codigo = ''318'', sx_series = [\<lparr>sv_fecha = ''2026-10-03'', sv_valor = ''462''\<rparr>]\<rparr>]\<rparr>),
     bw_sha256 = id, bw_now = 0\<rparr>"

lemma sample_client: "\<exists>c. NewClient (\<lambda>_. Some (''https'', ''apim'')) sample_bccr = Inr c
    \<and> cl_cfg c = \<lparr>bc_Token = ''t'', bc_BaseURL = DefaultBaseURL, bc_Timeout = 20 * Second, bc_MaxAttempts = 4,
        bc_Backoff = Second, bc_MaxBackoff = 30 * Second\<rparr>"
  by (simp add: NewClient_def sample_bccr_def orDefault_def Let_def TrimSpace_def next_rune_def isSpace_def)

lemma sample_get:
  assumes "bc_MaxAttempts cfg = 4" and "bc_Backoff cfg = Second" and "bc_MaxBackoff cfg = 30 * Second"
  shows "\<exists>ds. getBody (bw_apiError sample_world) cfg (bw_exchange sample_world e) (\<lambda>_. None) = (Inr ''ok'', ds)"
  using assms
  by (simp add: getBody_def sample_world_def getFrom.simps [of _ cfg _ _ "Suc 0"] getFrom.simps [of _ cfg _ _ "Suc (Suc 0)"]
      once_def maxBody_def success_def retryable_def)

theorem retries_are_bounded_witness:
  "\<exists>c r ds. NewClient (\<lambda>_. Some (''https'', ''apim'')) sample_bccr = Inr c
     \<and> getBody (bw_apiError sample_world) (cl_cfg c) (bw_exchange sample_world ''u'') (\<lambda>_. None) = (r, ds)
     \<and> int (length ds) \<le> 3"
proof -
  obtain c where c: "NewClient (\<lambda>_. Some (''https'', ''apim'')) sample_bccr = Inr c" "bc_MaxAttempts (cl_cfg c) = 4"
    using sample_client by auto
  obtain r ds where g: "getBody (bw_apiError sample_world) (cl_cfg c) (bw_exchange sample_world ''u'') (\<lambda>_. None) = (r, ds)"
    by (meson surj_pair)
  have "bc_Backoff sample_bccr < 2 ^ 62" "bc_MaxBackoff sample_bccr < 2 ^ 62" by (simp_all add: sample_bccr_def)
  from retries_are_bounded [OF c(1) this g] c g show ?thesis by auto
qed

theorem rate_is_the_published_value_witness:
  "\<exists>c r. NewClient (\<lambda>_. Some (''https'', ''apim'')) sample_bccr = Inr c
     \<and> RateOn sample_world c 318 (2026, 10, 3) = Inr r \<and> rt_Date r = (2026, 10, 3) \<and> 0 < dvalue (rt_Value r)"
proof -
  obtain c where c: "NewClient (\<lambda>_. Some (''https'', ''apim'')) sample_bccr = Inr c"
    "bc_MaxAttempts (cl_cfg c) = 4" "bc_Backoff (cl_cfg c) = Second" "bc_MaxBackoff (cl_cfg c) = 30 * Second"
    using sample_client by auto
  have fecha: "parseFecha ''2026-10-03'' = Inr (2026, 10, 3)" by code_simp
  have codigo: "goAtoi (TrimChar CHR 0x22 ''318'') = Some 318" by code_simp
  have raw: "TrimSpace ''462'' = ''462''" by (simp add: TrimSpace_def next_rune_def isSpace_def)
  have "dc_NewFromString decLib (TrimChar CHR 0x22 ''462'') = Some (Dec 462 0)" by code_simp
  moreover have "IsPositive decLib (Dec 462 0)" by (simp add: dec.vals)
  ultimately have "parseSeries decLib (bw_decode sample_world) ''ok'' 318 = Inr [((2026, 10, 3), Dec 462 0)]"
    by (simp add: parseSeries_def sample_world_def ofIndicator_def codigo readValue_def fecha raw)
  with sample_get [OF c(2-4)] obtain r where r: "RateOn sample_world c 318 (2026, 10, 3) = Inr r"
    by (auto simp: RateOn_def Series_def Before_def sortStable_def sample_world_def Let_def)
  with rate_is_the_published_value [of sample_world c 318 "(2026, 10, 3)" r] c(1) show ?thesis
    by (auto simp: sample_world_def dec.vals)
qed

end
