(* ===== verification/Capcheck.thy ===== *)
theory Capcheck
  imports Capabilities
begin

text \<open>
  The check of a Core's catalog in CI (\<open>src/cmd/capcheck/main.go\<close>). Reading flags and files and the
  parser of protos are arguments; the names of the RPCs, the scoping of the types they name and the
  exit code are modelled.
\<close>

section \<open>Descriptors\<close>

datatype message = Message string "message list"

record rpc_method =
  pm_Name :: string
  pm_Input :: string
  pm_Output :: string

record file_descriptor =
  fd_Package :: string
  fd_Messages :: "message list"
  fd_Services :: "(string \<times> rpc_method list) list"

definition qualify :: "string \<Rightarrow> string \<Rightarrow> string" where
  "qualify scope name = (if scope = [] then name else scope @ CHR ''.'' # name)"

fun collectMessages :: "string \<Rightarrow> message \<Rightarrow> string list" where
  "collectMessages scope (Message name nested) =
     qualify scope name # concat (map (collectMessages (qualify scope name)) nested)"

section \<open>Names of types\<close>

text \<open>\<open>scope[:strings.LastIndex(scope, ".")]\<close>, or the empty scope.\<close>

definition outerScope :: "string \<Rightarrow> string" where
  "outerScope scope = rev (tl (dropWhile (\<lambda>c. c \<noteq> CHR ''.'') (rev scope)))"

lemma outerScope_shorter: "scope \<noteq> [] \<Longrightarrow> length (outerScope scope) < length scope"
  unfolding outerScope_def using length_dropWhile_le [of "\<lambda>c. c \<noteq> CHR ''.''" "rev scope"]
  by (cases scope) (auto simp: less_Suc_eq_le diff_le_self le_diff_conv)

function innermost :: "string set \<Rightarrow> string \<Rightarrow> string \<Rightarrow> string option" where
  "innermost known ref scope =
     (if qualify scope ref \<in> known then Some (qualify scope ref)
      else if scope = [] then None
      else innermost known ref (outerScope scope))"
  by pat_completeness auto
termination
  by (relation "measure (\<lambda>(_, _, scope). length scope)") (simp_all add: outerScope_shorter)

declare innermost.simps [simp del]

definition resolve :: "string set \<Rightarrow> string \<Rightarrow> string \<Rightarrow> string" where
  "resolve known pkg ref =
     (if prefix ''.'' ref then tl ref
      else (case innermost known ref pkg of
          Some c \<Rightarrow> c
        | None \<Rightarrow> if CHR ''.'' \<in> set ref then ref else qualify pkg ref))"

section \<open>The scan\<close>

definition knownTypes :: "file_descriptor list \<Rightarrow> string set" where
  "knownTypes files = set (concat (map (\<lambda>f. concat (map (collectMessages (fd_Package f)) (fd_Messages f))) files))"

definition rpcsOf :: "string set \<Rightarrow> file_descriptor \<Rightarrow> rpc list" where
  "rpcsOf known f = concat (map (\<lambda>(svc, ms). map (\<lambda>m.
     \<lparr>rp_Name = qualify (fd_Package f) svc @ CHR ''/'' # pm_Name m,
      rp_Request = resolve known (fd_Package f) (pm_Input m),
      rp_Response = resolve known (fd_Package f) (pm_Output m)\<rparr>) ms) (fd_Services f))"

text \<open>
  The walk over one directory. \<open>filepath.WalkDir\<close> calls back with each entry below the root, in order, or
  with the error of one that could not be read; the first error of a call ends the walk. Opening a
  file, the parser and the descriptor of a syntax tree are arguments.
\<close>

definition Ext :: "string \<Rightarrow> string" where
  "Ext path = (let r = takeWhile (\<lambda>c. c \<noteq> CHR ''.'' \<and> c \<noteq> CHR ''/'') (rev path) in
     if prefix ''.'' (drop (length r) (rev path)) then CHR ''.'' # rev r else [])"

record dir_entry =
  wd_Path :: string
  wd_IsDir :: bool

definition parseFile ::
    "(string \<Rightarrow> string + 'file) \<Rightarrow> (string \<Rightarrow> 'file \<Rightarrow> string + 'ast) \<Rightarrow> ('ast \<Rightarrow> string + file_descriptor) \<Rightarrow> string
       \<Rightarrow> string + file_descriptor" where
  "parseFile open_file parse fromAST path =
     and_then (open_file path) (\<lambda>f. and_then (parse path f) (\<lambda>node. fromAST node))"

fun walkProtos :: "(string \<Rightarrow> string + file_descriptor) \<Rightarrow> (string + dir_entry) list \<Rightarrow> string + file_descriptor list" where
  "walkProtos parse [] = Inr []"
| "walkProtos parse (Inl err # visits) = Inl err"
| "walkProtos parse (Inr d # visits) =
     (if wd_IsDir d \<or> Ext (wd_Path d) \<noteq> ''.proto'' then walkProtos parse visits
      else and_then (parse (wd_Path d)) (\<lambda>fd. and_then (walkProtos parse visits) (\<lambda>fds. Inr (fd # fds))))"

text \<open>The files a walk parses, and what it gives: every proto of the directory, or an error.\<close>

definition protosOf :: "(string + dir_entry) list \<Rightarrow> string list" where
  "protosOf visits = map wd_Path (filter (\<lambda>d. \<not> wd_IsDir d \<and> suffix ''.proto'' (wd_Path d)) (map projr (filter ok visits)))"

lemma Ext_append: "CHR ''.'' \<notin> set r \<Longrightarrow> CHR ''/'' \<notin> set r \<Longrightarrow> Ext (p @ CHR ''.'' # r) = CHR ''.'' # r"
proof -
  assume "CHR ''.'' \<notin> set r" "CHR ''/'' \<notin> set r"
  then have "takeWhile (\<lambda>c. c \<noteq> CHR ''.'' \<and> c \<noteq> CHR ''/'') (rev r @ CHR ''.'' # rev p) = rev r"
    by (subst takeWhile_append2) auto
  then show ?thesis by (simp add: Ext_def)
qed

lemma Ext_suffix: "suffix (Ext path) path"
proof (cases "Ext path = []")
  case False
  let ?r = "takeWhile (\<lambda>c. c \<noteq> CHR ''.'' \<and> c \<noteq> CHR ''/'') (rev path)"
  from False have e: "Ext path = CHR ''.'' # rev ?r" and p: "prefix ''.'' (drop (length ?r) (rev path))"
    by (auto simp: Ext_def Let_def split: if_splits)
  from p obtain x where "drop (length ?r) (rev path) = CHR ''.'' # x" by (auto simp: prefix_def)
  then have "rev path = ?r @ CHR ''.'' # x"
    by (metis append_take_drop_id takeWhile_eq_take)
  then have "path = rev x @ CHR ''.'' # rev ?r" by (metis append.assoc append_Cons append_Nil rev.simps(2) rev_append rev_rev_ident)
  with e show ?thesis by (metis suffixI)
qed simp

lemma Ext_proto: "Ext path = ''.proto'' \<longleftrightarrow> suffix ''.proto'' path"
proof
  assume "suffix ''.proto'' path"
  then obtain p where "path = p @ CHR ''.'' # ''proto''" by (auto simp: suffix_def)
  then show "Ext path = ''.proto''" using Ext_append [of "''proto''" p] by simp
qed (metis Ext_suffix)

lemma walkProtos_Inr:
  "walkProtos parse visits = Inr fds \<longleftrightarrow>
     list_all ok visits \<and> list_all2 (\<lambda>path fd. parse path = Inr fd) (protosOf visits) fds"
proof (induction visits arbitrary: fds)
  case (Cons v visits)
  then show ?case
    by (cases v) (auto simp: protosOf_def Ext_proto and_then_eq_Inr list_all2_Cons1)
qed (auto simp: protosOf_def)

text \<open>\<open>parseDir\<close> is \<^const>\<open>walkProtos\<close> over the visits of one directory.\<close>

definition scan :: "(string \<Rightarrow> string + file_descriptor list) \<Rightarrow> string list \<Rightarrow> string list \<Rightarrow> string + rpc list" where
  "scan parseDir dirs packages = and_then (mapE parseDir dirs) (\<lambda>perDir.
     let files = concat perDir; known = knownTypes files in
     Inr (sortStable (\<lambda>a b. strLess (rp_Name a) (rp_Name b))
       (concat (map (rpcsOf known) (filter (\<lambda>f. packages = [] \<or> fd_Package f \<in> set packages) files)))))"

section \<open>The command\<close>

record cap_flags =
  cf_catalog :: string
  cf_protoDirs :: "string list"
  cf_packages :: "string list"
  cf_modules :: "string list"

datatype load_error = PathError string | BadCatalog parse_error

text \<open>The exit code and the RPCs warned about; \<open>flags\<close> is what the command line parses to, if it does.\<close>

definition runCapcheck ::
    "(string \<Rightarrow> load_error + entry list) \<Rightarrow> (string \<Rightarrow> string + file_descriptor list) \<Rightarrow> cap_flags option \<Rightarrow> nat \<times> string list" where
  "runCapcheck load parseDir flags = (case flags of
       None \<Rightarrow> (2, [])
     | Some fl \<Rightarrow>
         if cf_protoDirs fl = [] then (2, [])
         else (case load (cf_catalog fl) of
             Inl (PathError _) \<Rightarrow> (2, [])
           | Inl (BadCatalog _) \<Rightarrow> (1, [])
           | Inr entries \<Rightarrow> (case scan parseDir (cf_protoDirs fl) (cf_packages fl) of
                 Inl _ \<Rightarrow> (2, [])
               | Inr rpcs \<Rightarrow>
                   if CheckRPCs rpcs entries \<noteq> [] \<or> (cf_modules fl \<noteq> [] \<and> CheckModules (cf_modules fl) entries \<noteq> [])
                   then (1, [])
                   else (0, map en_RPC (Ungated entries)))))"

section \<open>Scoping\<close>

text \<open>
  The scopes around a package, innermost first: the package, the package without its last segment, and
  so on to the file's top level.
\<close>

definition scopes :: "string list \<Rightarrow> string list" where
  "scopes segs = map (\<lambda>n. joinWith CHR ''.'' (take n segs)) (rev [0..<Suc (length segs)])"

definition scopesOf :: "string \<Rightarrow> string list" where
  "scopesOf pkg = scopes (splitOn CHR ''.'' pkg)"

lemma scopes_simps:
  "scopes [] = [[]]"
  "scopes (ws @ [w]) = joinWith CHR ''.'' (ws @ [w]) # scopes ws"
proof -
  have "map (\<lambda>n. joinWith CHR ''.'' (take n (ws @ [w]))) (rev [0..<Suc (length ws)])
      = map (\<lambda>n. joinWith CHR ''.'' (take n ws)) (rev [0..<Suc (length ws)])" by simp
  moreover have "rev [0..<Suc (length (ws @ [w]))] = Suc (length ws) # rev [0..<Suc (length ws)]" by simp
  ultimately show "scopes (ws @ [w]) = joinWith CHR ''.'' (ws @ [w]) # scopes ws"
    unfolding scopes_def by (simp del: upt_Suc)
qed (simp add: scopes_def)

lemma outerScope_join:
  assumes "CHR ''.'' \<notin> set w"
  shows "outerScope (joinWith CHR ''.'' (ws @ [w])) = joinWith CHR ''.'' ws"
proof (cases ws rule: rev_cases)
  case Nil
  have "dropWhile (\<lambda>c. c \<noteq> CHR ''.'') (rev w) = []" using assms by auto
  with Nil show ?thesis unfolding outerScope_def by (simp only: append_Nil joinWith.simps list.sel rev.simps)
next
  case (snoc us u)
  have "joinWith CHR ''.'' (us @ [u, w]) = joinWith CHR ''.'' (us @ [u]) @ CHR ''.'' # w"
    by (induction us rule: remdups_adj.induct) auto
  then have "joinWith CHR ''.'' (ws @ [w]) = joinWith CHR ''.'' ws @ CHR ''.'' # w" using snoc by simp
  moreover have "dropWhile (\<lambda>c. c \<noteq> CHR ''.'') (rev w @ CHR ''.'' # v) = CHR ''.'' # v" for v
    using assms by (subst dropWhile_append2) auto
  ultimately show ?thesis by (simp add: outerScope_def)
qed

lemma innermost_scopes:
  assumes "\<forall>w \<in> set segs. CHR ''.'' \<notin> set w"
  shows "innermost known ref (joinWith CHR ''.'' segs) =
     map_option (\<lambda>s. qualify s ref) (find (\<lambda>s. qualify s ref \<in> known) (scopes segs))"
  using assms
proof (induction segs rule: rev_induct)
  case Nil
  then show ?case by (simp add: innermost.simps [of known ref "[]"] scopes_simps)
next
  case (snoc w ws)
  let ?s = "joinWith CHR ''.'' (ws @ [w])"
  have IH: "innermost known ref (joinWith CHR ''.'' ws) = map_option (\<lambda>s. qualify s ref) (find (\<lambda>s. qualify s ref \<in> known) (scopes ws))"
    using snoc by simp
  show ?case
  proof (cases "?s = []")
    case False
    have "outerScope ?s = joinWith CHR ''.'' ws" using snoc.prems by (intro outerScope_join) simp
    with False IH show ?thesis
      unfolding innermost.simps [of known ref ?s] by (simp add: scopes_simps)
  next
    case True
    then have "ws = []" by (cases ws rule: remdups_adj.cases) auto
    with True show ?thesis by (simp add: innermost.simps [of known ref "[]"] scopes_def)
  qed
qed

text \<open>
  A type is resolved by the scoping of protobuf: the innermost scope around the package in which a
  scanned file declares it; otherwise it is taken as written, a bare name in its own package.
\<close>

lemma resolve_is_innermost:
  assumes "\<not> prefix ''.'' ref"
  shows "resolve known pkg ref = (case find (\<lambda>s. qualify s ref \<in> known) (scopesOf pkg) of
       Some s \<Rightarrow> qualify s ref
     | None \<Rightarrow> if CHR ''.'' \<in> set ref then ref else qualify pkg ref)"
proof -
  have "innermost known ref pkg = map_option (\<lambda>s. qualify s ref) (find (\<lambda>s. qualify s ref \<in> known) (scopesOf pkg))"
    using innermost_scopes [of "splitOn CHR ''.'' pkg" known ref] splitOn_no_sep [of _ "CHR ''.''" pkg]
    by (auto simp: scopesOf_def joinWith_splitOn)
  with assms show ?thesis by (simp add: resolve_def split: option.split)
qed

section \<open>What a passing check says\<close>

text \<open>
  C36. The check passes exactly when the catalog is the protos. With RPC names that are distinct, as a
  build of the protos requires, the command exits with zero exactly if it was given a directory, the
  catalog loads, every proto parses, the operations catalogued are the RPCs of the chosen packages
  with the request and response types they resolve to, and, when modules are given, every action is
  of one of them.
\<close>

theorem capcheck_passes_iff:
  assumes "\<And>rpcs. scan parseDir (cf_protoDirs fl) (cf_packages fl) = Inr rpcs \<Longrightarrow> distinct (map rp_Name rpcs)"
  shows "fst (runCapcheck load parseDir (Some fl)) = 0 \<longleftrightarrow> cf_protoDirs fl \<noteq> [] \<and> (\<exists>entries perDir.
       load (cf_catalog fl) = Inr entries \<and> list_all2 (\<lambda>dir files. parseDir dir = Inr files) (cf_protoDirs fl) perDir
     \<and> catalogued ` set entries = {declared r | r f. f \<in> set (concat perDir) \<and> (cf_packages fl = [] \<or> fd_Package f \<in> set (cf_packages fl))
          \<and> r \<in> set (rpcsOf (knownTypes (concat perDir)) f)}
     \<and> (cf_modules fl \<noteq> [] \<longrightarrow> (\<forall>e \<in> set entries. en_Action e \<noteq> [] \<longrightarrow> cutBefore CHR ''.'' (en_Action e) \<in> set (cf_modules fl))))"
proof -
  let ?rpcs = "\<lambda>perDir. {r. \<exists>f. f \<in> set (concat perDir) \<and> (cf_packages fl = [] \<or> fd_Package f \<in> set (cf_packages fl))
          \<and> r \<in> set (rpcsOf (knownTypes (concat perDir)) f)}"
  have modules: "CheckModules (cf_modules fl) es = [] \<longleftrightarrow>
      (\<forall>e \<in> set es. en_Action e \<noteq> [] \<longrightarrow> cutBefore CHR ''.'' (en_Action e) \<in> set (cf_modules fl))" for es
    using enumerate_all [of 0 es "\<lambda>e. en_Action e \<noteq> [] \<longrightarrow> cutBefore CHR ''.'' (en_Action e) \<in> set (cf_modules fl)"]
    by (fastforce simp: CheckModules_def Let_def split: if_splits)
  define R where "R perDir = sortStable (\<lambda>a b. strLess (rp_Name a) (rp_Name b)) (concat (map (rpcsOf (knownTypes (concat perDir)))
      (filter (\<lambda>f. cf_packages fl = [] \<or> fd_Package f \<in> set (cf_packages fl)) (concat perDir))))" for perDir
  have scan: "scan parseDir (cf_protoDirs fl) (cf_packages fl) = and_then (mapE parseDir (cf_protoDirs fl)) (\<lambda>perDir. Inr (R perDir))"
    by (simp add: scan_def R_def Let_def)
  have R: "set (R perDir) = ?rpcs perDir" for perDir by (fastforce simp: R_def)
  have run: "fst (runCapcheck load parseDir (Some fl)) = 0 \<longleftrightarrow> cf_protoDirs fl \<noteq> [] \<and> (\<exists>entries rpcs.
       load (cf_catalog fl) = Inr entries \<and> scan parseDir (cf_protoDirs fl) (cf_packages fl) = Inr rpcs
     \<and> CheckRPCs rpcs entries = [] \<and> (cf_modules fl \<noteq> [] \<longrightarrow> CheckModules (cf_modules fl) entries = []))"
    by (auto simp: runCapcheck_def split: sum.split load_error.split)
  have "CheckRPCs (R perDir) entries = [] \<longleftrightarrow> catalogued ` set entries = {declared r | r f. f \<in> set (concat perDir)
        \<and> (cf_packages fl = [] \<or> fd_Package f \<in> set (cf_packages fl)) \<and> r \<in> set (rpcsOf (knownTypes (concat perDir)) f)}"
    if "mapE parseDir (cf_protoDirs fl) = Inr perDir" for perDir entries
  proof -
    have "distinct (map rp_Name (R perDir))" using assms scan that by simp
    from CheckRPCs_exact [OF this] show ?thesis unfolding R by (simp add: image_Collect setcompr_eq_image [symmetric])
  qed
  then show ?thesis
    unfolding run modules scan mapE_Inr [symmetric] by (auto simp: and_then_eq_Inr)
qed

section \<open>Witness\<close>

definition sample_proto :: file_descriptor where
  "sample_proto = \<lparr>fd_Package = ''billing.v1'', fd_Messages = [Message ''Req'' [], Message ''Res'' []],
     fd_Services = [(''S'', [\<lparr>pm_Name = ''List'', pm_Input = ''Req'', pm_Output = ''Res''\<rparr>])]\<rparr>"

definition sample_flags :: cap_flags where
  "sample_flags = \<lparr>cf_catalog = ''catalog.yaml'', cf_protoDirs = [''proto''], cf_packages = [''billing.v1''], cf_modules = []\<rparr>"

lemma sample_known: "knownTypes [sample_proto] = {''billing.v1.Req'', ''billing.v1.Res''}"
  by (simp add: knownTypes_def sample_proto_def qualify_def)

lemma sample_rpcs:
  "rpcsOf (knownTypes [sample_proto]) sample_proto
     = [\<lparr>rp_Name = ''billing.v1.S/List'', rp_Request = ''billing.v1.Req'', rp_Response = ''billing.v1.Res''\<rparr>]"
proof -
  have "innermost {''billing.v1.Req'', ''billing.v1.Res''} ''Req'' ''billing.v1'' = Some ''billing.v1.Req''"
    "innermost {''billing.v1.Req'', ''billing.v1.Res''} ''Res'' ''billing.v1'' = Some ''billing.v1.Res''"
    by (subst innermost.simps, simp add: qualify_def)+
  then show ?thesis
    unfolding sample_known by (simp add: rpcsOf_def sample_proto_def qualify_def resolve_def)
qed

theorem capcheck_passes_iff_witness:
  "fst (runCapcheck (\<lambda>_. Inr [sample_entry]) (\<lambda>_. Inr [sample_proto]) (Some sample_flags)) = 0"
proof (rule capcheck_passes_iff [THEN iffD2])
  fix rpcs
  assume "scan (\<lambda>_. Inr [sample_proto]) (cf_protoDirs sample_flags) (cf_packages sample_flags) = Inr rpcs"
  moreover have "fd_Package sample_proto = ''billing.v1''" by (simp add: sample_proto_def)
  ultimately show "distinct (map rp_Name rpcs)"
    by (auto simp: scan_def sample_flags_def sample_rpcs sortStable_def Let_def)
next
  have "{declared r | r f. f \<in> set (concat [[sample_proto]]) \<and> (cf_packages sample_flags = [] \<or> fd_Package f \<in> set (cf_packages sample_flags))
        \<and> r \<in> set (rpcsOf (knownTypes (concat [[sample_proto]])) f)} = catalogued ` set [sample_entry]"
    by (simp add: sample_rpcs sample_entry_def catalogued_def declared_def) (simp add: sample_proto_def sample_flags_def)
  then show "cf_protoDirs sample_flags \<noteq> [] \<and> (\<exists>entries perDir.
       (Inr [sample_entry] :: load_error + entry list) = Inr entries
     \<and> list_all2 (\<lambda>dir files. (Inr [sample_proto] :: string + file_descriptor list) = Inr files) (cf_protoDirs sample_flags) perDir
     \<and> catalogued ` set entries = {declared r | r f. f \<in> set (concat perDir)
          \<and> (cf_packages sample_flags = [] \<or> fd_Package f \<in> set (cf_packages sample_flags))
          \<and> r \<in> set (rpcsOf (knownTypes (concat perDir)) f)}
     \<and> (cf_modules sample_flags \<noteq> [] \<longrightarrow> (\<forall>e \<in> set entries. en_Action e \<noteq> [] \<longrightarrow>
          cutBefore CHR ''.'' (en_Action e) \<in> set (cf_modules sample_flags))))"
    by (intro conjI exI [of _ "[sample_entry]"] exI [of _ "[[sample_proto]]"]) (simp_all add: sample_flags_def)
qed

end
