(* ===== verification/Textnorm.thy ===== *)
theory Textnorm
  imports Kit_Prelude
begin

text \<open>
  Names for search (\<open>src/textnorm/textnorm.go\<close>). The transformer chain of \<open>golang.org/x/text\<close> (decompose,
  drop the combining marks, compose) and the case table of \<open>unicode\<close> are arguments; the encoding of
  runes, the splitting into words and the joining are written out.
\<close>

section \<open>Search\<close>

text \<open>\<open>utf8.AppendRune\<close>: what is no code point is the replacement rune.\<close>

definition encodeRune :: "nat \<Rightarrow> string" where
  "encodeRune r0 = (let r = (if (55296 \<le> r0 \<and> r0 \<le> 57343) \<or> 1114111 < r0 then rune_error else r0) in
     map char_of
      (if r < 128 then [r]
       else if r < 2048 then [192 + r div 64, 128 + r mod 64]
       else if r < 65536 then [224 + r div 4096, 128 + r div 64 mod 64, 128 + r mod 64]
       else [240 + r div 262144, 128 + r div 4096 mod 64, 128 + r div 64 mod 64, 128 + r mod 64]))"

text \<open>\<open>strings.ToLower\<close>: each rune through the table, an invalid byte as the replacement rune.\<close>

definition ToLower :: "(nat \<Rightarrow> nat) \<Rightarrow> string \<Rightarrow> string" where
  "ToLower lower s = concat (map (encodeRune \<circ> lower) (runes s))"

definition folded :: "(string \<Rightarrow> string + string) \<Rightarrow> string \<Rightarrow> string" where
  "folded transform s = (case transform s of Inl err \<Rightarrow> s | Inr t \<Rightarrow> t)"

definition Search :: "(string \<Rightarrow> string + string) \<Rightarrow> (nat \<Rightarrow> nat) \<Rightarrow> string \<Rightarrow> string" where
  "Search transform lower s = joinWith CHR '' '' (Fields (ToLower lower (folded transform s)))"

section \<open>Decoding around a byte that starts a rune\<close>

definition continues :: "char \<Rightarrow> bool" where
  "continues c \<longleftrightarrow> in_range 128 191 c"

lemma decode_before:
  assumes "\<not> continues c"
  shows "decode2 b (cs @ c # r) = (fst (decode2 b cs), snd (decode2 b cs) @ c # r)"
    and "128 \<le> lo \<Longrightarrow> hi \<le> 191 \<Longrightarrow> decode3 lo hi b (cs @ c # r) = (fst (decode3 lo hi b cs), snd (decode3 lo hi b cs) @ c # r)"
    and "128 \<le> lo \<Longrightarrow> hi \<le> 191 \<Longrightarrow> decode4 lo hi b (cs @ c # r) = (fst (decode4 lo hi b cs), snd (decode4 lo hi b cs) @ c # r)"
  using assms
  by (auto simp: decode_defs continues_def in_range_def split: list.splits)

lemma next_rune_before:
  "\<not> continues c \<Longrightarrow> next_rune b (cs @ c # r) = (fst (next_rune b cs), snd (next_rune b cs) @ c # r)"
  by (simp add: next_rune_def decode_before Let_def)

lemma rune_segs_before: "\<not> continues c \<Longrightarrow> rune_segs (u @ c # r) = rune_segs u @ rune_segs (c # r)"
proof (induction u rule: rune_segs.induct)
  case (2 b cs)
  have "suffix (snd (next_rune b cs)) cs" by (rule next_rune_suffix)
  then have "length (snd (next_rune b cs)) \<le> length cs" by (rule suffix_length_le)
  with 2 show ?case by (simp add: next_rune_before Let_def)
qed simp

text \<open>Cutting the bytes after a rune does not change it.\<close>

abbreviation cutAfter :: "nat \<Rightarrow> string \<Rightarrow> nat \<times> string \<Rightarrow> nat \<times> string" where
  "cutAfter m cs nr \<equiv> (fst nr, take (m - (length cs - length (snd nr))) (snd nr))"

lemma decode2_take: "length cs - length (snd (decode2 b cs)) \<le> m \<Longrightarrow> decode2 b (take m cs) = cutAfter m cs (decode2 b cs)"
  by (cases m) (auto simp: decode2_def split: list.splits if_splits)

lemma decode3_take:
  assumes "length cs - length (snd (decode3 lo hi b cs)) \<le> m"
  shows "decode3 lo hi b (take m cs) = cutAfter m cs (decode3 lo hi b cs)"
proof -
  have short: "decode3 lo hi b xs = (rune_error, xs)" if "length xs < 2" for xs
    using that by (auto simp: decode3_def split: list.splits)
  show ?thesis
  proof (cases "m < 2 \<or> length cs < 2")
    case True
    then have "length (take m cs) < 2" by auto
    moreover have "snd (decode3 lo hi b cs) = cs \<and> fst (decode3 lo hi b cs) = rune_error"
      using True assms by (auto simp: decode3_def split: list.splits if_splits)
    ultimately show ?thesis using short [of "take m cs"] by simp
  next
    case False
    then obtain x y r k where "cs = x # y # r" "m = Suc (Suc k)"
      by (cases cs; cases "tl cs"; cases m; cases "m - 1") auto
    with assms show ?thesis by (auto simp: decode3_def)
  qed
qed

lemma decode4_take:
  assumes "length cs - length (snd (decode4 lo hi b cs)) \<le> m"
  shows "decode4 lo hi b (take m cs) = cutAfter m cs (decode4 lo hi b cs)"
proof -
  have short: "decode4 lo hi b xs = (rune_error, xs)" if "length xs < 3" for xs
    using that by (auto simp: decode4_def split: list.splits)
  show ?thesis
  proof (cases "m < 3 \<or> length cs < 3")
    case True
    then have "length (take m cs) < 3" by auto
    moreover have "snd (decode4 lo hi b cs) = cs \<and> fst (decode4 lo hi b cs) = rune_error"
      using True assms by (auto simp: decode4_def split: list.splits if_splits)
    ultimately show ?thesis using short [of "take m cs"] by simp
  next
    case False
    then obtain x y z r k where "cs = x # y # z # r" "m = Suc (Suc (Suc k))"
      by (cases cs; cases "tl cs"; cases "tl (tl cs)"; cases m; cases "m - 1"; cases "m - 2") auto
    moreover have "take (3 + k) (x # y # z # r) = x # y # z # take k r" by (simp add: numeral_3_eq_3)
    ultimately show ?thesis using assms by (auto simp: decode4_def)
  qed
qed

lemma next_rune_take:
  "length cs - length (snd (next_rune b cs)) \<le> m \<Longrightarrow> next_rune b (take m cs) = cutAfter m cs (next_rune b cs)"
  by (simp add: next_rune_def Let_def decode2_take decode3_take decode4_take split: if_splits)

text \<open>A list of runes that its bytes decode to, and the parts of one.\<close>

definition decoded :: "(nat \<times> string) list \<Rightarrow> bool" where
  "decoded segs \<longleftrightarrow> rune_segs (concat (map snd segs)) = segs"

lemma decoded_runes [simp]: "decoded (rune_segs s)"
  by (simp add: decoded_def concat_rune_segs)

lemma decoded_head:
  assumes "decoded ((n, bs) # segs)"
  obtains b cs where "bs @ concat (map snd segs) = b # cs" "n = fst (next_rune b cs)"
    "bs = b # take (length cs - length (snd (next_rune b cs))) cs" "snd (next_rune b cs) = concat (map snd segs)" "decoded segs"
proof -
  from assms obtain b cs where bc: "bs @ concat (map snd segs) = b # cs"
    by (cases "bs @ concat (map snd segs)") (auto simp: decoded_def)
  with assms have r: "n = fst (next_rune b cs)" "bs = b # take (length cs - length (snd (next_rune b cs))) cs"
    "rune_segs (snd (next_rune b cs)) = segs" by (auto simp: decoded_def Let_def)
  from r(3) have "snd (next_rune b cs) = concat (map snd segs)" using concat_rune_segs by metis
  with r(3) have "decoded segs" by (simp add: decoded_def)
  with bc r(1,2) \<open>snd (next_rune b cs) = concat (map snd segs)\<close> that show ?thesis by blast
qed

lemma decoded_append: "decoded (xs @ ys) \<Longrightarrow> decoded xs \<and> decoded ys"
proof (induction xs)
  case (Cons x xs)
  obtain n bs where x: "x = (n, bs)" by (cases x)
  from Cons.prems x have "decoded ((n, bs) # xs @ ys)" by simp
  then obtain b cs where h: "bs @ concat (map snd (xs @ ys)) = b # cs" "n = fst (next_rune b cs)"
    "bs = b # take (length cs - length (snd (next_rune b cs))) cs" "snd (next_rune b cs) = concat (map snd (xs @ ys))" "decoded (xs @ ys)"
    by (rule decoded_head)
  let ?k = "length cs - length (snd (next_rune b cs))" and ?X = "concat (map snd xs)"
  have k: "length (take ?k cs) = ?k" by simp
  have cs: "cs = take ?k cs @ snd (next_rune b cs)" by (rule take_suffix [OF next_rune_suffix, symmetric])
  let ?m = "?k + length ?X"
  have take_m: "take ?m cs = take ?k cs @ ?X"
    by (subst cs, subst take_append) (simp add: h(4))
  have "next_rune b (take ?m cs) = (n, ?X)"
    using next_rune_take [of cs b ?m] h(2,4) by simp
  then have "rune_segs (b # take ?k cs @ ?X) = (n, b # take ?k cs) # rune_segs ?X"
    using take_m by (simp add: Let_def)
  moreover have "rune_segs ?X = xs" "decoded ys" using Cons.IH [OF h(5)] by (simp_all add: decoded_def)
  ultimately show ?case using x h(3) by (simp add: decoded_def)
qed (simp add: decoded_def)

section \<open>Words\<close>

definition isWord :: "string \<Rightarrow> bool" where
  "isWord w \<longleftrightarrow> w \<noteq> [] \<and> list_all (\<lambda>(n, _). \<not> isSpace n) (rune_segs w)"

lemma fieldsOf_words:
  assumes "decoded (taken @ segs)" and "list_all (\<lambda>(n, _). \<not> isSpace n) taken"
  shows "list_all isWord (fieldsOf (concat (map snd taken)) segs)"
  using assms
proof (induction segs arbitrary: taken)
  case Nil
  then show ?case by (auto simp: isWord_def decoded_def)
next
  case (Cons seg segs)
  obtain n bs where seg: "seg = (n, bs)" by (cases seg)
  from decoded_append [OF Cons.prems(1)] have t: "decoded taken" "decoded ((n, bs) # segs)" by (simp_all add: seg)
  show ?case
  proof (cases "isSpace n")
    case True
    from t(2) have "decoded segs" by (rule decoded_head)
    with Cons.IH [of "[]"] Cons.prems(2) t(1) True seg show ?thesis by (auto simp: isWord_def decoded_def)
  next
    case False
    with Cons.IH [of "taken @ [seg]"] Cons.prems seg show ?thesis by simp
  qed
qed

lemma Fields_words: "list_all isWord (Fields s)"
  using fieldsOf_words [of "[]" "rune_segs s"] by (simp add: Fields_def)

lemma fieldsOf_word:
  "list_all (\<lambda>(n, _). \<not> isSpace n) segs \<Longrightarrow> fieldsOf acc (segs @ rest) = fieldsOf (acc @ concat (map snd segs)) rest"
  by (induction segs arbitrary: acc) auto

lemma rune_segs_blank: "rune_segs (w @ CHR '' '' # s) = rune_segs w @ (32, '' '') # rune_segs s"
  by (simp add: rune_segs_before continues_def in_range_def next_rune_ascii Let_def)

lemma Fields_join: "list_all isWord ws \<Longrightarrow> Fields (joinWith CHR '' '' ws) = ws"
proof (induction ws)
  case (Cons w ws)
  note word = fieldsOf_word [of "rune_segs w" "[]", unfolded concat_rune_segs]
  show ?case
  proof (cases ws)
    case Nil
    with Cons.prems word [of "[]"] show ?thesis by (simp add: Fields_def isWord_def)
  next
    case (Cons v vs)
    with Cons.prems Cons.IH word [of "(32, '' '') # rune_segs (joinWith CHR '' '' ws)"] show ?thesis
      by (simp add: Fields_def isWord_def rune_segs_blank isSpace_def)
  qed
qed (simp add: Fields_def)

text \<open>
  Two names meet in a search exactly when they have the same words. What \<open>Search\<close> makes of a name has,
  read again, exactly the words of the folded and lowered name, none of them empty or with a space in
  it; so two names are stored alike exactly when their words, in order, are the same, however they were
  spaced, and a name without words is empty.
\<close>

theorem Search_keeps_the_words:
  "Fields (Search transform lower s) = Fields (ToLower lower (folded transform s))
   \<and> list_all isWord (Fields (Search transform lower s))
   \<and> (Search transform lower s = Search transform lower t
       \<longleftrightarrow> Fields (ToLower lower (folded transform s)) = Fields (ToLower lower (folded transform t)))"
  unfolding Search_def by (metis Fields_join Fields_words)

text \<open>A name that is folded, lowered and spaced once is stored as it is.\<close>

lemma Search_of_normal:
  assumes "folded transform (Search transform lower s) = Search transform lower s"
    and "ToLower lower (Search transform lower s) = Search transform lower s"
  shows "Search transform lower (Search transform lower s) = Search transform lower s"
  using assms by (simp add: Search_def Fields_join Fields_words)

end
