(* ===== verification/Idempotency_Path.thy ===== *)
theory Idempotency_Path
  imports Idempotency
begin

text \<open>
  The two models of the key interceptor (\<open>src/idempotency/idempotency.go\<close>) agree: what \<^const>\<open>run\<close> does for one
  request, statement after statement, is a path of the cluster of replicas, whose invariant then
  speaks of it.
\<close>

section \<open>The statements of a claim as steps\<close>

text \<open>A path of steps, and where a claim leaves its attempt: answered, refused, or at its handler.\<close>

abbreviation csteps :: "interceptor \<Rightarrow> cluster \<Rightarrow> cluster \<Rightarrow> bool" where
  "csteps i \<equiv> (cstep i None)\<^sup>*\<^sup>*"

definition afterClaim :: "string + held option \<Rightarrow> string \<Rightarrow> phase \<Rightarrow> bool" where
  "afterClaim r hash ph \<longleftrightarrow> (case r of
      Inl _ \<Rightarrow> ph = Finished Refused
    | Inr None \<Rightarrow> (\<exists>t0. ph = Running t0)
    | Inr (Some h) \<Rightarrow> ph = Finished (if hd_hash h \<noteq> hash \<or> hd_status h \<noteq> statusCompleted then Refused
                              else Replayed (case hd_response h of None \<Rightarrow> [] | Some b \<Rightarrow> b)))"

definition leadsTo :: "interceptor \<Rightarrow> nat \<Rightarrow> cluster \<Rightarrow> attempt \<Rightarrow> (string + held option) \<times> key_table \<Rightarrow> bool" where
  "leadsTo i p s a rt \<longleftrightarrow> (\<exists>s' ph. csteps i s s' \<and> cs_table s' = snd rt
     \<and> cs_procs s' p = Some (a\<lparr>at_phase := ph\<rparr>) \<and> afterClaim (fst rt) (at_hash a) ph)"

lemma goto_proc: "cs_procs (goto s p a ph) p = Some (a\<lparr>at_phase := ph\<rparr>)"
  by (simp add: goto_def)

lemma leadsTo_here:
  "cs_procs s p = Some (a\<lparr>at_phase := ph\<rparr>) \<Longrightarrow> afterClaim r (at_hash a) ph \<Longrightarrow> leadsTo i p s a (r, cs_table s)"
  by (auto simp: leadsTo_def)

lemma leadsTo_phase [simp]: "leadsTo i p s (a\<lparr>at_phase := ph\<rparr>) rt = leadsTo i p s a rt"
  by (simp add: leadsTo_def)

lemma leadsTo_after: "csteps i s s' \<Longrightarrow> leadsTo i p s' a rt \<Longrightarrow> leadsTo i p s a rt"
  unfolding leadsTo_def by (meson rtranclp_trans)

lemma leadsTo_refusal:
  assumes "cs_procs s p = Some a" and "at_phase a \<in> {AtInsert, AtTakeover, AtRead}"
  shows "leadsTo i p s a (Inl e, cs_table s)"
proof -
  have "leadsTo i p (goto s p a (Finished Refused)) a (Inl e, cs_table (goto s p a (Finished Refused)))"
    by (rule leadsTo_here [OF goto_proc]) (simp add: afterClaim_def)
  with cstep.store_error [OF assms, of i None] show ?thesis
    by (simp add: leadsTo_after [OF r_into_rtranclp])
qed

text \<open>A statement at its time: the clock is moved there, then the step is taken.\<close>

lemma at_time:
  assumes "cs_now s \<le> now" and "cstep i None (s\<lparr>cs_now := now\<rparr>) s'"
  shows "csteps i s s'"
proof -
  have "cstep i None s (s\<lparr>cs_now := now\<rparr>)" by (rule tick) (simp_all add: assms(1) within_def)
  with assms(2) show ?thesis by (meson converse_rtranclp_into_rtranclp r_into_rtranclp)
qed

lemma read_leads:
  assumes "cs_procs s p = Some a" and "at_phase a = AtRead"
    and at: "k = at_key a" "hash = at_hash a" "t = cs_table s"
  shows "leadsTo i p s a (readHeld ce k hash t)"
proof (cases "ce_select ce")
  case (Inl e)
  then show ?thesis using leadsTo_refusal [OF assms(1)] assms(2) by (simp add: at)
next
  case (Inr u)
  let ?s' = "goto s p a (Finished (readOutcome (at_hash a) (cs_table s (at_key a))))"
  have "csteps i s ?s'" using cstep.read [OF assms(1,2)] by blast
  moreover have "cs_table ?s' = cs_table s" by simp
  ultimately show ?thesis
    using Inr goto_proc [of s p a "Finished (readOutcome (at_hash a) (cs_table s (at_key a)))"]
    by (auto simp: at leadsTo_def afterClaim_def readOutcome_def status_defs split: option.splits)
qed

text \<open>A statement that may own the key, with what comes next when it does not.\<close>

lemma statement_leads:
  assumes path: "csteps i s (goto (s\<lparr>cs_now := now, cs_table := t\<rparr>) p a (if n = 1 then Running now else ph))"
    and next_one: "leadsTo i p (goto (s\<lparr>cs_now := now, cs_table := t\<rparr>) p a ph) a rest"
  shows "leadsTo i p s a (if n = (1 :: nat) then (Inr None, t) else rest)"
proof (cases "n = 1")
  case True
  let ?s = "goto (s\<lparr>cs_now := now, cs_table := t\<rparr>) p a (Running now)"
  have "leadsTo i p ?s a (Inr None, cs_table ?s)"
    by (rule leadsTo_here [OF goto_proc]) (simp add: afterClaim_def)
  with path True leadsTo_after show ?thesis by simp
qed (use path next_one leadsTo_after in simp)

lemma takeover_leads:
  assumes p: "cs_procs s p = Some a" "at_phase a = AtTakeover"
    and at: "k = at_key a" "method = at_method a" "hash = at_hash a" "t0 = cs_table s"
    and time: "\<And>now. ce_takeover ce = Inr now \<Longrightarrow> cs_now s \<le> now"
  shows "leadsTo i p s a (takeHeld i ce k method hash t0)"
proof (cases "ce_takeover ce")
  case (Inl e)
  then show ?thesis using leadsTo_refusal [OF p(1)] p(2) by (simp add: at)
next
  case (Inr now)
  obtain n t where e: "execTakeover i now (at_key a) (at_method a) (at_hash a) (cs_table s) = (n, t)" by fastforce
  let ?s = "\<lambda>ph. goto (s\<lparr>cs_now := now, cs_table := t\<rparr>) p a ph"
  have "cstep i None (s\<lparr>cs_now := now\<rparr>) (?s (if n = 1 then Running now else AtRead))"
    using cstep.takeover [of "s\<lparr>cs_now := now\<rparr>" p a i n t None] p e by (simp cong: if_cong)
  note path = at_time [OF time [OF Inr] this]
  have "leadsTo i p (?s AtRead) a (readHeld ce (at_key a) (at_hash a) t)"
    by (rule leadsTo_phase [THEN iffD1], rule read_leads [OF goto_proc]) simp_all
  from statement_leads [OF path this] show ?thesis by (simp only: Inr e at sum.case prod.case)
qed

lemma claimKey_leads:
  assumes p: "cs_procs s p = Some a" "at_phase a = AtInsert"
    and time: "\<And>now. ce_insert ce = Inr now \<Longrightarrow> cs_now s \<le> now \<and> (\<forall>now'. ce_takeover ce = Inr now' \<longrightarrow> now \<le> now')"
  shows "leadsTo i p s a (claimKey i ce (at_key a) (at_method a) (at_hash a) (cs_table s))"
proof (cases "ce_insert ce")
  case (Inl e)
  then show ?thesis using leadsTo_refusal [OF p(1)] p(2) by (simp add: claimKey_def)
next
  case (Inr now)
  obtain n t where e: "execInsert now (at_key a) (at_method a) (at_hash a) (cs_table s) = (n, t)" by fastforce
  let ?s = "\<lambda>ph. goto (s\<lparr>cs_now := now, cs_table := t\<rparr>) p a ph"
  have "cstep i None (s\<lparr>cs_now := now\<rparr>) (?s (if n = 1 then Running now else AtTakeover))"
    using cstep.insert [of "s\<lparr>cs_now := now\<rparr>" p a n t i None] p e by (simp cong: if_cong)
  note path = at_time [OF conjunct1 [OF time [OF Inr]] this]
  have "leadsTo i p (?s AtTakeover) a (takeHeld i ce (at_key a) (at_method a) (at_hash a) t)"
    by (rule leadsTo_phase [THEN iffD1], rule takeover_leads [OF goto_proc]) (use time [OF Inr] in simp_all)
  from statement_leads [OF path this] show ?thesis by (simp only: claimKey_def Inr e sum.case prod.case)
qed

section \<open>One request\<close>

text \<open>The answer of a request against the outcome of its attempt.\<close>

definition answers :: "('resp \<Rightarrow> string option) \<Rightarrow> (string \<Rightarrow> 'resp option) \<Rightarrow> outcome \<Rightarrow> 'e idem_error + 'resp \<Rightarrow> bool" where
  "answers marshal unmarshal out res \<longleftrightarrow> (case out of
      Answered b \<Rightarrow> (\<exists>resp. res = Inr resp \<and> (marshal resp = Some b \<or> marshal resp = None))
    | Replayed b \<Rightarrow> res = (case unmarshal b of None \<Rightarrow> Inl RecordUnreadable | Some resp \<Rightarrow> Inr resp)
    | Refused \<Rightarrow> (\<exists>e. res = Inl e))"

lemma finished:
  assumes "cstep i None s (goto s1 p a (Finished out))" and "cs_table s1 = t'" and "answers mr ur out res"
  shows "\<exists>s' out. csteps i s s' \<and> cs_table s' = t' \<and> cs_procs s' p = Some (a\<lparr>at_phase := Finished out\<rparr>) \<and> answers mr ur out res"
  by (rule exI [where x = "goto s1 p a (Finished out)"], rule exI [where x = out])
    (use assms in \<open>auto simp: goto_proc\<close>)

lemma handler_ends:
  assumes "cs_procs s p = Some a" and "at_phase a = Running t0" and "cs_table s = t" and "k = at_key a"
    and "(case hr of
        Inl e \<Rightarrow> (Inl (FromHandler e), w, if finish then execRelease k t else t)
      | Inr resp \<Rightarrow> (case mr resp of
            None \<Rightarrow> (Inr resp, w, t)
          | Some stored \<Rightarrow> (Inr resp, w, if finish then execRecord k stored t else t))) = (res, w', t')"
  shows "\<exists>s' out. csteps i s s' \<and> cs_table s' = t' \<and> cs_procs s' p = Some (a\<lparr>at_phase := Finished out\<rparr>) \<and> answers mr ur out res"
proof (cases hr)
  case (Inl e)
  with assms(3-5) show ?thesis
    by (intro finished [OF cstep.failure [OF assms(1,2), of i None finish]]) (auto simp: answers_def)
next
  case (Inr resp)
  let ?b = "case mr resp of None \<Rightarrow> [] | Some b \<Rightarrow> b" and ?recorded = "finish \<and> mr resp \<noteq> None"
  from Inr assms(3-5) have "t' = (if ?recorded then execRecord (at_key a) ?b (cs_table s) else cs_table s)" "res = Inr resp"
    by (auto split: option.splits)
  then show ?thesis
    by (intro finished [OF cstep.success [OF assms(1,2), of i None ?b ?recorded]]) (auto simp: answers_def split: option.splits)
qed

text \<open>
  One request is a path of the cluster. From any state of the replicas in which an attempt is about
  to insert its key, the statements of \<open>run\<close>, at times that do not run backwards, are steps that lead to
  the very table \<open>run\<close> leaves and to an outcome that is its answer: the handler's, a replayed
  response, or a refusal. What other requests do to the keys while the handler runs are steps of theirs.
\<close>

theorem run_is_a_path_of_the_cluster:
  assumes p: "cs_procs s p = Some a" "at_phase a = AtInsert"
    and time: "\<And>now. ce_insert (re_claim env) = Inr now \<Longrightarrow> cs_now s \<le> now
        \<and> (\<forall>now'. ce_takeover (re_claim env) = Inr now' \<longrightarrow> now \<le> now')"
    and others: "\<And>s1 t0. cs_procs s1 p = Some (a\<lparr>at_phase := Running t0\<rparr>) \<Longrightarrow>
        \<exists>s2. csteps i s1 s2 \<and> cs_procs s2 p = cs_procs s1 p \<and> cs_table s2 = snd (snd (handler (w, cs_table s1)))"
    and run: "run i mr ur env (at_key a) (at_method a) (at_hash a) handler (w, cs_table s) = (res, w', t')"
  shows "\<exists>s' out. csteps i s s' \<and> cs_table s' = t' \<and> cs_procs s' p = Some (a\<lparr>at_phase := Finished out\<rparr>)
     \<and> answers mr ur out res"
proof (cases "re_pool env")
  case (Inl e)
  with run p(2) show ?thesis
    by (intro finished [OF cstep.store_error [OF p(1)]]) (auto simp: run_def answers_def)
next
  case (Inr u)
  obtain r t where c: "claimKey i (re_claim env) (at_key a) (at_method a) (at_hash a) (cs_table s) = (r, t)" by fastforce
  have "leadsTo i p s a (r, t)" using claimKey_leads [OF p time] c by metis
  then obtain s1 ph where
    s1: "csteps i s s1" "cs_table s1 = t" "cs_procs s1 p = Some (a\<lparr>at_phase := ph\<rparr>)" "afterClaim r (at_hash a) ph"
    by (auto simp: leadsTo_def)
  show ?thesis
  proof (cases "\<exists>t0. ph = Running t0")
    case False
    with s1(4) obtain out where "ph = Finished out" "r \<noteq> Inr None" by (auto simp: afterClaim_def split: sum.splits option.splits)
    moreover from this run s1(4) Inr c have "t' = t" "answers mr ur out res"
      by (auto simp: run_def afterClaim_def answers_def replay_def split: sum.splits option.splits if_splits)
    ultimately show ?thesis using s1(1-3) by blast
  next
    case True
    then obtain t0 where ph: "ph = Running t0" by blast
    with s1(4) have r: "r = Inr None" by (auto simp: afterClaim_def split: sum.splits option.splits)
    obtain hr w1 t1 where h: "handler (w, t) = (hr, w1, t1)" by (cases "handler (w, t)") auto
    from others [of s1 t0] s1(2,3) ph h obtain s2 where
      s2: "csteps i s1 s2" "cs_procs s2 p = Some (a\<lparr>at_phase := Running t0\<rparr>)" "cs_table s2 = t1" by auto
    from run Inr c r h have "(case hr of
        Inl e \<Rightarrow> (Inl (FromHandler e), w1, if re_finish env then execRelease (at_key a) t1 else t1)
      | Inr resp \<Rightarrow> (case mr resp of
            None \<Rightarrow> (Inr resp, w1, t1)
          | Some stored \<Rightarrow> (Inr resp, w1, if re_finish env then execRecord (at_key a) stored t1 else t1))) = (res, w', t')"
      unfolding run_def by (cases hr) (simp_all split: option.splits)
    from handler_ends [where ?t0.0 = t0 and i = i and ur = ur, OF s2(2) _ s2(3) _ this] obtain s3 out where
      "csteps i s2 s3" "cs_table s3 = t'" "cs_procs s3 p = Some (a\<lparr>at_phase := Finished out\<rparr>)" "answers mr ur out res" by auto
    moreover from s1(1) s2(1) this(1) have "csteps i s s3" by (meson rtranclp_trans)
    ultimately show ?thesis by blast
  qed
qed

theorem run_is_a_path_of_the_cluster_witness:
  "\<exists>s' out. csteps sample_interceptor (clusterOf 0 None [tryOf ''h'' AtInsert] []) s'
     \<and> cs_procs s' 0 = Some (tryOf ''h'' (Finished out)) \<and> answers Some Some out (Inr ''voided'' :: string idem_error + string)"
proof -
  let ?s = "clusterOf 0 None [tryOf ''h'' AtInsert] []" and ?h = "\<lambda>wt :: nat \<times> key_table. (Inr ''voided'' :: string + string, wt)"
  obtain res w' t' where r: "run sample_interceptor Some Some (sample_run_env 0) (''acme'', ''k'') ''/S/Void'' ''h'' ?h (0, cs_table ?s)
      = (res, w', t')" by (metis prod_cases3)
  then have res: "res = Inr ''voided''"
    by (auto simp: run_def sample_run_env_def claimKey_def execInsert_def clusterOf_table split: if_splits)
  have "\<exists>s' out. csteps sample_interceptor ?s s' \<and> cs_table s' = t'
      \<and> cs_procs s' 0 = Some ((tryOf ''h'' AtInsert)\<lparr>at_phase := Finished out\<rparr>) \<and> answers Some Some out res"
    by (rule run_is_a_path_of_the_cluster [where env = "sample_run_env 0" and handler = ?h and w = 0 and w' = w'])
      (use r in \<open>auto simp: sample_run_env_def\<close>)
  then show ?thesis unfolding res by auto
qed

end
