(* ===== verification/Spec2Isabelle.thy ===== *)
theory Spec2Isabelle
  imports Authz_Gate Auth_Verifier Auth_Service Rate_Limit Idempotency Outbox_Delivery
    Hcm_Bracket Hcm_Laws Hcm_Eligibility Hcm_Calendar Divisions_Catalogs
    Tenancy_Base Tenancy_Discover Blob_Disk Blob_S3 Measure Parties Uiserve Natsconn
    Outbox_Consumer Outbox_Run Outbox_Journey Bccr Capcheck Textnorm
    Idempotency_Path
begin

text \<open>
  strix-core-kit is the platform kit of the Cores, written in Go: each package of \<open>src/\<close> is a part
  that a Core links, and this development models the packages that carry logic and proves what makes
  each of them correct. This theory imports all the others and holds what spans two of them.

  How the program is modelled. A Go function that may fail is a function into a sum, \<open>Inl\<close> the error;
  errors are datatypes that keep the sentinel and the data, not the wording. A struct is a record, an
  enumeration its strings, a map a HOL map or, where its length or order is read, an association
  list. A string is its bytes (\<open>Kit_Prelude\<close> decodes runes as Go does). A context is a record
  (\<open>Tenant_Ctx\<close>). Time and durations are integers in nanoseconds, wrapped to 64 bits where the code
  computes with them. A method that changes its receiver returns it; a value that other goroutines
  share is given between two locked sections to whatever they do. Loops are structural recursions, or
  functions with a termination measure; the two loops of \<open>src/divisions\<close> that have no bound are partial
  functions. There is no fuel anywhere.

  What is an argument. Code that is not under \<open>src/\<close> is a parameter of the definitions that use it: jwx and
  the identity provider, OpenTelemetry, the transformers of \<open>x/text\<close>, the PDP's stub, the token buckets of \<open>x/time/rate\<close>, Postgres below the level of
  statements, goose, NATS, MinIO, YAML and JSON decoders, SHA-256, \<open>net/url\<close>, the parser of protos, and
  \<open>shopspring/decimal\<close> (a record of operations with the locale \<open>decimal_laws\<close>, which \<open>Decimal_Lib\<close>
  interprets on a decimal of coefficient and exponent). What a theorem assumes of such an argument is
  a hypothesis of it, and its witness instantiates the argument with a concrete function.

  The parts, theory by theory.

  Identity and access. \<open>Tenant_Ctx\<close> (\<open>tenantctx\<close>): the values of a context. \<open>Auth_Claims\<close>,
  \<open>Auth_Verifier\<close> (\<open>auth/verifier.go\<close>, \<open>auth/interceptor.go\<close>): claims, the cache of key sets, the
  interceptor; handlers see only verified claims, and an unreachable key endpoint does not stop
  verification. \<open>Auth_Service\<close> (\<open>auth/service.go\<close>): service tokens per tenant and audience, never
  crossed. \<open>Capabilities\<close> (\<open>capabilities\<close>): the operation catalog, what it accepts and how it
  classifies. \<open>Capcheck\<close> (\<open>cmd/capcheck\<close>): its check against the protos, with the scoping of type
  names equal to a reference definition. \<open>Pdp_Client\<close> (\<open>pdp\<close>), \<open>Telemetry\<close> (\<open>telemetry\<close>): the
  decision client and what is recorded of a decision. \<open>Authz_Gate\<close> (\<open>authz\<close>): the gate every call
  goes through; when exactly it lets one pass.

  Writes and events. \<open>Rate_Limit\<close> (\<open>ratelimit\<close>): isolated buckets. \<open>Idempotency\<close> (\<open>idempotency\<close>): the
  statements on the key table, one request, what is recorded of a response, and a cluster of replicas
  as a step relation, in which at most one handler runs per key and a recorded response is final
  until its TTL; a call changes nothing without owning its key. \<open>Idempotency_Path\<close>: a request is a
  path of that cluster. \<open>Outbox_Store\<close> (\<open>outbox/outbox.go\<close>, \<open>outbox/meta.go\<close>,
  transactions of \<open>tenancy/base.go\<close>, \<open>tenancy/outboxwake.go\<close>), where the answer to a commit may be lost;
  \<open>Outbox_Causation\<close>, \<open>Outbox_Schedule\<close>
  (\<open>outbox/schedule.go\<close>), \<open>Outbox_Relay\<close> (\<open>outbox/relay.go\<close>, \<open>outbox/discover.go\<close>), \<open>Outbox_Delivery\<close>
  (a fleet of relays as a step relation, in which the ids need not follow the commits: nothing is lost,
  and what the ids order is delivered in order; one drain gets up to the first row that cannot be
  encoded), \<open>Outbox_Run\<close> (the goroutine of \<open>Run\<close> interleaved with transactions of its own process, which
  wake it, and with changes by others, which do not: no wake-up is left to a cadence,
  no signal is lost, nothing is published before the stream exists), \<open>Outbox_Envelope\<close>
  (\<open>outbox/meta.go\<close>: an event tells its cause over the wire, and chains of reactions end),
  \<open>Outbox_Consumer\<close> (\<open>outbox/consumer.go\<close>) and \<open>Outbox_Journey\<close> (store, replicas, envelope and
  processed events together: over deliveries in any order and number, each committed event is applied
  once). \<open>Natsconn\<close> (\<open>natsconn\<close>): one credential, one inbox.

  Tenants. \<open>Refinement\<close>: the locale \<open>simulation\<close>, a component whose operations answer and move as a
  specification does; the registry of pools, the store on disk and the store on S3 interpret it.
  \<open>Tenancy_Pools\<close> (\<open>tenancy/pools.go\<close>): the list and map of pools against an LRU cache that is one list.
  \<open>Tenancy_Base\<close> (\<open>tenancy/base.go\<close>), \<open>Tenancy_Config\<close> (\<open>tenancy/poolconfig.go\<close> and the resolver),
  \<open>Tenancy_Discover\<close> (\<open>tenancy/discover.go\<close>, \<open>Migrate\<close>): settings, DSNs, enumeration and migration of
  every tenant.

  Reference data. \<open>Ancestry\<close>: the walks over nodes that name their parent, against their chains.
  \<open>Divisions_Tree\<close> (\<open>divisions/client.go\<close>) and \<open>Divisions_Catalogs\<close> (\<open>divisions/catalogs.go\<close>): the
  cached client and its three catalogs. \<open>Parties\<close> (\<open>parties\<close>): the supplier lookup.
  \<open>Blob_Store\<close>, \<open>Blob_Disk\<close>, \<open>Blob_S3\<close> (\<open>blob\<close>): attachments; the store in memory is the
  specification of the other two. \<open>Uiserve\<close> (\<open>uiserve\<close>): the bundle with its entity tags.

  Numbers. \<open>Decimal_Lib\<close>, \<open>Hcm_Values\<close> (\<open>decimals\<close>, \<open>hcmrules/values.go\<close>), \<open>Hcm_Bracket\<close>, \<open>Hcm_Formula\<close>,
  \<open>Hcm_Eligibility\<close>, \<open>Hcm_Calendar\<close> with \<open>Civil_Date\<close> (\<open>hcmrules\<close>), and \<open>Hcm_Laws\<close>: the statutory formulas
  against the texts of their laws. \<open>Measure\<close> (\<open>measure\<close>): units and presentations. \<open>Bccr\<close> (\<open>fx/bccr\<close>):
  the reference exchange rate.

  Names. \<open>Textnorm\<close> (\<open>textnorm\<close>): what is stored of a name for search keeps its words and nothing else.

  Not modelled. Logs and the wording of messages. Connections: \<open>Dial\<close>, \<open>Close\<close>, deadlines, keepalive and
  the cancelling of contexts, except where a wait can be interrupted. The DDL of the tables. Data races
  below a mutex: every locked section is one step. Panics of handlers. Faults, permissions and limits
  of the disk. The options of otelgrpc. How a Core puts the interceptors in a row and what its handlers
  do, which is code of the Core. The limits of \<open>shopspring/decimal\<close>: its operations are total and
  exact here, where the library panics on an exponent past 32 bits and exhausts the memory when it
  writes a huge one out (\<open>decimals/decimals.go\<close> keeps such values out of what it parses). And \<open>gen/\<close>, which is generated.
\<close>

section \<open>The gate and the idempotency interceptor read the same catalog\<close>

text \<open>
  The two classifications of the catalog cannot disagree about a write. Over a catalog that
  \<open>Parse\<close> accepts, the interceptor takes an operation's method for a write exactly when the operation
  declares an effect other than a read, and the gate lets the assistant at its action only if the
  interceptor takes no operation with that action for a write.
\<close>

theorem gate_and_keys_agree_on_writes:
  assumes "Parse decode data = Inr es" and "e \<in> set es"
  shows "(IsWrite (NewInterceptor (Some (MethodEffects es)) opts) (FullMethod e) \<longleftrightarrow> en_Effect e \<noteq> EffectRead)
     \<and> (IsRead (Some (Effects es)) (en_Action e) \<longrightarrow>
          \<not> IsWrite (NewInterceptor (Some (MethodEffects es)) opts) (FullMethod e))"
proof -
  have cat: "catalogOK es"
    using assms(1) by (auto simp: Parse_def validate_Nil Let_def split: sum.splits option.splits if_splits)
  have isw: "IsWrite (NewInterceptor (Some (MethodEffects es)) opts) (FullMethod e) \<longleftrightarrow> en_Effect e \<noteq> EffectRead"
    by (rule IsWrite_catalog [OF cat assms(2)])
  with IsRead_catalog(3) [of es "en_Action e" e] assms(2) show ?thesis by blast
qed

theorem gate_and_keys_agree_on_writes_witness:
  "\<not> IsWrite (NewInterceptor (Some (MethodEffects [sample_entry])) []) (FullMethod sample_entry)"
proof -
  have "Parse (\<lambda>_. Inr (Some [sample_entry])) [] = Inr [sample_entry]"
    using sample_catalog_ok by (simp add: Parse_def validate_Nil Let_def)
  from gate_and_keys_agree_on_writes [OF this, of sample_entry "[]"]
  show ?thesis by (simp add: sample_entry_def)
qed

end
